(* ===== verification/Coin_Prelude.thy ===== *)
theory Coin_Prelude
  imports Main "HOL-Library.Word" "HOL-Library.Multiset" "HOL-Library.Monad_Syntax"
begin

text \<open>
  Shared vocabulary of the development: the widths of Go's integers, byte slices, the
  string conversions of the Go standard library that the program uses (conversion of a
  string to a byte slice, \<open>encoding/hex\<close>, \<open>strconv.Itoa\<close>, \<open>bytes.Compare\<close>),
  bounds-checked slice access, and the generic facts on lists, options and words the
  component theories share.

  Conventions. A Go string is a sequence of bytes, so it is a \<^typ>\<open>char list\<close>. A
  \<open>nil\<close> slice and an empty slice are both the empty list. An operation that can stop
  with a run-time panic (an index out of range, a nil dereference, a division by zero,
  \<open>log.Panicf\<close>) returns an option, and \<^const>\<open>None\<close> is the panic.
\<close>

type_synonym byte = "8 word"
type_synonym bytes = "byte list"
type_synonym u32 = "32 word"

named_theorems codec_simps \<open>encoders and decoders of the wire format\<close>
named_theorems ext_simps \<open>consequences of the laws of the external libraries\<close>

section \<open>Strings as byte slices\<close>

definition bytes_of :: "string \<Rightarrow> bytes" where
  "bytes_of s = map of_char s"

definition string_of :: "bytes \<Rightarrow> string" where
  "string_of bs = map (\<lambda>b. char_of (unat b)) bs"

definition ascii :: "string \<Rightarrow> bool" where
  "ascii s \<longleftrightarrow> list_all (\<lambda>c. (of_char c :: nat) < 128) s"

section \<open>Package encoding/hex\<close>

definition hex_digits :: string where
  "hex_digits = ''0123456789abcdef''"

definition hex_pair :: "byte \<Rightarrow> string" where
  "hex_pair b = [hex_digits ! (unat b div 16), hex_digits ! (unat b mod 16)]"

definition hex_EncodeToString :: "bytes \<Rightarrow> string" where
  "hex_EncodeToString bs = concat (map hex_pair bs)"

text \<open>Both cases are accepted on input, as \<open>hex.Decode\<close> does.\<close>

definition fromHexChar :: "char \<Rightarrow> nat option" where
  "fromHexChar c =
     (let n = of_char c :: nat in
      if 48 \<le> n \<and> n \<le> 57 then Some (n - 48)
      else if 97 \<le> n \<and> n \<le> 102 then Some (n - 87)
      else if 65 \<le> n \<and> n \<le> 70 then Some (n - 55)
      else None)"

text \<open>
  \<open>hex.DecodeString\<close> returns the bytes decoded before the first malformed pair together
  with an error; every caller in the program drops the error, so the model returns the
  bytes alone.
\<close>

fun hex_DecodeString :: "string \<Rightarrow> bytes" where
  "hex_DecodeString (a # b # s) =
     (case (fromHexChar a, fromHexChar b) of
        (Some h, Some l) \<Rightarrow> word_of_nat (16 * h + l) # hex_DecodeString s
      | _ \<Rightarrow> [])"
| "hex_DecodeString _ = []"

section \<open>Package strconv: Itoa on a non-negative number\<close>

definition digit_char :: "nat \<Rightarrow> char" where
  "digit_char d = char_of (48 + d)"

fun itoa :: "nat \<Rightarrow> string" where
  "itoa n = (if n < 10 then [digit_char n] else itoa (n div 10) @ [digit_char (n mod 10)])"

declare itoa.simps [simp del]

definition string_of_int :: "int \<Rightarrow> string" where
  "string_of_int i = (if i < 0 then CHR ''-'' # itoa (nat (- i)) else itoa (nat i))"

section \<open>Package bytes: Compare\<close>

fun bytes_less :: "bytes \<Rightarrow> bytes \<Rightarrow> bool" where
  "bytes_less [] ys = (ys \<noteq> [])"
| "bytes_less (x # xs) [] = False"
| "bytes_less (x # xs) (y # ys) = (x < y \<or> (x = y \<and> bytes_less xs ys))"

section \<open>Bounds-checked slices\<close>

definition slice_get :: "'a list \<Rightarrow> nat \<Rightarrow> 'a option" where
  "slice_get xs i = (if i < length xs then Some (xs ! i) else None)"

text \<open>The loop \<open>for i := 0; i < n; i++ { r = append(r, xs[i]) }\<close>.\<close>

definition copy_upto :: "nat \<Rightarrow> 'a list \<Rightarrow> 'a list option" where
  "copy_upto n xs = those (map (slice_get xs) [0..<n])"

definition swap :: "'a list \<Rightarrow> nat \<Rightarrow> nat \<Rightarrow> 'a list" where
  "swap xs i j = xs[i := xs ! j, j := xs ! i]"

text \<open>A loop over a slice whose body may panic.\<close>

primrec fold_opt :: "('s \<Rightarrow> 'a \<Rightarrow> 's option) \<Rightarrow> 's \<Rightarrow> 'a list \<Rightarrow> 's option" where
  "fold_opt f s [] = Some s"
| "fold_opt f s (x # xs) = (case f s x of None \<Rightarrow> None | Some s' \<Rightarrow> fold_opt f s' xs)"

section \<open>Lemmas on options and slices\<close>

lemma fold_opt_append:
  "fold_opt f s (xs @ ys) = (case fold_opt f s xs of None \<Rightarrow> None | Some s' \<Rightarrow> fold_opt f s' ys)"
  by (induction xs arbitrary: s) (simp_all split: option.split)

text \<open>
  A loop whose body keeps a relation to an abstract state does not panic, and it computes the
  abstract loop.
\<close>

lemma fold_opt_refine:
  assumes "R s a"
    and "\<And>s a x. x \<in> set xs \<Longrightarrow> R s a \<Longrightarrow> \<exists>s'. f s x = Some s' \<and> R s' (g a x)"
  shows "\<exists>s'. fold_opt f s xs = Some s' \<and> R s' (foldl g a xs)"
  using assms
proof (induction xs arbitrary: s a)
  case (Cons x xs)
  from Cons.prems(2) [of x s a] Cons.prems(1) obtain s1 where "f s x = Some s1" "R s1 (g a x)" by auto
  with Cons.IH [of s1 "g a x"] Cons.prems(2) show ?case by simp
qed simp

lemma slice_get_Some_iff [simp]:
  "slice_get xs i = Some x \<longleftrightarrow> i < length xs \<and> xs ! i = x"
  by (auto simp: slice_get_def)

lemma slice_get_None_iff [simp]: "slice_get xs i = None \<longleftrightarrow> length xs \<le> i"
  by (auto simp: slice_get_def)

lemma those_append:
  "those (xs @ ys) = (case those xs of None \<Rightarrow> None | Some as \<Rightarrow> map_option ((@) as) (those ys))"
proof (induction xs)
  case Nil
  then show ?case by (cases "those ys") simp_all
next
  case (Cons x xs)
  then show ?case by (cases "those ys") (auto split: option.splits)
qed

lemma copy_upto_take: "copy_upto n xs = (if n \<le> length xs then Some (take n xs) else None)"
proof (induction n)
  case 0
  then show ?case by (simp add: copy_upto_def)
next
  case (Suc n)
  then show ?case
    by (auto simp: copy_upto_def those_append slice_get_def take_Suc_conv_app_nth)
qed

lemma copy_upto_all [simp]: "n = length xs \<Longrightarrow> copy_upto n xs = Some xs"
  by (simp add: copy_upto_take)

lemma length_swap [simp]: "length (swap xs i j) = length xs"
  by (simp add: swap_def)

lemma swap_nth:
  "i < length xs \<Longrightarrow> j < length xs \<Longrightarrow> k < length xs \<Longrightarrow>
   swap xs i j ! k = (if k = i then xs ! j else if k = j then xs ! i else xs ! k)"
  by (auto simp: swap_def nth_list_update)

lemma mset_swap_eq [simp]:
  "i < length xs \<Longrightarrow> j < length xs \<Longrightarrow> mset (swap xs i j) = mset xs"
  by (simp add: swap_def mset_swap)

lemma set_swap_eq [simp]:
  "i < length xs \<Longrightarrow> j < length xs \<Longrightarrow> set (swap xs i j) = set xs"
  by (metis mset_swap_eq set_mset_mset)

section \<open>Lemmas on words\<close>

lemma u32_of_nat_less: "n < 2 ^ 32 \<Longrightarrow> unat (word_of_nat n :: u32) = n"
  by (simp add: unat_of_nat take_bit_nat_eq_self)

lemma u32_add_no_wrap: "unat a + unat b < 2 ^ 32 \<Longrightarrow> unat (a + b :: u32) = unat a + unat b"
  by (simp add: unat_word_ariths)

lemma u32_bound: "unat (w :: u32) < 2 ^ 32"
  using unsigned_less [of w] by simp

lemma u32_Suc_less: "i < limit \<Longrightarrow> unat (i + 1 :: u32) = unat i + 1"
  using u32_add_no_wrap [of i 1] u32_bound [of limit] by (simp add: word_less_nat_alt)

lemma u32_sub_no_wrap: "b \<le> a \<Longrightarrow> unat (a - b :: u32) = unat a - unat b"
  by (simp add: unat_sub)

lemma u32_inc: "x < 4294967295 \<Longrightarrow> unat (x + 1 :: u32) = unat x + 1"
  using u32_add_no_wrap [of x 1] by (simp add: word_less_nat_alt)

section \<open>Lemmas on the string conversions\<close>

lemma unat_byte_less: "unat (b :: byte) < 256"
  using unsigned_less [of b] by simp

lemma unat_of_char_byte [simp]: "unat (of_char c :: byte) = of_char c"
proof -
  have "(of_char c :: byte) = word_of_nat (of_char c)"
    by (simp add: of_nat_of_char)
  moreover have "(of_char c :: nat) < 2 ^ 8"
    using nat_of_char_less_256 [of c] by simp
  ultimately show ?thesis
    by (simp only: unat_of_nat take_bit_nat_eq_self len_num0 len_num1 len_bit0) simp
qed

lemma of_char_byte_inj [simp]: "(of_char c :: byte) = of_char d \<longleftrightarrow> c = d"
  by (metis unat_of_char_byte of_char_eq_iff)

lemma bytes_of_inj [simp]: "bytes_of s = bytes_of t \<longleftrightarrow> s = t"
proof -
  have "inj (of_char :: char \<Rightarrow> byte)" by (simp add: inj_def)
  then show ?thesis by (simp add: bytes_of_def inj_map_eq_map)
qed

lemma string_of_bytes_of [simp]: "string_of (bytes_of s) = s"
  by (simp add: string_of_def bytes_of_def comp_def)

lemma hex_digit_decode: "n < 16 \<Longrightarrow> fromHexChar (hex_digits ! n) = Some n"
proof -
  assume "n < 16"
  then have "n \<in> {0, 1, 2, 3, 4, 5, 6, 7, 8, 9, 10, 11, 12, 13, 14, 15}" by (simp, arith)
  then show ?thesis by (auto simp: fromHexChar_def hex_digits_def)
qed

lemma hex_decode_encode [simp]: "hex_DecodeString (hex_EncodeToString bs) = bs"
proof (induction bs)
  case Nil
  then show ?case by (simp add: hex_EncodeToString_def)
next
  case (Cons b bs)
  have "unat b < 256" by (rule unat_byte_less)
  then have "unat b div 16 < 16" and "unat b mod 16 < 16" by auto
  then have "fromHexChar (hex_digits ! (unat b div 16)) = Some (unat b div 16)"
    and "fromHexChar (hex_digits ! (unat b mod 16)) = Some (unat b mod 16)"
    by (simp_all add: hex_digit_decode)
  moreover have "(word_of_nat (16 * (unat b div 16) + unat b mod 16) :: byte) = b"
    by simp
  ultimately show ?case
    using Cons by (simp add: hex_EncodeToString_def hex_pair_def del: of_nat_add of_nat_mult)
qed

lemma hex_encode_inj [simp]: "hex_EncodeToString xs = hex_EncodeToString ys \<longleftrightarrow> xs = ys"
  by (metis hex_decode_encode)

lemma length_hex_encode [simp]: "length (hex_EncodeToString bs) = 2 * length bs"
  by (induction bs) (simp_all add: hex_EncodeToString_def hex_pair_def)

lemma hex_encode_ascii: "ascii (hex_EncodeToString bs)"
proof -
  have d: "list_all (\<lambda>c. (of_char c :: nat) < 128) hex_digits" by (simp add: hex_digits_def)
  have l: "length hex_digits = 16" by (simp add: hex_digits_def)
  have "(of_char (hex_digits ! (unat b div 16)) :: nat) < 128 \<and>
        (of_char (hex_digits ! (unat b mod 16)) :: nat) < 128" for b :: byte
  proof -
    have "unat b < 256" by (rule unat_byte_less)
    then show ?thesis using d l by (auto simp: list_all_length)
  qed
  then show ?thesis
    by (auto simp: ascii_def hex_EncodeToString_def hex_pair_def list_all_iff)
qed

subsection \<open>Decimal numbers\<close>

lemma of_digit_char: "d < 10 \<Longrightarrow> of_char (digit_char d) = 48 + d"
  by (simp add: digit_char_def take_bit_nat_eq_self)

lemma digit_char_inj: "a < 10 \<Longrightarrow> b < 10 \<Longrightarrow> digit_char a = digit_char b \<Longrightarrow> a = b"
  by (metis of_digit_char add_left_cancel)

lemma itoa_not_Nil [simp]: "itoa n \<noteq> []"
  by (subst itoa.simps) simp

lemma itoa_inj: "itoa m = itoa n \<Longrightarrow> m = n"
proof (induction m arbitrary: n rule: itoa.induct)
  case (1 m)
  show ?case
  proof (cases "m < 10")
    case True
    with "1.prems" have "n < 10"
      by (cases "n < 10") (auto simp: itoa.simps [of m] itoa.simps [of n] Cons_eq_append_conv)
    with True "1.prems" show ?thesis
      by (auto simp: itoa.simps [of m] itoa.simps [of n] intro: digit_char_inj)
  next
    case False
    with "1.prems" have n: "\<not> n < 10"
      by (cases "n < 10") (auto simp: itoa.simps [of m] itoa.simps [of n] append_eq_Cons_conv)
    with False "1.prems" have "itoa (m div 10) = itoa (n div 10)"
      and "digit_char (m mod 10) = digit_char (n mod 10)"
      by (simp_all add: itoa.simps [of m] itoa.simps [of n])
    then have "m div 10 = n div 10" and "m mod 10 = n mod 10"
      using "1.IH" [OF False] by (auto intro: digit_char_inj)
    then show ?thesis by (metis div_mult_mod_eq)
  qed
qed

lemma itoa_no_underscore: "CHR ''_'' \<notin> set (itoa n)"
proof (induction n rule: itoa.induct)
  case (1 n)
  have d: "digit_char k \<noteq> CHR ''_''" if "k < 10" for k
    using of_digit_char [OF that] that by (auto dest: arg_cong [of _ _ "of_char :: char \<Rightarrow> nat"])
  show ?case
    using "1.IH" d by (subst itoa.simps) (auto simp: eq_commute [of "CHR ''_''"])
qed

lemma ascii_append [simp]: "ascii (s @ t) \<longleftrightarrow> ascii s \<and> ascii t"
  by (simp add: ascii_def)

lemma ascii_Nil [simp]: "ascii []"
  by (simp add: ascii_def)

lemma ascii_Cons [simp]: "ascii (c # s) \<longleftrightarrow> (of_char c :: nat) < 128 \<and> ascii s"
  by (simp add: ascii_def)

lemma ascii_itoa [simp]: "ascii (itoa n)"
proof (induction n rule: itoa.induct)
  case (1 n)
  have "ascii [digit_char k]" if "k < 10" for k
    using of_digit_char [OF that] that by (simp add: ascii_def)
  then show ?case using 1 by (subst itoa.simps) simp
qed

lemma split_at_first:
  "x \<notin> set as \<Longrightarrow> x \<notin> set bs \<Longrightarrow> as @ x # us = bs @ x # vs \<Longrightarrow> as = bs \<and> us = vs"
proof (induction as arbitrary: bs)
  case Nil
  then show ?case by (cases bs) auto
next
  case (Cons a as)
  then show ?case by (cases bs) auto
qed

text \<open>File names \<open>dir/name_number.ext\<close> determine the name and the number.\<close>

lemma split_at_last_underscore:
  assumes "xs @ ''_'' @ itoa m = ys @ ''_'' @ itoa n"
  shows "xs = ys \<and> m = n"
proof -
  have "rev (itoa m) @ CHR ''_'' # rev xs = rev (itoa n) @ CHR ''_'' # rev ys"
    using arg_cong [OF assms, of rev] by simp
  then have "rev (itoa m) = rev (itoa n) \<and> rev xs = rev ys"
    by (intro split_at_first) (simp_all add: itoa_no_underscore)
  then show ?thesis by (auto intro: itoa_inj)
qed

section \<open>Lemmas on byte comparison\<close>

lemma bytes_less_irrefl [simp]: "\<not> bytes_less xs xs"
  by (induction xs) auto

lemma bytes_less_trans: "bytes_less xs ys \<Longrightarrow> bytes_less ys zs \<Longrightarrow> bytes_less xs zs"
proof (induction xs zs arbitrary: ys rule: bytes_less.induct)
  case (1 zs)
  then show ?case by (cases ys; cases zs) auto
next
  case (2 x xs)
  then show ?case by (cases ys) auto
next
  case (3 x xs z zs)
  then show ?case by (cases ys) (auto dest: less_trans)
qed

end
