(* ===== verification/Coin_Proto.thy ===== *)
theory Coin_Proto
  imports Coin_Prelude
begin

text \<open>
  The protobuf messages of \<open>src/pkg/pro\<close> and the libraries outside the repository.

  A message is a record with the fields of its struct in \<open>coin.pb.go\<close>; a field that
  is a pointer to a message is an option (\<open>nil\<close> is \<^const>\<open>None\<close>). The generated
  getters return the zero value on a nil receiver: \<open>nil_default\<close> models that.

  The record \<open>ext\<close> collects the code the repository only calls: \<open>proto.Marshal\<close>
  and \<open>proto.Unmarshal\<close> for the messages that are stored or hashed, \<open>sha256\<close>, and
  the operations of a levelDB. Each definition that uses such code takes an \<open>ext\<close> as an
  argument. What the program relies on is stated as the named predicates \<open>leveldb_laws\<close>,
  \<open>proto_laws\<close>, \<open>script_laws\<close> and \<open>x509_laws\<close>, which are hypotheses of the theorems
  that need them. Where the library draws random bits (key generation, signing) the bits
  are an argument.
\<close>

section \<open>Messages\<close>

record pro_Header =
  ph_Version :: u32
  ph_PreviousHash :: string
  ph_MerkleRoot :: string
  ph_DifficultyTarget :: string
  ph_Nonce :: u32
  ph_Timestamp :: u32

record pro_TransactionInput =
  pi_ReferenceTransactionHash :: string
  pi_OutputIndex :: u32
  pi_UnlockingScript :: bytes

record pro_TransactionOutput =
  po_Amount :: u32
  po_LockingScript :: bytes

record pro_Transaction =
  pt_Segwit :: bool
  pt_Version :: u32
  pt_Inputs :: "pro_TransactionInput list"
  pt_Outputs :: "pro_TransactionOutput list"
  pt_Witnesses :: "bytes list"
  pt_LockTime :: u32

record pro_Block =
  pb_Header :: "pro_Header option"
  pb_Transactions :: "pro_Transaction list"

record pro_BlockRecord =
  pbr_Header :: "pro_Header option"
  pbr_Height :: u32
  pbr_NumberOfTransactions :: u32
  pbr_BlockFile :: string
  pbr_BlockStartOffset :: u32
  pbr_BlockEndOffset :: u32
  pbr_UndoFile :: string
  pbr_UndoStartOffset :: u32
  pbr_UndoEndOffset :: u32

record pro_CoinRecord =
  pcr_Version :: u32
  pcr_OutputIndexes :: "u32 list"
  pcr_Amounts :: "u32 list"
  pcr_LockingScripts :: "bytes list"

record pro_UndoBlock =
  pub_TransactionInputHashes :: "string list"
  pub_OutputIndexes :: "u32 list"
  pub_Amounts :: "u32 list"
  pub_LockingScripts :: "bytes list"

text \<open>Enum \<open>ScriptType\<close>: proto3 enums are open, so any number may arrive.\<close>

type_synonym ScriptType = int

definition ScriptType_P2PK :: ScriptType where "ScriptType_P2PK = 0"
definition ScriptType_MULTI :: ScriptType where "ScriptType_MULTI = 1"
definition ScriptType_HTLC :: ScriptType where "ScriptType_HTLC = 2"

record pro_PayToPublicKey =
  p2pk_ScriptType :: ScriptType
  p2pk_PublicKey :: bytes

record pro_MultiParty =
  pmp_ScriptType :: ScriptType
  pmp_MyPublicKey :: bytes
  pmp_TheirPublicKey :: bytes
  pmp_RevocationKey :: bytes
  pmp_AdditionalBlocks :: u32

record pro_HashedTimeLock =
  phl_ScriptType :: ScriptType
  phl_MyPublicKey :: bytes
  phl_TheirPublicKey :: bytes
  phl_RevocationKey :: bytes
  phl_HashLock :: string
  phl_AdditionalBlocks :: u32
  phl_Fee :: u32

record pro_TransactionWithAddress =
  pta_Transaction :: "pro_Transaction option"
  pta_Address :: string

record pro_SignedTransactionWithKey =
  psk_SignedTransaction :: "pro_Transaction option"
  psk_RevocationKey :: bytes
  psk_Address :: string

record pro_UpdatedTransactions =
  put_SignedTransaction :: "pro_Transaction option"
  put_UnsignedTransaction :: "pro_Transaction option"

record pro_OpenChannelRequest =
  pocq_Address :: string
  pocq_PublicKey :: bytes
  pocq_FundingTransaction :: "pro_Transaction option"
  pocq_RefundTransaction :: "pro_Transaction option"

record pro_OpenChannelResponse =
  pocr_PublicKey :: bytes
  pocr_SignedFundingTransaction :: "pro_Transaction option"
  pocr_SignedRefundTransaction :: "pro_Transaction option"

subsection \<open>Zero values: what the getters return on a nil message\<close>

definition nil_default :: "'a \<Rightarrow> 'a option \<Rightarrow> 'a" where
  "nil_default z p = (case p of None \<Rightarrow> z | Some x \<Rightarrow> x)"

definition zero_Header :: pro_Header where
  "zero_Header = \<lparr>ph_Version = 0, ph_PreviousHash = '''', ph_MerkleRoot = '''',
     ph_DifficultyTarget = '''', ph_Nonce = 0, ph_Timestamp = 0\<rparr>"

definition zero_Transaction :: pro_Transaction where
  "zero_Transaction = \<lparr>pt_Segwit = False, pt_Version = 0, pt_Inputs = [], pt_Outputs = [],
     pt_Witnesses = [], pt_LockTime = 0\<rparr>"

definition zero_BlockRecord :: pro_BlockRecord where
  "zero_BlockRecord = \<lparr>pbr_Header = None, pbr_Height = 0, pbr_NumberOfTransactions = 0,
     pbr_BlockFile = '''', pbr_BlockStartOffset = 0, pbr_BlockEndOffset = 0,
     pbr_UndoFile = '''', pbr_UndoStartOffset = 0, pbr_UndoEndOffset = 0\<rparr>"

definition zero_CoinRecord :: pro_CoinRecord where
  "zero_CoinRecord = \<lparr>pcr_Version = 0, pcr_OutputIndexes = [], pcr_Amounts = [],
     pcr_LockingScripts = []\<rparr>"

definition zero_UndoBlock :: pro_UndoBlock where
  "zero_UndoBlock = \<lparr>pub_TransactionInputHashes = [], pub_OutputIndexes = [], pub_Amounts = [],
     pub_LockingScripts = []\<rparr>"

section \<open>Sizes (\<open>constructors.go\<close>)\<close>

text \<open>
  \<open>unsafe.Sizeof\<close> is the size of the field itself on a 64-bit machine: 16 bytes for a
  string header, 24 for a slice header, 4 for a \<open>uint32\<close>. It does not depend on the
  contents.
\<close>

definition sizeof_string :: u32 where "sizeof_string = 16"
definition sizeof_slice :: u32 where "sizeof_slice = 24"
definition sizeof_uint32 :: u32 where "sizeof_uint32 = 4"

definition SizeOfTransaction :: "pro_Transaction \<Rightarrow> u32" where
  "SizeOfTransaction t =
     (let sz = foldl (\<lambda>sz txi. sz + sizeof_string + sizeof_slice + sizeof_uint32) 0 (pt_Inputs t);
          sz = foldl (\<lambda>sz txo. sz + sizeof_uint32 + sizeof_slice) sz (pt_Outputs t)
      in sz + sizeof_uint32 + sizeof_uint32)"

definition SizeOfHeader :: "pro_Header \<Rightarrow> u32" where
  "SizeOfHeader h = sizeof_string + sizeof_uint32 + sizeof_string + sizeof_uint32 + sizeof_uint32"

text \<open>\<open>h.PreviousHash\<close> dereferences the header: a nil header panics.\<close>

definition SizeOfBlock :: "pro_Block \<Rightarrow> u32 option" where
  "SizeOfBlock b =
     (let sz = foldl (\<lambda>sz t. sz + SizeOfTransaction t) 0 (pb_Transactions b)
      in case pb_Header b of None \<Rightarrow> None | Some h \<Rightarrow> Some (sz + SizeOfHeader h))"

definition NewTransaction ::
  "u32 \<Rightarrow> pro_TransactionInput list \<Rightarrow> pro_TransactionOutput list \<Rightarrow> u32 \<Rightarrow> pro_Transaction" where
  "NewTransaction version inputs outputs lockTime =
     zero_Transaction\<lparr>pt_Version := version, pt_Inputs := inputs, pt_Outputs := outputs,
       pt_LockTime := lockTime\<rparr>"

definition NewTransactionInput :: "string \<Rightarrow> u32 \<Rightarrow> bytes \<Rightarrow> pro_TransactionInput" where
  "NewTransactionInput hash outputIndex unlockingScript =
     \<lparr>pi_ReferenceTransactionHash = hash, pi_OutputIndex = outputIndex,
      pi_UnlockingScript = unlockingScript\<rparr>"

definition NewTransactionOutput :: "u32 \<Rightarrow> bytes \<Rightarrow> pro_TransactionOutput" where
  "NewTransactionOutput amount lockingScript =
     \<lparr>po_Amount = amount, po_LockingScript = lockingScript\<rparr>"

section \<open>External libraries\<close>

text \<open>
  \<open>proto.Marshal\<close> returns bytes and whether the error is nil; \<open>proto.Unmarshal\<close> fills
  a fresh message and returns it as it is left, with whether the error is nil. A levelDB
  write reports its error only to the debug log, so a write is the database after the call.
\<close>

record PublicKey =
  pk_X :: int
  pk_Y :: int

record PrivateKey =
  sk_PublicKey :: PublicKey
  sk_D :: int

text \<open>
  \<open>x509.ParsePKIXPublicKey\<close> returns a key of any supported algorithm; the program asserts that
  it is an ECDSA key.
\<close>

datatype pkix_key = ECDSA_PublicKey PublicKey | Other_PublicKey bytes

record 'db ext =
  sha256 :: "bytes \<Rightarrow> bytes"
  marshal_Header :: "pro_Header \<Rightarrow> bytes \<times> bool"
  marshal_Transaction :: "pro_Transaction \<Rightarrow> bytes \<times> bool"
  marshal_TransactionOutput :: "pro_TransactionOutput \<Rightarrow> bytes \<times> bool"
  marshal_Block :: "pro_Block \<Rightarrow> bytes \<times> bool"
  marshal_UndoBlock :: "pro_UndoBlock \<Rightarrow> bytes \<times> bool"
  marshal_BlockRecord :: "pro_BlockRecord \<Rightarrow> bytes \<times> bool"
  marshal_CoinRecord :: "pro_CoinRecord \<Rightarrow> bytes \<times> bool"
  marshal_PayToPublicKey :: "pro_PayToPublicKey \<Rightarrow> bytes \<times> bool"
  marshal_MultiParty :: "pro_MultiParty \<Rightarrow> bytes \<times> bool"
  unmarshal_Block :: "bytes \<Rightarrow> pro_Block \<times> bool"
  unmarshal_UndoBlock :: "bytes \<Rightarrow> pro_UndoBlock \<times> bool"
  unmarshal_BlockRecord :: "bytes \<Rightarrow> pro_BlockRecord \<times> bool"
  unmarshal_CoinRecord :: "bytes \<Rightarrow> pro_CoinRecord \<times> bool"
  unmarshal_PayToPublicKey :: "bytes \<Rightarrow> pro_PayToPublicKey \<times> bool"
  unmarshal_MultiParty :: "bytes \<Rightarrow> pro_MultiParty \<times> bool"
  unmarshal_HashedTimeLock :: "bytes \<Rightarrow> pro_HashedTimeLock \<times> bool"
  leveldb_empty :: 'db
  leveldb_Get :: "'db \<Rightarrow> bytes \<Rightarrow> bytes option"
  leveldb_Put :: "'db \<Rightarrow> bytes \<Rightarrow> bytes \<Rightarrow> 'db"
  leveldb_Delete :: "'db \<Rightarrow> bytes \<Rightarrow> 'db"
  leveldb_entries :: "'db \<Rightarrow> (bytes \<times> bytes) list"
  ecdsa_GenerateKey :: "nat \<Rightarrow> PrivateKey option"
  ecdsa_SignASN1 :: "nat \<Rightarrow> PrivateKey \<Rightarrow> bytes \<Rightarrow> bytes option"
  ecdsa_VerifyASN1 :: "PublicKey \<Rightarrow> bytes \<Rightarrow> bytes \<Rightarrow> bool"
  x509_MarshalPKIXPublicKey :: "PublicKey \<Rightarrow> bytes option"
  x509_ParsePKIXPublicKey :: "bytes \<Rightarrow> pkix_key option"
  x509_MarshalECPrivateKey :: "PrivateKey \<Rightarrow> bytes option"
  x509_ParseECPrivateKey :: "bytes \<Rightarrow> PrivateKey option"

subsection \<open>What the program relies on\<close>

text \<open>
  A levelDB is a persistent map: a read returns what was last written under the key, a
  deleted key is absent, and an iterator visits every entry once.
\<close>

definition leveldb_laws :: "('db, 'z) ext_scheme \<Rightarrow> bool" where
  "leveldb_laws E \<longleftrightarrow>
     (\<forall>k. leveldb_Get E (leveldb_empty E) k = None) \<and>
     (\<forall>d k v k'. leveldb_Get E (leveldb_Put E d k v) k' =
                   (if k' = k then Some v else leveldb_Get E d k')) \<and>
     (\<forall>d k k'. leveldb_Get E (leveldb_Delete E d k) k' =
                 (if k' = k then None else leveldb_Get E d k')) \<and>
     (\<forall>d. distinct (map fst (leveldb_entries E d)) \<and>
          map_of (leveldb_entries E d) = leveldb_Get E d)"

text \<open>
  Protobuf strings must be valid UTF-8; the program's strings are hexadecimal hashes, file
  names and difficulty targets, which are ASCII. On such messages \<open>Unmarshal\<close> inverts
  \<open>Marshal\<close>, and the empty byte slice is the empty message.
\<close>

definition ascii_Header :: "pro_Header \<Rightarrow> bool" where
  "ascii_Header h \<longleftrightarrow>
     ascii (ph_PreviousHash h) \<and> ascii (ph_MerkleRoot h) \<and> ascii (ph_DifficultyTarget h)"

definition ascii_Transaction :: "pro_Transaction \<Rightarrow> bool" where
  "ascii_Transaction t \<longleftrightarrow> list_all (\<lambda>i. ascii (pi_ReferenceTransactionHash i)) (pt_Inputs t)"

definition ascii_Block :: "pro_Block \<Rightarrow> bool" where
  "ascii_Block b \<longleftrightarrow>
     (case pb_Header b of None \<Rightarrow> True | Some h \<Rightarrow> ascii_Header h) \<and>
     list_all ascii_Transaction (pb_Transactions b)"

definition ascii_BlockRecord :: "pro_BlockRecord \<Rightarrow> bool" where
  "ascii_BlockRecord r \<longleftrightarrow>
     (case pbr_Header r of None \<Rightarrow> True | Some h \<Rightarrow> ascii_Header h) \<and>
     ascii (pbr_BlockFile r) \<and> ascii (pbr_UndoFile r)"

definition ascii_UndoBlock :: "pro_UndoBlock \<Rightarrow> bool" where
  "ascii_UndoBlock u \<longleftrightarrow> list_all ascii (pub_TransactionInputHashes u)"

definition proto_laws :: "('db, 'z) ext_scheme \<Rightarrow> bool" where
  "proto_laws E \<longleftrightarrow>
     (\<forall>m. ascii_Block m \<longrightarrow> unmarshal_Block E (fst (marshal_Block E m)) = (m, True)) \<and>
     (\<forall>m. ascii_UndoBlock m \<longrightarrow> unmarshal_UndoBlock E (fst (marshal_UndoBlock E m)) = (m, True)) \<and>
     (\<forall>m. ascii_BlockRecord m \<longrightarrow>
        unmarshal_BlockRecord E (fst (marshal_BlockRecord E m)) = (m, True)) \<and>
     (\<forall>m. unmarshal_CoinRecord E (fst (marshal_CoinRecord E m)) = (m, True)) \<and>
     (\<forall>m. unmarshal_PayToPublicKey E (fst (marshal_PayToPublicKey E m)) = (m, True)) \<and>
     (\<forall>m. unmarshal_MultiParty E (fst (marshal_MultiParty E m)) = (m, True)) \<and>
     unmarshal_BlockRecord E [] = (zero_BlockRecord, True) \<and>
     unmarshal_CoinRecord E [] = (zero_CoinRecord, True)"

text \<open>
  Protobuf skips unknown fields, and the script messages share their first two field numbers: a
  multi-party script read as a pay-to-public-key script gives its type and its first key.
\<close>

definition script_laws :: "('db, 'z) ext_scheme \<Rightarrow> bool" where
  "script_laws E \<longleftrightarrow>
     (\<forall>m. unmarshal_PayToPublicKey E (fst (marshal_MultiParty E m)) =
        (\<lparr>p2pk_ScriptType = pmp_ScriptType m, p2pk_PublicKey = pmp_MyPublicKey m\<rparr>, True)) \<and>
     (\<forall>m. snd (marshal_MultiParty E m)) \<and> (\<forall>m. snd (marshal_PayToPublicKey E m))"

text \<open>SHA-256 returns 32 bytes.\<close>

definition sha256_length :: "('db, 'z) ext_scheme \<Rightarrow> bool" where
  "sha256_length E \<longleftrightarrow> (\<forall>bs. length (sha256 E bs) = 32)"

text \<open>Parsing the DER form of a key gives the key back.\<close>

definition x509_laws :: "('db, 'z) ext_scheme \<Rightarrow> bool" where
  "x509_laws E \<longleftrightarrow>
     (\<forall>k b. x509_MarshalECPrivateKey E k = Some b \<longrightarrow> x509_ParseECPrivateKey E b = Some k) \<and>
     (\<forall>k b. x509_MarshalPKIXPublicKey E k = Some b \<longrightarrow> x509_ParsePKIXPublicKey E b = Some (ECDSA_PublicKey k))"

section \<open>Consequences of the laws\<close>

lemma nil_default_simps [simp]:
  "nil_default z None = z"
  "nil_default z (Some x) = x"
  by (simp_all add: nil_default_def)

lemma leveldb_Get_empty: "leveldb_laws E \<Longrightarrow> leveldb_Get E (leveldb_empty E) k = None"
  by (simp add: leveldb_laws_def)

lemma leveldb_Get_Put:
  "leveldb_laws E \<Longrightarrow>
   leveldb_Get E (leveldb_Put E d k v) k' = (if k' = k then Some v else leveldb_Get E d k')"
  by (simp add: leveldb_laws_def)

lemma leveldb_Get_Delete:
  "leveldb_laws E \<Longrightarrow>
   leveldb_Get E (leveldb_Delete E d k) k' = (if k' = k then None else leveldb_Get E d k')"
  by (simp add: leveldb_laws_def)

lemma leveldb_entries_map:
  "leveldb_laws E \<Longrightarrow>
   distinct (map fst (leveldb_entries E d)) \<and> map_of (leveldb_entries E d) = leveldb_Get E d"
  by (simp add: leveldb_laws_def)

lemmas leveldb_simps = leveldb_Get_empty leveldb_Get_Put leveldb_Get_Delete

lemma unmarshal_marshal_Block:
  "proto_laws E \<Longrightarrow> ascii_Block m \<Longrightarrow> unmarshal_Block E (fst (marshal_Block E m)) = (m, True)"
  by (simp add: proto_laws_def)

lemma unmarshal_marshal_UndoBlock:
  "proto_laws E \<Longrightarrow> ascii_UndoBlock m \<Longrightarrow>
   unmarshal_UndoBlock E (fst (marshal_UndoBlock E m)) = (m, True)"
  by (simp add: proto_laws_def)

lemma unmarshal_marshal_BlockRecord:
  "proto_laws E \<Longrightarrow> ascii_BlockRecord m \<Longrightarrow>
   unmarshal_BlockRecord E (fst (marshal_BlockRecord E m)) = (m, True)"
  by (simp add: proto_laws_def)

lemma unmarshal_marshal_CoinRecord:
  "proto_laws E \<Longrightarrow> unmarshal_CoinRecord E (fst (marshal_CoinRecord E m)) = (m, True)"
  by (simp add: proto_laws_def)

lemma unmarshal_marshal_PayToPublicKey:
  "proto_laws E \<Longrightarrow> unmarshal_PayToPublicKey E (fst (marshal_PayToPublicKey E m)) = (m, True)"
  by (simp add: proto_laws_def)

lemma unmarshal_marshal_MultiParty:
  "proto_laws E \<Longrightarrow> unmarshal_MultiParty E (fst (marshal_MultiParty E m)) = (m, True)"
  by (simp add: proto_laws_def)

lemma unmarshal_Nil_BlockRecord:
  "proto_laws E \<Longrightarrow> unmarshal_BlockRecord E [] = (zero_BlockRecord, True)"
  by (simp add: proto_laws_def)

lemma unmarshal_Nil_CoinRecord:
  "proto_laws E \<Longrightarrow> unmarshal_CoinRecord E [] = (zero_CoinRecord, True)"
  by (simp add: proto_laws_def)

lemmas unmarshal_marshal =
  unmarshal_marshal_Block unmarshal_marshal_UndoBlock unmarshal_marshal_BlockRecord
  unmarshal_marshal_CoinRecord unmarshal_marshal_PayToPublicKey unmarshal_marshal_MultiParty

section \<open>The size of a transaction\<close>

lemma foldl_add_const: "foldl (\<lambda>s _. s + c) a xs = a + of_nat (length xs) * (c :: u32)"
  by (induction xs arbitrary: a) (simp_all add: algebra_simps)

lemma SizeOfTransaction_eq:
  "SizeOfTransaction t = 8 + 44 * of_nat (length (pt_Inputs t)) + 28 * of_nat (length (pt_Outputs t))"
  using foldl_add_const [of "44 :: u32" 0 "pt_Inputs t"]
    foldl_add_const [of "28 :: u32" "of_nat (length (pt_Inputs t)) * 44" "pt_Outputs t"]
  by (simp add: SizeOfTransaction_def Let_def sizeof_string_def sizeof_slice_def
      sizeof_uint32_def add.assoc)

end
