(* ===== verification/Ext_Instance.thy ===== *)
theory Ext_Instance
  imports Coin_Proto "HOL-Library.AList"
begin

text \<open>
  A concrete instance \<open>ref_ext\<close> of the external libraries that satisfies the laws of
  \<open>Coin_Proto\<close>: a self-delimiting serialisation of the messages, an association list as the
  key-value store, and the identity as a hash without collisions. It shows that the
  hypotheses of the theorems can hold together; the instances of the theorems use it.
\<close>

section \<open>Self-delimiting codes\<close>

type_synonym 'a parser = "bytes \<Rightarrow> ('a \<times> bytes) option"

fun enc_digits :: "nat \<Rightarrow> nat \<Rightarrow> bytes" where
  "enc_digits 0 n = []"
| "enc_digits (Suc k) n = word_of_nat (n mod 256) # enc_digits k (n div 256)"

fun dec_digits :: "nat \<Rightarrow> nat parser" where
  "dec_digits 0 bs = Some (0, bs)"
| "dec_digits (Suc k) [] = None"
| "dec_digits (Suc k) (b # bs) =
     (case dec_digits k bs of None \<Rightarrow> None | Some (n, r) \<Rightarrow> Some (unat b + 256 * n, r))"

definition enc_u32 :: "u32 \<Rightarrow> bytes" where "enc_u32 w = enc_digits 4 (unat w)"

definition dec_u32 :: "u32 parser" where
  "dec_u32 bs = map_option (\<lambda>(n, r). (word_of_nat n, r)) (dec_digits 4 bs)"

fun enc_unary :: "nat \<Rightarrow> bytes" where
  "enc_unary 0 = [0]"
| "enc_unary (Suc n) = 1 # enc_unary n"

fun dec_unary :: "nat parser" where
  "dec_unary [] = None"
| "dec_unary (b # bs) =
     (if b = 0 then Some (0, bs) else map_option (\<lambda>(n, r). (Suc n, r)) (dec_unary bs))"

fun dec_many :: "'a parser \<Rightarrow> nat \<Rightarrow> 'a list parser" where
  "dec_many d 0 bs = Some ([], bs)"
| "dec_many d (Suc n) bs =
     (case d bs of None \<Rightarrow> None
      | Some (x, r) \<Rightarrow> map_option (\<lambda>(xs, r). (x # xs, r)) (dec_many d n r))"

definition enc_list :: "('a \<Rightarrow> bytes) \<Rightarrow> 'a list \<Rightarrow> bytes" where
  "enc_list e xs = enc_unary (length xs) @ concat (map e xs)"

definition dec_list :: "'a parser \<Rightarrow> 'a list parser" where
  "dec_list d bs = (case dec_unary bs of None \<Rightarrow> None | Some (n, r) \<Rightarrow> dec_many d n r)"

definition enc_byte :: "byte \<Rightarrow> bytes" where "enc_byte b = [b]"
fun dec_byte :: "byte parser" where
  "dec_byte [] = None"
| "dec_byte (b # bs) = Some (b, bs)"

definition enc_bool :: "bool \<Rightarrow> bytes" where "enc_bool b = [if b then 1 else 0]"
definition dec_bool :: "bool parser" where
  "dec_bool bs = map_option (\<lambda>(b, r). (b = 1, r)) (dec_byte bs)"

definition enc_bytes :: "bytes \<Rightarrow> bytes" where "enc_bytes = enc_list enc_byte"
definition dec_bytes :: "bytes parser" where "dec_bytes = dec_list dec_byte"

definition enc_string :: "string \<Rightarrow> bytes" where "enc_string s = enc_bytes (bytes_of s)"
definition dec_string :: "string parser" where
  "dec_string bs = map_option (\<lambda>(b, r). (string_of b, r)) (dec_bytes bs)"

definition enc_opt :: "('a \<Rightarrow> bytes) \<Rightarrow> 'a option \<Rightarrow> bytes" where
  "enc_opt e x = (case x of None \<Rightarrow> [0] | Some y \<Rightarrow> 1 # e y)"
definition dec_opt :: "'a parser \<Rightarrow> 'a option parser" where
  "dec_opt d bs =
     (case bs of [] \<Rightarrow> None
      | b # r \<Rightarrow> if b = 0 then Some (None, r) else map_option (\<lambda>(x, r). (Some x, r)) (d r))"

definition enc_int :: "int \<Rightarrow> bytes" where
  "enc_int i = enc_bool (i < 0) @ enc_unary (nat \<bar>i\<bar>)"
definition dec_int :: "int parser" where
  "dec_int bs =
     (case dec_bool bs of None \<Rightarrow> None
      | Some (s, r) \<Rightarrow> map_option (\<lambda>(n, r). ((if s then - int n else int n), r)) (dec_unary r))"

definition self_delim :: "('a \<Rightarrow> bytes) \<Rightarrow> 'a parser \<Rightarrow> bool" where
  "self_delim e d \<longleftrightarrow> (\<forall>x r. d (e x @ r) = Some (x, r))"

lemma self_delimD: "self_delim e d \<Longrightarrow> d (e x @ r) = Some (x, r)"
  by (simp add: self_delim_def)

lemma dec_digits_enc: "n < 256 ^ k \<Longrightarrow> dec_digits k (enc_digits k n @ r) = Some (n, r)"
proof (induction k arbitrary: n)
  case (Suc k)
  have "unat (word_of_nat (n mod 256) :: byte) = n mod 256"
    by (simp add: unat_of_nat take_bit_nat_eq_self)
  with Suc show ?case by (simp add: less_mult_imp_div_less mult.commute)
qed simp

lemma sd_u32: "dec_u32 (enc_u32 w @ r) = Some (w, r)"
proof -
  have "unat w < 256 ^ 4" using unsigned_less [of w, where ?'a = nat] by simp
  from dec_digits_enc [OF this] show ?thesis by (simp add: enc_u32_def dec_u32_def)
qed

lemma sd_unary: "dec_unary (enc_unary n @ r) = Some (n, r)"
  by (induction n) simp_all

lemma sd_many: "self_delim e d \<Longrightarrow> dec_many d (length xs) (concat (map e xs) @ r) = Some (xs, r)"
  by (induction xs) (simp_all add: self_delimD)

lemma sd_list: "self_delim e d \<Longrightarrow> dec_list d (enc_list e xs @ r) = Some (xs, r)"
  by (simp add: enc_list_def dec_list_def sd_unary sd_many)

lemma sd_byte: "dec_byte (enc_byte b @ r) = Some (b, r)"
  by (simp add: enc_byte_def)

lemma sd_bool: "dec_bool (enc_bool b @ r) = Some (b, r)"
  by (simp add: enc_bool_def dec_bool_def)

lemma sd_bytes: "dec_bytes (enc_bytes bs @ r) = Some (bs, r)"
  by (simp add: dec_bytes_def enc_bytes_def sd_list self_delim_def sd_byte)

lemma sd_string: "dec_string (enc_string s @ r) = Some (s, r)"
  by (simp add: enc_string_def dec_string_def sd_bytes)

lemma sd_opt: "self_delim e d \<Longrightarrow> dec_opt d (enc_opt e x @ r) = Some (x, r)"
  by (cases x) (simp_all add: enc_opt_def dec_opt_def self_delimD)

lemma sd_int: "dec_int (enc_int i @ r) = Some (i, r)"
  by (simp add: enc_int_def dec_int_def sd_bool sd_unary)

lemma sd_lists:
  "dec_list dec_u32 (enc_list enc_u32 ws @ r) = Some (ws, r)"
  "dec_list dec_bytes (enc_list enc_bytes bss @ r) = Some (bss, r)"
  "dec_list dec_string (enc_list enc_string ss @ r) = Some (ss, r)"
  by (simp_all add: sd_list self_delim_def sd_u32 sd_bytes sd_string)

lemmas sd_simps = sd_u32 sd_bool sd_bytes sd_string sd_int sd_lists

section \<open>Serialisation of the messages\<close>

definition seq :: "'a parser \<Rightarrow> ('a \<Rightarrow> 'b parser) \<Rightarrow> 'b parser" where
  "seq d f bs = (case d bs of None \<Rightarrow> None | Some (x, r) \<Rightarrow> f x r)"

definition enc_Header :: "pro_Header \<Rightarrow> bytes" where
  "enc_Header m = enc_u32 (ph_Version m) @
     enc_string (ph_PreviousHash m) @
     enc_string (ph_MerkleRoot m) @
     enc_string (ph_DifficultyTarget m) @
     enc_u32 (ph_Nonce m) @
     enc_u32 (ph_Timestamp m)"

definition dec_Header :: "pro_Header parser" where
  "dec_Header =
     seq dec_u32 (\<lambda>v0.
     seq dec_string (\<lambda>v1.
     seq dec_string (\<lambda>v2.
     seq dec_string (\<lambda>v3.
     seq dec_u32 (\<lambda>v4.
     seq dec_u32 (\<lambda>v5.
     (\<lambda>r. Some (\<lparr>ph_Version = v0, ph_PreviousHash = v1, ph_MerkleRoot = v2, ph_DifficultyTarget = v3, ph_Nonce = v4, ph_Timestamp = v5\<rparr>, r))))))))"

lemma sd_Header: "dec_Header (enc_Header m @ r) = Some (m, r)"
  by (simp add: enc_Header_def dec_Header_def seq_def sd_simps)

definition enc_TxIn :: "pro_TransactionInput \<Rightarrow> bytes" where
  "enc_TxIn m = enc_string (pi_ReferenceTransactionHash m) @
     enc_u32 (pi_OutputIndex m) @
     enc_bytes (pi_UnlockingScript m)"

definition dec_TxIn :: "pro_TransactionInput parser" where
  "dec_TxIn =
     seq dec_string (\<lambda>v0.
     seq dec_u32 (\<lambda>v1.
     seq dec_bytes (\<lambda>v2.
     (\<lambda>r. Some (\<lparr>pi_ReferenceTransactionHash = v0, pi_OutputIndex = v1, pi_UnlockingScript = v2\<rparr>, r)))))"

lemma sd_TxIn: "dec_TxIn (enc_TxIn m @ r) = Some (m, r)"
  by (simp add: enc_TxIn_def dec_TxIn_def seq_def sd_simps)

definition enc_TxOut :: "pro_TransactionOutput \<Rightarrow> bytes" where
  "enc_TxOut m = enc_u32 (po_Amount m) @
     enc_bytes (po_LockingScript m)"

definition dec_TxOut :: "pro_TransactionOutput parser" where
  "dec_TxOut =
     seq dec_u32 (\<lambda>v0.
     seq dec_bytes (\<lambda>v1.
     (\<lambda>r. Some (\<lparr>po_Amount = v0, po_LockingScript = v1\<rparr>, r))))"

lemma sd_TxOut: "dec_TxOut (enc_TxOut m @ r) = Some (m, r)"
  by (simp add: enc_TxOut_def dec_TxOut_def seq_def sd_simps)

definition enc_Tx :: "pro_Transaction \<Rightarrow> bytes" where
  "enc_Tx m = enc_bool (pt_Segwit m) @
     enc_u32 (pt_Version m) @
     enc_list enc_TxIn (pt_Inputs m) @
     enc_list enc_TxOut (pt_Outputs m) @
     enc_list enc_bytes (pt_Witnesses m) @
     enc_u32 (pt_LockTime m)"

definition dec_Tx :: "pro_Transaction parser" where
  "dec_Tx =
     seq dec_bool (\<lambda>v0.
     seq dec_u32 (\<lambda>v1.
     seq (dec_list dec_TxIn) (\<lambda>v2.
     seq (dec_list dec_TxOut) (\<lambda>v3.
     seq (dec_list dec_bytes) (\<lambda>v4.
     seq dec_u32 (\<lambda>v5.
     (\<lambda>r. Some (\<lparr>pt_Segwit = v0, pt_Version = v1, pt_Inputs = v2, pt_Outputs = v3, pt_Witnesses = v4, pt_LockTime = v5\<rparr>, r))))))))"

lemma sd_Tx: "dec_Tx (enc_Tx m @ r) = Some (m, r)"
  by (simp add: enc_Tx_def dec_Tx_def seq_def sd_simps sd_TxIn sd_TxOut sd_list self_delim_def)

definition enc_Block :: "pro_Block \<Rightarrow> bytes" where
  "enc_Block m = enc_opt enc_Header (pb_Header m) @
     enc_list enc_Tx (pb_Transactions m)"

definition dec_Block :: "pro_Block parser" where
  "dec_Block =
     seq (dec_opt dec_Header) (\<lambda>v0.
     seq (dec_list dec_Tx) (\<lambda>v1.
     (\<lambda>r. Some (\<lparr>pb_Header = v0, pb_Transactions = v1\<rparr>, r))))"

lemma sd_Block: "dec_Block (enc_Block m @ r) = Some (m, r)"
  by (simp add: enc_Block_def dec_Block_def seq_def sd_simps sd_Header sd_Tx sd_list sd_opt self_delim_def)

definition enc_BlockRecord :: "pro_BlockRecord \<Rightarrow> bytes" where
  "enc_BlockRecord m = enc_opt enc_Header (pbr_Header m) @
     enc_u32 (pbr_Height m) @
     enc_u32 (pbr_NumberOfTransactions m) @
     enc_string (pbr_BlockFile m) @
     enc_u32 (pbr_BlockStartOffset m) @
     enc_u32 (pbr_BlockEndOffset m) @
     enc_string (pbr_UndoFile m) @
     enc_u32 (pbr_UndoStartOffset m) @
     enc_u32 (pbr_UndoEndOffset m)"

definition dec_BlockRecord :: "pro_BlockRecord parser" where
  "dec_BlockRecord =
     seq (dec_opt dec_Header) (\<lambda>v0.
     seq dec_u32 (\<lambda>v1.
     seq dec_u32 (\<lambda>v2.
     seq dec_string (\<lambda>v3.
     seq dec_u32 (\<lambda>v4.
     seq dec_u32 (\<lambda>v5.
     seq dec_string (\<lambda>v6.
     seq dec_u32 (\<lambda>v7.
     seq dec_u32 (\<lambda>v8.
     (\<lambda>r. Some (\<lparr>pbr_Header = v0, pbr_Height = v1, pbr_NumberOfTransactions = v2, pbr_BlockFile = v3, pbr_BlockStartOffset = v4, pbr_BlockEndOffset = v5, pbr_UndoFile = v6, pbr_UndoStartOffset = v7, pbr_UndoEndOffset = v8\<rparr>, r)))))))))))"

lemma sd_BlockRecord: "dec_BlockRecord (enc_BlockRecord m @ r) = Some (m, r)"
  by (simp add: enc_BlockRecord_def dec_BlockRecord_def seq_def sd_simps sd_Header sd_opt self_delim_def)

definition enc_CoinRecord :: "pro_CoinRecord \<Rightarrow> bytes" where
  "enc_CoinRecord m = enc_u32 (pcr_Version m) @
     enc_list enc_u32 (pcr_OutputIndexes m) @
     enc_list enc_u32 (pcr_Amounts m) @
     enc_list enc_bytes (pcr_LockingScripts m)"

definition dec_CoinRecord :: "pro_CoinRecord parser" where
  "dec_CoinRecord =
     seq dec_u32 (\<lambda>v0.
     seq (dec_list dec_u32) (\<lambda>v1.
     seq (dec_list dec_u32) (\<lambda>v2.
     seq (dec_list dec_bytes) (\<lambda>v3.
     (\<lambda>r. Some (\<lparr>pcr_Version = v0, pcr_OutputIndexes = v1, pcr_Amounts = v2, pcr_LockingScripts = v3\<rparr>, r))))))"

lemma sd_CoinRecord: "dec_CoinRecord (enc_CoinRecord m @ r) = Some (m, r)"
  by (simp add: enc_CoinRecord_def dec_CoinRecord_def seq_def sd_simps)

definition enc_UndoBlock :: "pro_UndoBlock \<Rightarrow> bytes" where
  "enc_UndoBlock m = enc_list enc_string (pub_TransactionInputHashes m) @
     enc_list enc_u32 (pub_OutputIndexes m) @
     enc_list enc_u32 (pub_Amounts m) @
     enc_list enc_bytes (pub_LockingScripts m)"

definition dec_UndoBlock :: "pro_UndoBlock parser" where
  "dec_UndoBlock =
     seq (dec_list dec_string) (\<lambda>v0.
     seq (dec_list dec_u32) (\<lambda>v1.
     seq (dec_list dec_u32) (\<lambda>v2.
     seq (dec_list dec_bytes) (\<lambda>v3.
     (\<lambda>r. Some (\<lparr>pub_TransactionInputHashes = v0, pub_OutputIndexes = v1, pub_Amounts = v2, pub_LockingScripts = v3\<rparr>, r))))))"

lemma sd_UndoBlock: "dec_UndoBlock (enc_UndoBlock m @ r) = Some (m, r)"
  by (simp add: enc_UndoBlock_def dec_UndoBlock_def seq_def sd_simps)

definition enc_P2PK :: "pro_PayToPublicKey \<Rightarrow> bytes" where
  "enc_P2PK m = enc_int (p2pk_ScriptType m) @
     enc_bytes (p2pk_PublicKey m)"

definition dec_P2PK :: "pro_PayToPublicKey parser" where
  "dec_P2PK =
     seq dec_int (\<lambda>v0.
     seq dec_bytes (\<lambda>v1.
     (\<lambda>r. Some (\<lparr>p2pk_ScriptType = v0, p2pk_PublicKey = v1\<rparr>, r))))"

lemma sd_P2PK: "dec_P2PK (enc_P2PK m @ r) = Some (m, r)"
  by (simp add: enc_P2PK_def dec_P2PK_def seq_def sd_simps)

definition enc_Multi :: "pro_MultiParty \<Rightarrow> bytes" where
  "enc_Multi m = enc_int (pmp_ScriptType m) @
     enc_bytes (pmp_MyPublicKey m) @
     enc_bytes (pmp_TheirPublicKey m) @
     enc_bytes (pmp_RevocationKey m) @
     enc_u32 (pmp_AdditionalBlocks m)"

definition dec_Multi :: "pro_MultiParty parser" where
  "dec_Multi =
     seq dec_int (\<lambda>v0.
     seq dec_bytes (\<lambda>v1.
     seq dec_bytes (\<lambda>v2.
     seq dec_bytes (\<lambda>v3.
     seq dec_u32 (\<lambda>v4.
     (\<lambda>r. Some (\<lparr>pmp_ScriptType = v0, pmp_MyPublicKey = v1, pmp_TheirPublicKey = v2, pmp_RevocationKey = v3, pmp_AdditionalBlocks = v4\<rparr>, r)))))))"

lemma sd_Multi: "dec_Multi (enc_Multi m @ r) = Some (m, r)"
  by (simp add: enc_Multi_def dec_Multi_def seq_def sd_simps)

definition enc_HTLC :: "pro_HashedTimeLock \<Rightarrow> bytes" where
  "enc_HTLC m = enc_int (phl_ScriptType m) @
     enc_bytes (phl_MyPublicKey m) @
     enc_bytes (phl_TheirPublicKey m) @
     enc_bytes (phl_RevocationKey m) @
     enc_string (phl_HashLock m) @
     enc_u32 (phl_AdditionalBlocks m) @
     enc_u32 (phl_Fee m)"

definition dec_HTLC :: "pro_HashedTimeLock parser" where
  "dec_HTLC =
     seq dec_int (\<lambda>v0.
     seq dec_bytes (\<lambda>v1.
     seq dec_bytes (\<lambda>v2.
     seq dec_bytes (\<lambda>v3.
     seq dec_string (\<lambda>v4.
     seq dec_u32 (\<lambda>v5.
     seq dec_u32 (\<lambda>v6.
     (\<lambda>r. Some (\<lparr>phl_ScriptType = v0, phl_MyPublicKey = v1, phl_TheirPublicKey = v2, phl_RevocationKey = v3, phl_HashLock = v4, phl_AdditionalBlocks = v5, phl_Fee = v6\<rparr>, r)))))))))"

lemma sd_HTLC: "dec_HTLC (enc_HTLC m @ r) = Some (m, r)"
  by (simp add: enc_HTLC_def dec_HTLC_def seq_def sd_simps)

definition enc_PubKey :: "PublicKey \<Rightarrow> bytes" where
  "enc_PubKey m = enc_int (pk_X m) @
     enc_int (pk_Y m)"

definition dec_PubKey :: "PublicKey parser" where
  "dec_PubKey =
     seq dec_int (\<lambda>v0.
     seq dec_int (\<lambda>v1.
     (\<lambda>r. Some (\<lparr>pk_X = v0, pk_Y = v1\<rparr>, r))))"

lemma sd_PubKey: "dec_PubKey (enc_PubKey m @ r) = Some (m, r)"
  by (simp add: enc_PubKey_def dec_PubKey_def seq_def sd_simps)

definition enc_PrivKey :: "PrivateKey \<Rightarrow> bytes" where
  "enc_PrivKey m = enc_PubKey (sk_PublicKey m) @
     enc_int (sk_D m)"

definition dec_PrivKey :: "PrivateKey parser" where
  "dec_PrivKey =
     seq dec_PubKey (\<lambda>v0.
     seq dec_int (\<lambda>v1.
     (\<lambda>r. Some (\<lparr>sk_PublicKey = v0, sk_D = v1\<rparr>, r))))"

lemma sd_PrivKey: "dec_PrivKey (enc_PrivKey m @ r) = Some (m, r)"
  by (simp add: enc_PrivKey_def dec_PrivKey_def seq_def sd_simps sd_PubKey)

section \<open>The instance\<close>

definition parse_with :: "'a \<Rightarrow> 'a parser \<Rightarrow> bytes \<Rightarrow> 'a \<times> bool" where
  "parse_with z d bs =
     (if bs = [] then (z, True)
      else case d bs of None \<Rightarrow> (z, False) | Some (m, _) \<Rightarrow> (m, True))"

definition ref_ext :: "(bytes \<times> bytes) list ext" where
  "ref_ext =
     \<lparr>sha256 = (\<lambda>bs. bs),
      marshal_Header = (\<lambda>m. (enc_Header m, True)),
      marshal_Transaction = (\<lambda>m. (enc_Tx m, True)),
      marshal_TransactionOutput = (\<lambda>m. (enc_TxOut m, True)),
      marshal_Block = (\<lambda>m. (enc_Block m, True)),
      marshal_UndoBlock = (\<lambda>m. (enc_UndoBlock m, True)),
      marshal_BlockRecord = (\<lambda>m. (enc_BlockRecord m, True)),
      marshal_CoinRecord = (\<lambda>m. (enc_CoinRecord m, True)),
      marshal_PayToPublicKey = (\<lambda>m. (enc_P2PK m, True)),
      marshal_MultiParty = (\<lambda>m. (enc_Multi m, True)),
      unmarshal_Block = parse_with \<lparr>pb_Header = None, pb_Transactions = []\<rparr> dec_Block,
      unmarshal_UndoBlock = parse_with zero_UndoBlock dec_UndoBlock,
      unmarshal_BlockRecord = parse_with zero_BlockRecord dec_BlockRecord,
      unmarshal_CoinRecord = parse_with zero_CoinRecord dec_CoinRecord,
      unmarshal_PayToPublicKey =
        parse_with \<lparr>p2pk_ScriptType = 0, p2pk_PublicKey = []\<rparr> dec_P2PK,
      unmarshal_MultiParty =
        parse_with \<lparr>pmp_ScriptType = 0, pmp_MyPublicKey = [], pmp_TheirPublicKey = [],
          pmp_RevocationKey = [], pmp_AdditionalBlocks = 0\<rparr> dec_Multi,
      unmarshal_HashedTimeLock =
        parse_with \<lparr>phl_ScriptType = 0, phl_MyPublicKey = [], phl_TheirPublicKey = [],
          phl_RevocationKey = [], phl_HashLock = [], phl_AdditionalBlocks = 0, phl_Fee = 0\<rparr> dec_HTLC,
      leveldb_empty = [],
      leveldb_Get = map_of,
      leveldb_Put = (\<lambda>d k v. AList.update k v d),
      leveldb_Delete = (\<lambda>d k. AList.delete k d),
      leveldb_entries = AList.clearjunk,
      ecdsa_GenerateKey =
        (\<lambda>rnd. Some \<lparr>sk_PublicKey = \<lparr>pk_X = int rnd, pk_Y = 0\<rparr>, sk_D = int rnd\<rparr>),
      ecdsa_SignASN1 = (\<lambda>rnd sk h. Some (enc_int (sk_D sk) @ h)),
      ecdsa_VerifyASN1 = (\<lambda>pk h s. s = enc_int (pk_X pk) @ h),
      x509_MarshalPKIXPublicKey = (\<lambda>k. Some (enc_PubKey k)),
      x509_ParsePKIXPublicKey = (\<lambda>bs. map_option (ECDSA_PublicKey \<circ> fst) (dec_PubKey bs)),
      x509_MarshalECPrivateKey = (\<lambda>k. Some (enc_PrivKey k)),
      x509_ParseECPrivateKey = (\<lambda>bs. map_option fst (dec_PrivKey bs))\<rparr>"

lemma enc_unary_not_Nil [simp]: "enc_unary n \<noteq> []"
  by (cases n) simp_all

lemma length_enc_digits: "length (enc_digits k n) = k"
  by (induction k arbitrary: n) simp_all

lemma enc_u32_not_Nil [simp]: "enc_u32 w \<noteq> []"
  using length_enc_digits [of 4 "unat w"] by (auto simp: enc_u32_def)

lemma parse_with_enc:
  assumes "\<And>m r. d (e m @ r) = Some (m, r)" and "e m \<noteq> []"
  shows "parse_with z d (e m) = (m, True)"
  using assms(1) [of m "[]"] assms(2) by (simp add: parse_with_def)

lemma enc_not_Nil [simp]:
  "enc_Block b \<noteq> []" "enc_UndoBlock u \<noteq> []" "enc_BlockRecord r \<noteq> []" "enc_CoinRecord c \<noteq> []"
  "enc_P2PK p \<noteq> []" "enc_Multi m \<noteq> []" "enc_HTLC h \<noteq> []"
  by (simp_all add: enc_Block_def enc_UndoBlock_def enc_BlockRecord_def enc_CoinRecord_def
      enc_P2PK_def enc_Multi_def enc_HTLC_def enc_opt_def enc_int_def enc_list_def)

lemma parse_with_simps:
  "parse_with z0 dec_Block (enc_Block m0) = (m0, True)"
  "parse_with z1 dec_UndoBlock (enc_UndoBlock m1) = (m1, True)"
  "parse_with z2 dec_BlockRecord (enc_BlockRecord m2) = (m2, True)"
  "parse_with z3 dec_CoinRecord (enc_CoinRecord m3) = (m3, True)"
  "parse_with z4 dec_P2PK (enc_P2PK m4) = (m4, True)"
  "parse_with z5 dec_Multi (enc_Multi m5) = (m5, True)"
  "parse_with z6 dec_HTLC (enc_HTLC m6) = (m6, True)"
  "parse_with z d [] = (z, True)"
  by (rule parse_with_enc, rule sd_Block, simp)
    (rule parse_with_enc, rule sd_UndoBlock, simp,
     rule parse_with_enc, rule sd_BlockRecord, simp,
     rule parse_with_enc, rule sd_CoinRecord, simp,
     rule parse_with_enc, rule sd_P2PK, simp,
     rule parse_with_enc, rule sd_Multi, simp,
     rule parse_with_enc, rule sd_HTLC, simp,
     simp add: parse_with_def)

lemma ref_ext_proto: "proto_laws ref_ext"
  by (simp add: proto_laws_def ref_ext_def parse_with_simps)

lemma ref_ext_leveldb: "leveldb_laws ref_ext"
  by (auto simp: leveldb_laws_def ref_ext_def update_conv' delete_conv' map_of_clearjunk
      distinct_clearjunk)

lemma ref_ext_x509: "x509_laws ref_ext"
  using sd_PubKey [of _ "[]"] sd_PrivKey [of _ "[]"] by (simp add: x509_laws_def ref_ext_def)

lemma ref_ext_script: "script_laws ref_ext"
  by (simp add: script_laws_def ref_ext_def parse_with_def enc_Multi_def dec_P2PK_def seq_def sd_simps
      del: append_assoc)

lemmas ref_ext_laws = ref_ext_script ref_ext_proto ref_ext_leveldb ref_ext_x509

lemma ref_ext_tx_inj: "inj (\<lambda>m. sha256 ref_ext (fst (marshal_Transaction ref_ext m)))"
proof (rule injI)
  fix x y
  assume "sha256 ref_ext (fst (marshal_Transaction ref_ext x)) =
    sha256 ref_ext (fst (marshal_Transaction ref_ext y))"
  then have "enc_Tx x @ [] = enc_Tx y @ []" by (simp add: ref_ext_def)
  then show "x = y" using sd_Tx [of x "[]"] sd_Tx [of y "[]"] by simp
qed

lemma ref_ext_header_inj: "inj (\<lambda>m. sha256 ref_ext (fst (marshal_Header ref_ext m)))"
proof (rule injI)
  fix x y
  assume "sha256 ref_ext (fst (marshal_Header ref_ext x)) =
    sha256 ref_ext (fst (marshal_Header ref_ext y))"
  then have "enc_Header x @ [] = enc_Header y @ []" by (simp add: ref_ext_def)
  then show "x = y" using sd_Header [of x "[]"] sd_Header [of y "[]"] by simp
qed

end
