(* ===== verification/Coin_Block.thy ===== *)
theory Coin_Block
  imports Ext_Instance
begin

text \<open>
  Package \<open>src/pkg/block\<close> without its heap: transactions, headers and blocks, their
  protobuf forms, the hashes, the size of a transaction and the Merkle root.

  The Merkle root loop of \<open>CalculateMerkleRoot\<close> runs \<open>for len(hashes) != 1\<close>; on an
  empty list it never stops, so the loop is a \<^theory_text>\<open>partial_function (option)\<close>
  and \<^const>\<open>None\<close> means that it does not return.
\<close>

section \<open>Data\<close>

record Header =
  h_Version :: u32
  h_PreviousHash :: string
  h_MerkleRoot :: string
  h_DifficultyTarget :: string
  h_Nonce :: u32
  h_Timestamp :: u32

record TransactionInput =
  ReferenceTransactionHash :: string
  OutputIndex :: u32
  UnlockingScript :: bytes

record TransactionOutput =
  Amount :: u32
  LockingScript :: bytes

record Transaction =
  Segwit :: bool
  t_Version :: u32
  Inputs :: "TransactionInput list"
  Outputs :: "TransactionOutput list"
  Witnesses :: "bytes list"
  LockTime :: u32

record Block =
  b_Header :: Header
  Transactions :: "Transaction list"

section \<open>Encoding and decoding\<close>

definition EncodeHeader :: "Header \<Rightarrow> pro_Header" where
  "EncodeHeader header =
     \<lparr>ph_Version = h_Version header, ph_PreviousHash = h_PreviousHash header,
      ph_MerkleRoot = h_MerkleRoot header, ph_DifficultyTarget = h_DifficultyTarget header,
      ph_Nonce = h_Nonce header, ph_Timestamp = h_Timestamp header\<rparr>"

definition DecodeHeader :: "pro_Header option \<Rightarrow> Header" where
  "DecodeHeader pheader =
     (let p = nil_default zero_Header pheader in
      \<lparr>h_Version = ph_Version p, h_PreviousHash = ph_PreviousHash p,
       h_MerkleRoot = ph_MerkleRoot p, h_DifficultyTarget = ph_DifficultyTarget p,
       h_Nonce = ph_Nonce p, h_Timestamp = ph_Timestamp p\<rparr>)"

definition EncodeTransactionInput :: "TransactionInput \<Rightarrow> pro_TransactionInput" where
  "EncodeTransactionInput txi =
     \<lparr>pi_ReferenceTransactionHash = ReferenceTransactionHash txi,
      pi_OutputIndex = OutputIndex txi, pi_UnlockingScript = UnlockingScript txi\<rparr>"

definition DecodeTransactionInput :: "pro_TransactionInput \<Rightarrow> TransactionInput" where
  "DecodeTransactionInput ptxi =
     \<lparr>ReferenceTransactionHash = pi_ReferenceTransactionHash ptxi,
      OutputIndex = pi_OutputIndex ptxi, UnlockingScript = pi_UnlockingScript ptxi\<rparr>"

definition EncodeTransactionOutput :: "TransactionOutput \<Rightarrow> pro_TransactionOutput" where
  "EncodeTransactionOutput txo =
     \<lparr>po_Amount = Amount txo, po_LockingScript = LockingScript txo\<rparr>"

definition DecodeTransactionOutput :: "pro_TransactionOutput \<Rightarrow> TransactionOutput" where
  "DecodeTransactionOutput ptxo =
     \<lparr>Amount = po_Amount ptxo, LockingScript = po_LockingScript ptxo\<rparr>"

definition EncodeTransaction :: "Transaction \<Rightarrow> pro_Transaction" where
  "EncodeTransaction tx =
     \<lparr>pt_Segwit = Segwit tx, pt_Version = t_Version tx,
      pt_Inputs = map EncodeTransactionInput (Inputs tx),
      pt_Outputs = map EncodeTransactionOutput (Outputs tx),
      pt_Witnesses = Witnesses tx, pt_LockTime = LockTime tx\<rparr>"

definition DecodeTransaction :: "pro_Transaction option \<Rightarrow> Transaction" where
  "DecodeTransaction ptx =
     (let p = nil_default zero_Transaction ptx in
      \<lparr>Segwit = pt_Segwit p, t_Version = pt_Version p,
       Inputs = map DecodeTransactionInput (pt_Inputs p),
       Outputs = map DecodeTransactionOutput (pt_Outputs p),
       Witnesses = pt_Witnesses p, LockTime = pt_LockTime p\<rparr>)"

definition EncodeBlock :: "Block \<Rightarrow> pro_Block" where
  "EncodeBlock b =
     \<lparr>pb_Header = Some (EncodeHeader (b_Header b)),
      pb_Transactions = map EncodeTransaction (Transactions b)\<rparr>"

definition DecodeBlock :: "pro_Block \<Rightarrow> Block" where
  "DecodeBlock pb =
     \<lparr>b_Header = DecodeHeader (pb_Header pb),
      Transactions = map (\<lambda>ptx. DecodeTransaction (Some ptx)) (pb_Transactions pb)\<rparr>"

definition EncodeTransactionWithAddress ::
  "Transaction \<Rightarrow> string \<Rightarrow> pro_TransactionWithAddress" where
  "EncodeTransactionWithAddress tx addr =
     (let protoTxis = map EncodeTransactionInput (Inputs tx);
          protoTxos = map EncodeTransactionOutput (Outputs tx);
          ptx = \<lparr>pt_Segwit = Segwit tx, pt_Version = t_Version tx, pt_Inputs = protoTxis,
                 pt_Outputs = protoTxos, pt_Witnesses = Witnesses tx, pt_LockTime = LockTime tx\<rparr>
      in \<lparr>pta_Transaction = Some ptx, pta_Address = addr\<rparr>)"

definition DecodeTransactionWithAddress ::
  "pro_TransactionWithAddress \<Rightarrow> Transaction \<times> string" where
  "DecodeTransactionWithAddress ptx =
     (let p = nil_default zero_Transaction (pta_Transaction ptx);
          tx = \<lparr>Segwit = pt_Segwit p, t_Version = pt_Version p,
                Inputs = map DecodeTransactionInput (pt_Inputs p),
                Outputs = map DecodeTransactionOutput (pt_Outputs p),
                Witnesses = pt_Witnesses p, LockTime = pt_LockTime p\<rparr>
      in (tx, pta_Address ptx))"

section \<open>Hashes, sums and sizes\<close>

text \<open>\<open>utils.Hash\<close>: the SHA-256 digest as a hexadecimal string.\<close>

definition utils_Hash :: "('db, 'z) ext_scheme \<Rightarrow> bytes \<Rightarrow> string" where
  "utils_Hash E v = hex_EncodeToString (sha256 E v)"

text \<open>\<open>fmt.Sprintf("%x", h.Sum(nil))\<close> prints the digest in lower-case hexadecimal.\<close>

definition Block_Hash :: "('db, 'z) ext_scheme \<Rightarrow> Block \<Rightarrow> string" where
  "Block_Hash E b =
     hex_EncodeToString (sha256 E (fst (marshal_Header E (EncodeHeader (b_Header b)))))"

definition Transaction_Hash :: "('db, 'z) ext_scheme \<Rightarrow> Transaction \<Rightarrow> string" where
  "Transaction_Hash E tx =
     (let copied = tx\<lparr>Witnesses := []\<rparr>;
          pt = EncodeTransaction copied
      in hex_EncodeToString (sha256 E (fst (marshal_Transaction E pt))))"

definition IsCoinbase :: "Transaction \<Rightarrow> bool" where
  "IsCoinbase tx \<longleftrightarrow> length (Inputs tx) = 0"

definition Transaction_Size :: "Transaction \<Rightarrow> u32" where
  "Transaction_Size tx = SizeOfTransaction (EncodeTransaction tx)"

definition Block_Size :: "Block \<Rightarrow> u32 option" where
  "Block_Size b = SizeOfBlock (EncodeBlock b)"

definition SumOutputs :: "Transaction \<Rightarrow> u32" where
  "SumOutputs tx = foldl (\<lambda>r v. r + Amount v) 0 (Outputs tx)"

section \<open>Signatures\<close>

text \<open>
  \<open>utils.Sign\<close> with the random bits as an argument. Both signing functions print a message
  and return \<open>nil, nil\<close> when signing fails: an empty signature and no error.
\<close>

definition utils_Sign :: "('db, 'z) ext_scheme \<Rightarrow> nat \<Rightarrow> PrivateKey \<Rightarrow> bytes \<Rightarrow> bytes option" where
  "utils_Sign E rnd sk h = ecdsa_SignASN1 E rnd sk h"

definition MakeSignature ::
  "('db, 'z) ext_scheme \<Rightarrow> nat \<Rightarrow> TransactionOutput \<Rightarrow> PrivateKey \<Rightarrow> bytes" where
  "MakeSignature E rnd txo sk =
     (let b = fst (marshal_TransactionOutput E (EncodeTransactionOutput txo)) in
      case utils_Sign E rnd sk b of None \<Rightarrow> [] | Some sig \<Rightarrow> sig)"

definition Transaction_Sign ::
  "('db, 'z) ext_scheme \<Rightarrow> nat \<Rightarrow> Transaction \<Rightarrow> PrivateKey \<Rightarrow> bytes" where
  "Transaction_Sign E rnd tx sk =
     (case utils_Sign E rnd sk (bytes_of (Transaction_Hash E tx)) of None \<Rightarrow> [] | Some sig \<Rightarrow> sig)"

section \<open>Merkle root\<close>

text \<open>One round of the loop: pad to an even number, then hash neighbours.\<close>

definition pad_even :: "'a list \<Rightarrow> 'a list" where
  "pad_even hs = (if length hs mod 2 \<noteq> 0 then hs @ [last hs] else hs)"

definition hash_pair :: "('db, 'z) ext_scheme \<Rightarrow> string \<Rightarrow> string \<Rightarrow> string" where
  "hash_pair E h1 h2 = utils_Hash E (hex_DecodeString h1 @ hex_DecodeString h2)"

fun hash_pairs :: "('db, 'z) ext_scheme \<Rightarrow> string list \<Rightarrow> string list" where
  "hash_pairs E (h1 # h2 # hs) = hash_pair E h1 h2 # hash_pairs E hs"
| "hash_pairs E _ = []"

partial_function (option) merkle_loop ::
  "('db, 'z) ext_scheme \<Rightarrow> string list \<Rightarrow> string list option" where
  "merkle_loop E hashes =
     (if length hashes \<noteq> 1 then merkle_loop E (hash_pairs E (pad_even hashes)) else Some hashes)"

definition CalculateMerkleRoot :: "('db, 'z) ext_scheme \<Rightarrow> Transaction list \<Rightarrow> string option" where
  "CalculateMerkleRoot E txs =
     (let txs' = (if length txs > 1 \<and> length txs mod 2 \<noteq> 0 then txs @ [last txs] else txs);
          hashes = map (Transaction_Hash E) txs'
      in case merkle_loop E hashes of
           None \<Rightarrow> None
         | Some hs \<Rightarrow> Some (if length hs < 1 then '''' else hd hs))"

text \<open>\<open>block.New\<close>: it does not return when the Merkle root does not.\<close>

definition Block_New ::
  "('db, 'z) ext_scheme \<Rightarrow> string \<Rightarrow> Transaction list \<Rightarrow> string \<Rightarrow> Block option" where
  "Block_New E previousHash txs target =
     (case CalculateMerkleRoot E txs of
        None \<Rightarrow> None
      | Some root \<Rightarrow>
          Some \<lparr>b_Header = \<lparr>h_Version = 0, h_PreviousHash = previousHash, h_MerkleRoot = root,
                  h_DifficultyTarget = target, h_Nonce = 0, h_Timestamp = 0\<rparr>,
                Transactions = txs\<rparr>)"

section \<open>The interface of a wire format\<close>

text \<open>
  Every stored or transmitted type has an encoder and a decoder. A client needs one law:
  decoding inverts encoding.
\<close>

locale wire_format =
  fixes encode :: "'a \<Rightarrow> 'm" and decode :: "'m \<Rightarrow> 'a"
  assumes decode_encode: "decode (encode x) = x"
begin

lemma encode_inj: "encode x = encode y \<longleftrightarrow> x = y"
  by (metis decode_encode)

lemma decode_encode_list: "map decode (map encode xs) = xs"
  by (simp add: decode_encode comp_def)

lemma encode_list_inj: "map encode xs = map encode ys \<longleftrightarrow> xs = ys"
  by (metis decode_encode_list)

end

lemmas block_codec_defs =
  EncodeHeader_def DecodeHeader_def EncodeTransactionInput_def DecodeTransactionInput_def
  EncodeTransactionOutput_def DecodeTransactionOutput_def EncodeTransaction_def
  DecodeTransaction_def EncodeBlock_def DecodeBlock_def

interpretation header_wire: wire_format EncodeHeader "\<lambda>p. DecodeHeader (Some p)"
  by unfold_locales (simp add: block_codec_defs)

interpretation input_wire: wire_format EncodeTransactionInput DecodeTransactionInput
  by unfold_locales (simp add: block_codec_defs)

interpretation output_wire: wire_format EncodeTransactionOutput DecodeTransactionOutput
  by unfold_locales (simp add: block_codec_defs)

interpretation transaction_wire: wire_format EncodeTransaction "\<lambda>p. DecodeTransaction (Some p)"
  using input_wire.decode_encode_list output_wire.decode_encode_list
  by unfold_locales (simp add: EncodeTransaction_def DecodeTransaction_def Let_def)

interpretation block_wire: wire_format EncodeBlock DecodeBlock
  using header_wire.decode_encode transaction_wire.decode_encode_list
  by unfold_locales (simp add: EncodeBlock_def DecodeBlock_def)

interpretation tx_addr_wire: wire_format
  "\<lambda>p. EncodeTransactionWithAddress (fst p) (snd p)" DecodeTransactionWithAddress
  using input_wire.decode_encode_list output_wire.decode_encode_list
  by unfold_locales (simp add: EncodeTransactionWithAddress_def DecodeTransactionWithAddress_def
      Let_def prod_eq_iff)

lemmas wire_simps [codec_simps] =
  header_wire.decode_encode input_wire.decode_encode output_wire.decode_encode
  transaction_wire.decode_encode block_wire.decode_encode

text \<open>
  Whatever is sent or stored comes back unchanged: decoding the protobuf form of a
  block gives the block, with its header and all of its transactions (witnesses included).
\<close>

theorem block_roundtrip: "DecodeBlock (EncodeBlock b) = b"
  by (rule block_wire.decode_encode)

section \<open>Facts about hashes\<close>

lemma Transaction_Hash_eq_iff:
  assumes "inj_on (\<lambda>m. sha256 E (fst (marshal_Transaction E m)))
      {EncodeTransaction (tx\<lparr>Witnesses := []\<rparr>), EncodeTransaction (tx'\<lparr>Witnesses := []\<rparr>)}"
  shows "Transaction_Hash E tx = Transaction_Hash E tx' \<longleftrightarrow> tx\<lparr>Witnesses := []\<rparr> = tx'\<lparr>Witnesses := []\<rparr>"
proof -
  have "Transaction_Hash E tx = Transaction_Hash E tx' \<longleftrightarrow>
    EncodeTransaction (tx\<lparr>Witnesses := []\<rparr>) = EncodeTransaction (tx'\<lparr>Witnesses := []\<rparr>)"
    using assms by (auto simp: Transaction_Hash_def Let_def)
  then show ?thesis by (simp add: transaction_wire.encode_inj)
qed

text \<open>
  The hash of a transaction covers everything but its witnesses: adding or replacing
  signatures never changes it, and when the two encodings do not collide under SHA-256,
  equal hashes mean equal transactions up to witnesses.
\<close>

theorem transaction_hash_segwit:
  assumes "inj_on (\<lambda>m. sha256 E (fst (marshal_Transaction E m)))
      {EncodeTransaction (tx\<lparr>Witnesses := []\<rparr>), EncodeTransaction (tx'\<lparr>Witnesses := []\<rparr>)}"
  shows "Transaction_Hash E (tx\<lparr>Witnesses := ws\<rparr>) = Transaction_Hash E tx \<and>
    (Transaction_Hash E tx = Transaction_Hash E tx' \<longleftrightarrow> tx\<lparr>Witnesses := []\<rparr> = tx'\<lparr>Witnesses := []\<rparr>)"
  using Transaction_Hash_eq_iff [OF assms] by (simp add: Transaction_Hash_def)

lemma Transaction_Hash_Witnesses [simp]:
  "Transaction_Hash E (tx\<lparr>Witnesses := ws\<rparr>) = Transaction_Hash E tx"
  by (simp add: Transaction_Hash_def)

lemma Transaction_Hash_ascii [simp]: "ascii (Transaction_Hash E tx)"
  by (simp add: Transaction_Hash_def Let_def hex_encode_ascii)

lemma Block_Hash_ascii [simp]: "ascii (Block_Hash E b)"
  by (simp add: Block_Hash_def hex_encode_ascii)

lemma foldl_word_sum: "foldl (\<lambda>r v. r + f v) a xs = (a :: u32) + sum_list (map f xs)"
  by (induction xs arbitrary: a) (simp_all add: add.assoc)

lemma SumOutputs_sum_list: "SumOutputs tx = sum_list (map Amount (Outputs tx))"
  by (simp add: SumOutputs_def foldl_word_sum)

lemma unat_sum_list_mod: "unat (sum_list (xs :: u32 list)) = sum_list (map unat xs) mod 2 ^ 32"
proof (induction xs)
  case (Cons x xs)
  have "unat (sum_list (x # xs)) = (unat x + sum_list (map unat xs) mod 2 ^ 32) mod 2 ^ 32"
    using Cons by (simp add: unat_word_ariths)
  then show ?case by (simp add: mod_add_right_eq)
qed simp

text \<open>
  \<open>SumOutputs\<close> adds 32-bit amounts: its value is the true sum modulo \<open>2^32\<close>, and it is
  the true sum exactly when that fits in 32 bits.
\<close>

theorem SumOutputs_wraps:
  "unat (SumOutputs tx) = sum_list (map (\<lambda>txo. unat (Amount txo)) (Outputs tx)) mod 2 ^ 32 \<and>
   (unat (SumOutputs tx) = sum_list (map (\<lambda>txo. unat (Amount txo)) (Outputs tx)) \<longleftrightarrow>
    sum_list (map (\<lambda>txo. unat (Amount txo)) (Outputs tx)) < 2 ^ 32)"
proof -
  have eq: "unat (SumOutputs tx) = sum_list (map (\<lambda>txo. unat (Amount txo)) (Outputs tx)) mod 2 ^ 32"
    by (simp add: SumOutputs_sum_list unat_sum_list_mod comp_def)
  show ?thesis
    unfolding eq by (auto intro: mod_less)
qed

lemma Transaction_Size_eq:
  "Transaction_Size tx = 8 + 44 * of_nat (length (Inputs tx)) + 28 * of_nat (length (Outputs tx))"
  by (simp add: Transaction_Size_def SizeOfTransaction_eq EncodeTransaction_def)

section \<open>The Merkle root\<close>

lemma length_pad_even: "length (pad_even xs) = 2 * ((length xs + 1) div 2)"
  by (simp add: pad_even_def) presburger

lemma length_hash_pairs: "length (hash_pairs E xs) = length xs div 2"
  by (induction E xs rule: hash_pairs.induct) simp_all

lemma merkle_round_length: "length (hash_pairs E (pad_even xs)) = (length xs + 1) div 2"
  by (simp add: length_hash_pairs length_pad_even)

lemma merkle_loop_single [simp]: "merkle_loop E [h] = Some [h]"
  by (simp add: merkle_loop.simps)

lemma merkle_loop_returns: "hashes \<noteq> [] \<Longrightarrow> \<exists>h. merkle_loop E hashes = Some [h]"
proof (induction hashes rule: length_induct)
  case (1 hashes)
  show ?case
  proof (cases "length hashes = 1")
    case True
    then obtain h where "hashes = [h]" by (auto simp: length_Suc_conv)
    then show ?thesis by simp
  next
    case False
    let ?next = "hash_pairs E (pad_even hashes)"
    from False "1.prems" have "length hashes \<ge> 2" by (cases hashes) (auto simp: Suc_le_eq)
    then have "length ?next < length hashes" and "length ?next \<noteq> 0"
      unfolding merkle_round_length by arith+
    then obtain h where "merkle_loop E ?next = Some [h]" using "1.IH" by fastforce
    with False show ?thesis by (simp add: merkle_loop.simps [of E hashes])
  qed
qed

lemma merkle_loop_nonempty:
  assumes "merkle_loop E hashes = Some r"
  shows "hashes \<noteq> []"
proof (rule merkle_loop.raw_induct [where P = "\<lambda>E hashes r. hashes \<noteq> []", OF _ assms])
  fix f :: "('a, 'b) ext_scheme \<Rightarrow> string list \<Rightarrow> string list option" and E hashes r
  assume IH: "\<And>E hashes r. f E hashes = Some r \<Longrightarrow> hashes \<noteq> []"
    and eq: "(if length hashes \<noteq> 1 then f E (hash_pairs E (pad_even hashes)) else Some hashes) = Some r"
  show "hashes \<noteq> []"
    using IH eq by (cases hashes) (auto simp: pad_even_def)
qed

text \<open>
  C30: \<open>CalculateMerkleRoot\<close> returns on every non-empty list of transactions, and on the
  empty list it loops for ever, so that its error branch for a missing root is never reached.
\<close>

theorem merkle_root_terminates_iff: "(\<exists>r. CalculateMerkleRoot E txs = Some r) \<longleftrightarrow> txs \<noteq> []"
proof
  assume "\<exists>r. CalculateMerkleRoot E txs = Some r"
  then obtain r where "merkle_loop E (map (Transaction_Hash E) txs) = Some r \<or> length txs > 1"
    by (auto simp: CalculateMerkleRoot_def Let_def split: option.splits if_splits)
  then show "txs \<noteq> []" by (auto dest: merkle_loop_nonempty)
next
  assume "txs \<noteq> []"
  then show "\<exists>r. CalculateMerkleRoot E txs = Some r"
    using merkle_loop_returns [of "map (Transaction_Hash E) (txs @ [last txs])" E]
      merkle_loop_returns [of "map (Transaction_Hash E) txs" E]
    by (auto simp: CalculateMerkleRoot_def Let_def)
qed

text \<open>
  The padding makes the Merkle root ambiguous: a list of odd length greater than one
  has the same root as the list with its last transaction repeated, so the root in a header
  does not determine the transactions of the block.
\<close>

theorem merkle_root_duplicate:
  assumes "length txs > 1" and "odd (length txs)"
  shows "CalculateMerkleRoot E (txs @ [last txs]) = CalculateMerkleRoot E txs"
  using assms by (simp add: CalculateMerkleRoot_def Let_def odd_iff_mod_2_eq_one)

text \<open>A block with one transaction has that transaction's hash as its root.\<close>

lemma merkle_root_single: "CalculateMerkleRoot E [tx] = Some (Transaction_Hash E tx)"
  by (simp add: CalculateMerkleRoot_def)

section \<open>Instances\<close>

lemma ref_Transaction_Hash_eq:
  "Transaction_Hash ref_ext tx = Transaction_Hash ref_ext tx' \<longleftrightarrow> tx\<lparr>Witnesses := []\<rparr> = tx'\<lparr>Witnesses := []\<rparr>"
  by (intro Transaction_Hash_eq_iff inj_on_subset [OF ref_ext_tx_inj]) simp

definition sample_tx :: "u32 \<Rightarrow> Transaction" where
  "sample_tx v = \<lparr>Segwit = False, t_Version = v, Inputs = [], Outputs = [], Witnesses = [], LockTime = 0\<rparr>"

lemma sample_tx_hash: "Transaction_Hash ref_ext (sample_tx v) = Transaction_Hash ref_ext (sample_tx w) \<longleftrightarrow> v = w"
  by (simp add: ref_Transaction_Hash_eq sample_tx_def)

theorem transaction_hash_segwit_witness:
  "Transaction_Hash ref_ext ((sample_tx 1)\<lparr>Witnesses := [[1]]\<rparr>) = Transaction_Hash ref_ext (sample_tx 1) \<and>
   Transaction_Hash ref_ext (sample_tx 1) \<noteq> Transaction_Hash ref_ext (sample_tx 2)"
  using transaction_hash_segwit [OF inj_on_subset [OF ref_ext_tx_inj], of "sample_tx 1" "sample_tx 2" "[[1]]"]
  by (simp add: sample_tx_def)

theorem merkle_root_duplicate_witness:
  "CalculateMerkleRoot ref_ext [sample_tx 1, sample_tx 2, sample_tx 3, sample_tx 3] =
   CalculateMerkleRoot ref_ext [sample_tx 1, sample_tx 2, sample_tx 3]"
  using merkle_root_duplicate [of "[sample_tx 1, sample_tx 2, sample_tx 3]" ref_ext] by simp

end
