(* ===== verification/Tx_Heap.thy ===== *)
theory Tx_Heap
  imports Coin_Block
begin

text \<open>
  The transaction priority queue: \<open>src/pkg/block/transactionheap.go\<close> over the algorithms
  of Go's \<open>container/heap\<close> (\<open>up\<close>, \<open>down\<close>, \<open>Init\<close>, \<open>Push\<close>), which work on the
  array through the comparison \<open>Less\<close>.

  The lemmas about the array algorithms need only that \<open>Less\<close> is a strict weak order, the
  contract \<open>heap.Interface\<close> documents; they are proved in the locale \<open>heap_order\<close>
  and interpreted for the comparison of \<open>HeapNode\<close>s.
\<close>

section \<open>Package container/heap\<close>

function heap_up :: "('a \<Rightarrow> 'a \<Rightarrow> bool) \<Rightarrow> 'a list \<Rightarrow> nat \<Rightarrow> 'a list" where
  "heap_up lt h j =
     (let i = (j - 1) div 2 in
      if i = j \<or> \<not> lt (h ! j) (h ! i) then h else heap_up lt (swap h i j) i)"
  by pat_completeness auto
termination
  by (relation "measure (\<lambda>(lt, h, j). j)") auto

function heap_down :: "('a \<Rightarrow> 'a \<Rightarrow> bool) \<Rightarrow> 'a list \<Rightarrow> nat \<Rightarrow> nat \<Rightarrow> 'a list" where
  "heap_down lt h i n =
     (let j1 = 2 * i + 1 in
      if j1 \<ge> n then h
      else let j = (if j1 + 1 < n \<and> lt (h ! (j1 + 1)) (h ! j1) then j1 + 1 else j1) in
           if \<not> lt (h ! j) (h ! i) then h else heap_down lt (swap h i j) j n)"
  by pat_completeness auto
termination
  by (relation "measure (\<lambda>(lt, h, i, n). n - i)") (auto simp: Let_def)

declare heap_up.simps [simp del] heap_down.simps [simp del]

definition heap_Init :: "('a \<Rightarrow> 'a \<Rightarrow> bool) \<Rightarrow> 'a list \<Rightarrow> 'a list" where
  "heap_Init lt h =
     (let n = length h in foldl (\<lambda>h i. heap_down lt h i n) h (rev [0..<n div 2]))"

definition heap_Push :: "('a \<Rightarrow> 'a \<Rightarrow> bool) \<Rightarrow> 'a list \<Rightarrow> 'a \<Rightarrow> 'a list" where
  "heap_Push lt h x = heap_up lt (h @ [x]) (length h)"

section \<open>The transaction heap\<close>

record HeapNode =
  Priority :: u32
  n_Transaction :: Transaction

type_synonym Heap = "HeapNode list"

definition Heap_Less :: "HeapNode \<Rightarrow> HeapNode \<Rightarrow> bool" where
  "Heap_Less a b \<longleftrightarrow> Priority a > Priority b"

definition NewTransactionHeap :: Heap where
  "NewTransactionHeap = heap_Init Heap_Less []"

definition Heap_Add :: "Heap \<Rightarrow> u32 \<Rightarrow> Transaction option \<Rightarrow> Heap" where
  "Heap_Add h p t =
     (case t of None \<Rightarrow> h
      | Some t \<Rightarrow> heap_Push Heap_Less h \<lparr>Priority = p, n_Transaction = t\<rparr>)"

text \<open>\<open>(*h)[0]\<close> panics on an empty heap.\<close>

definition Heap_GetFirst :: "Heap \<Rightarrow> HeapNode option" where
  "Heap_GetFirst h = slice_get h 0"

definition Heap_IncrementAll :: "Heap \<Rightarrow> Heap" where
  "Heap_IncrementAll h = map (\<lambda>n. n\<lparr>Priority := Priority n + 1\<rparr>) h"

definition Heap_Len :: "Heap \<Rightarrow> nat" where
  "Heap_Len h = length h"

text \<open>The methods \<open>Pop\<close> and \<open>Peek\<close> work on the last array element; both panic when empty.\<close>

definition Heap_Pop :: "Heap \<Rightarrow> (HeapNode \<times> Heap) option" where
  "Heap_Pop h = (if h = [] then None else Some (last h, butlast h))"

definition Heap_Peek :: "Heap \<Rightarrow> HeapNode option" where
  "Heap_Peek h = (if h = [] then None else Some (last h))"

primrec index_by_hash :: "('db, 'z) ext_scheme \<Rightarrow> string \<Rightarrow> Heap \<Rightarrow> nat \<Rightarrow> nat option" where
  "index_by_hash E hash [] i = None"
| "index_by_hash E hash (v # vs) i =
     (if Transaction_Hash E (n_Transaction v) = hash then Some i
      else index_by_hash E hash vs (i + 1))"

text \<open>\<open>GetIndex\<close> returns \<open>(0, false)\<close> when the transaction is nil or absent.\<close>

definition Heap_GetIndex ::
  "('db, 'z) ext_scheme \<Rightarrow> Heap \<Rightarrow> Transaction option \<Rightarrow> nat \<times> bool" where
  "Heap_GetIndex E h t =
     (case t of
        None \<Rightarrow> (0, False)
      | Some t \<Rightarrow>
          (case index_by_hash E (Transaction_Hash E t) h 0 of
             Some i \<Rightarrow> (i, True)
           | None \<Rightarrow> (0, False)))"

definition Heap_Has :: "('db, 'z) ext_scheme \<Rightarrow> Heap \<Rightarrow> Transaction option \<Rightarrow> bool" where
  "Heap_Has E h t =
     (case t of
        None \<Rightarrow> False
      | Some t \<Rightarrow>
          list_ex (\<lambda>v. Transaction_Hash E (n_Transaction v) = Transaction_Hash E t) h)"

text \<open>
  The loop of \<open>Remove\<close>: the found node is swapped with the last one and cut off. A nil
  entry returns at once, with the heap as it is and without the final \<open>heap.Init\<close>.
\<close>

fun remove_loop ::
  "('db, 'z) ext_scheme \<Rightarrow> Heap \<Rightarrow> Transaction option list \<Rightarrow> Transaction list \<Rightarrow> u32 \<Rightarrow>
   Heap \<times> Transaction list \<times> u32" where
  "remove_loop E h [] r totalPri = (heap_Init Heap_Less h, r, totalPri)"
| "remove_loop E h (None # ts) r totalPri = (h, [], totalPri)"
| "remove_loop E h (Some t # ts) r totalPri =
     (let (i, isIn) = Heap_GetIndex E h (Some t) in
      if isIn
      then remove_loop E (butlast (swap h i (length h - 1))) ts (r @ [t]) (totalPri + Priority (h ! i))
      else remove_loop E h ts r totalPri)"

definition Heap_Remove ::
  "('db, 'z) ext_scheme \<Rightarrow> Heap \<Rightarrow> Transaction option list \<Rightarrow> Heap \<times> Transaction list \<times> u32" where
  "Heap_Remove E h ts = remove_loop E h ts [] 0"

definition Heap_RemoveAboveThreshold ::
  "('db, 'z) ext_scheme \<Rightarrow> Heap \<Rightarrow> u32 \<Rightarrow> Heap \<times> Transaction list" where
  "Heap_RemoveAboveThreshold E h threshold =
     (let rem = map n_Transaction (filter (\<lambda>v. Priority v \<ge> threshold) h)
      in (fst (Heap_Remove E h (map Some rem)), rem))"

section \<open>Heap order\<close>

text \<open>No node comes before its parent \<open>(i - 1) div 2\<close>.\<close>

definition is_heap :: "('a \<Rightarrow> 'a \<Rightarrow> bool) \<Rightarrow> 'a list \<Rightarrow> bool" where
  "is_heap lt h \<longleftrightarrow> (\<forall>k < length h. 0 < k \<longrightarrow> \<not> lt (h ! k) (h ! ((k - 1) div 2)))"

text \<open>The order holds below \<open>s\<close>: for every node whose parent is at or after \<open>s\<close>.\<close>

definition heap_from :: "('a \<Rightarrow> 'a \<Rightarrow> bool) \<Rightarrow> nat \<Rightarrow> 'a list \<Rightarrow> bool" where
  "heap_from lt s h \<longleftrightarrow>
     (\<forall>k < length h. 0 < k \<longrightarrow> s \<le> (k - 1) div 2 \<longrightarrow> \<not> lt (h ! k) (h ! ((k - 1) div 2)))"

text \<open>One defect at \<open>j\<close>, to be repaired upwards.\<close>

definition up_inv :: "('a \<Rightarrow> 'a \<Rightarrow> bool) \<Rightarrow> 'a list \<Rightarrow> nat \<Rightarrow> bool" where
  "up_inv lt h j \<longleftrightarrow> j < length h \<and>
     (\<forall>k < length h. 0 < k \<longrightarrow> k \<noteq> j \<longrightarrow> \<not> lt (h ! k) (h ! ((k - 1) div 2))) \<and>
     (\<forall>k < length h. 0 < k \<longrightarrow> (k - 1) div 2 = j \<longrightarrow> 0 < j \<longrightarrow> \<not> lt (h ! k) (h ! ((j - 1) div 2)))"

text \<open>One defect between \<open>i\<close> and its children, to be repaired downwards.\<close>

definition down_inv :: "('a \<Rightarrow> 'a \<Rightarrow> bool) \<Rightarrow> nat \<Rightarrow> 'a list \<Rightarrow> nat \<Rightarrow> bool" where
  "down_inv lt s h i \<longleftrightarrow> s \<le> i \<and>
     (\<forall>k < length h. 0 < k \<longrightarrow> s \<le> (k - 1) div 2 \<longrightarrow> (k - 1) div 2 \<noteq> i \<longrightarrow>
        \<not> lt (h ! k) (h ! ((k - 1) div 2))) \<and>
     (\<forall>k < length h. 0 < k \<longrightarrow> (k - 1) div 2 = i \<longrightarrow> 0 < i \<longrightarrow> s \<le> (i - 1) div 2 \<longrightarrow>
        \<not> lt (h ! k) (h ! ((i - 1) div 2)))"

lemma child_cases: "0 < k \<Longrightarrow> (k - 1) div 2 = i \<Longrightarrow> k = 2 * i + 1 \<or> k = 2 * i + 2"
  for k i :: nat
  by arith

lemma length_heap_up [simp]: "length (heap_up lt h j) = length h"
  by (induction lt h j rule: heap_up.induct) (subst heap_up.simps, auto simp: Let_def)

lemma length_heap_down [simp]: "length (heap_down lt h i n) = length h"
  by (induction lt h i n rule: heap_down.induct) (subst heap_down.simps, auto simp: Let_def)

lemma mset_heap_up [simp]: "j < length h \<Longrightarrow> mset (heap_up lt h j) = mset h"
proof (induction lt h j rule: heap_up.induct)
  case (1 lt h j)
  let ?i = "(j - 1) div 2"
  have "?i < length h" using "1.prems" by linarith
  with 1 show ?case by (subst heap_up.simps) (auto simp: Let_def)
qed

lemma mset_heap_down [simp]:
  "i < length h \<Longrightarrow> n \<le> length h \<Longrightarrow> mset (heap_down lt h i n) = mset h"
proof (induction lt h i n rule: heap_down.induct)
  case (1 lt h i n)
  then show ?case by (subst heap_down.simps) (auto simp: Let_def)
qed

lemma length_foldl_down [simp]:
  "length (foldl (\<lambda>h i. heap_down lt h i n) h is) = length h"
  by (induction "is" arbitrary: h) simp_all

lemma mset_foldl_down:
  "n \<le> length h \<Longrightarrow> \<forall>i \<in> set is. i < length h \<Longrightarrow>
   mset (foldl (\<lambda>h i. heap_down lt h i n) h is) = mset h"
  by (induction "is" arbitrary: h) simp_all

lemma mset_heap_Init [simp]: "mset (heap_Init lt h) = mset h"
  by (auto simp: heap_Init_def Let_def intro!: mset_foldl_down)

lemma mset_heap_Push [simp]: "mset (heap_Push lt h x) = add_mset x (mset h)"
  by (simp add: heap_Push_def)

section \<open>The contract of heap.Interface\<close>

locale heap_order =
  fixes lt :: "'a \<Rightarrow> 'a \<Rightarrow> bool"
  assumes lt_asym: "lt x y \<Longrightarrow> \<not> lt y x"
    and lt_neg_trans: "\<not> lt x y \<Longrightarrow> \<not> lt y z \<Longrightarrow> \<not> lt x z"
begin

lemma up_step:
  assumes inv: "up_inv lt h j" and ne: "(j - 1) div 2 \<noteq> j" and lt: "lt (h ! j) (h ! ((j - 1) div 2))"
  shows "up_inv lt (swap h ((j - 1) div 2) j) ((j - 1) div 2)"
proof -
  define i where "i = (j - 1) div 2"
  from ne have ij: "i < j" unfolding i_def by arith
  from inv have j: "j < length h" by (simp add: up_inv_def)
  have ok: "\<not> lt (h ! k) (h ! ((k - 1) div 2))" if "k < length h" "0 < k" "k \<noteq> j" for k
    using inv that by (simp add: up_inv_def)
  have grand: "\<not> lt (h ! k) (h ! i)" if "k < length h" "0 < k" "(k - 1) div 2 = j" for k
    using inv that ij by (simp add: up_inv_def i_def)
  have asy: "\<not> lt (h ! i) (h ! j)" using lt lt_asym by (simp add: i_def)
  have sw: "swap h i j ! k = (if k = i then h ! j else if k = j then h ! i else h ! k)"
    if "k < length h" for k
    using that ij j by (simp add: swap_nth)
  have "\<not> lt (swap h i j ! k) (swap h i j ! ((k - 1) div 2))"
    if k: "k < length h" "0 < k" "k \<noteq> i" for k
  proof -
    have p: "(k - 1) div 2 < length h" using k by linarith
    consider "k = j" | "k \<noteq> j" "(k - 1) div 2 = i" | "k \<noteq> j" "(k - 1) div 2 = j"
      | "k \<noteq> j" "(k - 1) div 2 \<noteq> i" "(k - 1) div 2 \<noteq> j" by blast
    then show ?thesis
    proof cases
      case 1
      then show ?thesis using asy sw [OF k(1)] sw [OF p] ij i_def by auto
    next
      case 2
      then show ?thesis using ok [OF k(1,2)] asy lt_neg_trans sw [OF k(1)] sw [OF p] k by auto
    next
      case 3
      then show ?thesis using grand [OF k(1,2)] sw [OF k(1)] sw [OF p] k ij by auto
    next
      case 4
      then show ?thesis using ok [OF k(1,2)] sw [OF k(1)] sw [OF p] k by auto
    qed
  qed
  moreover have "\<not> lt (swap h i j ! k) (swap h i j ! ((i - 1) div 2))"
    if k: "k < length h" "0 < k" "(k - 1) div 2 = i" "0 < i" for k
  proof -
    have p: "(i - 1) div 2 < i" using k(4) by linarith
    have "\<not> lt (h ! i) (h ! ((i - 1) div 2))" using ok [of i] k(4) ij j by simp
    moreover have "\<not> lt (h ! k) (h ! i)" if "k \<noteq> j" using ok [OF k(1,2) that] k(3) by simp
    moreover have "k \<noteq> i" using k by arith
    ultimately show ?thesis
      using sw [OF k(1)] sw [of "(i - 1) div 2"] p ij j lt_neg_trans by auto
  qed
  ultimately have "up_inv lt (swap h i j) i" using ij j by (simp add: up_inv_def)
  then show ?thesis by (simp only: i_def)
qed

lemma heap_up_restores: "up_inv lt h j \<Longrightarrow> is_heap lt (heap_up lt h j)"
proof (induction j arbitrary: h rule: less_induct)
  case (less j)
  let ?i = "(j - 1) div 2"
  show ?case
  proof (cases "?i = j \<or> \<not> lt (h ! j) (h ! ?i)")
    case True
    then have "heap_up lt h j = h" by (subst heap_up.simps) (auto simp: Let_def)
    moreover have "is_heap lt h"
      using less.prems True by (auto simp: up_inv_def is_heap_def)
    ultimately show ?thesis by simp
  next
    case False
    then have "heap_up lt h j = heap_up lt (swap h ?i j) ?i"
      by (subst heap_up.simps) (auto simp: Let_def)
    moreover have "?i < j" using False by arith
    ultimately show ?thesis using less.IH less.prems False up_step by simp
  qed
qed

lemma down_step:
  assumes inv: "down_inv lt s h i" and j: "j = 2 * i + 1 \<or> j = 2 * i + 2" "j < length h"
    and best: "\<And>k. k < length h \<Longrightarrow> 0 < k \<Longrightarrow> (k - 1) div 2 = i \<Longrightarrow> \<not> lt (h ! k) (h ! j)"
    and lt: "lt (h ! j) (h ! i)"
  shows "down_inv lt s (swap h i j) j"
proof -
  have pj: "(j - 1) div 2 = i" "0 < j" "i < j" using j by auto
  have sw: "swap h i j ! k = (if k = i then h ! j else if k = j then h ! i else h ! k)"
    if "k < length h" for k
    using that pj j by (simp add: swap_nth)
  have ok: "\<not> lt (h ! k) (h ! ((k - 1) div 2))"
    if "k < length h" "0 < k" "s \<le> (k - 1) div 2" "(k - 1) div 2 \<noteq> i" for k
    using inv that by (simp add: down_inv_def)
  have grand: "\<not> lt (h ! j) (h ! ((i - 1) div 2))" if "0 < i" "s \<le> (i - 1) div 2"
    using inv that pj j by (simp add: down_inv_def)
  have "\<not> lt (swap h i j ! k) (swap h i j ! ((k - 1) div 2))"
    if k: "k < length h" "0 < k" "s \<le> (k - 1) div 2" "(k - 1) div 2 \<noteq> j" for k
  proof -
    have p: "(k - 1) div 2 < length h" "(k - 1) div 2 < k" using k by linarith+
    consider "(k - 1) div 2 = i" | "k = i" | "(k - 1) div 2 \<noteq> i" "k \<noteq> i" by blast
    then show ?thesis
    proof cases
      case 1
      then show ?thesis
        using best [OF k(1,2)] lt lt_asym sw [OF k(1)] sw [OF p(1)] k(2) p(2) by auto
    next
      case 2
      then show ?thesis using grand sw [OF k(1)] sw [OF p(1)] k p pj by auto
    next
      case 3
      then show ?thesis using ok [OF k(1,2,3)] sw [OF k(1)] sw [OF p(1)] k pj by auto
    qed
  qed
  moreover have "\<not> lt (swap h i j ! k) (swap h i j ! ((j - 1) div 2))"
    if k: "k < length h" "0 < k" "(k - 1) div 2 = j" "s \<le> (j - 1) div 2" for k
  proof -
    have "s \<le> (k - 1) div 2" "k \<noteq> i" "k \<noteq> j" using k pj by linarith+
    then show ?thesis
      using ok [of k] k pj sw [OF k(1)] sw [of i] j by auto
  qed
  moreover have "s \<le> j" using inv pj by (simp add: down_inv_def)
  ultimately show ?thesis by (simp add: down_inv_def)
qed

lemma down_done:
  assumes inv: "down_inv lt s h i"
    and best: "\<And>k. k < length h \<Longrightarrow> 0 < k \<Longrightarrow> (k - 1) div 2 = i \<Longrightarrow> \<not> lt (h ! k) (h ! i)"
  shows "heap_from lt s h"
  unfolding heap_from_def
proof (intro allI impI)
  fix k
  assume k: "k < length h" "0 < k" "s \<le> (k - 1) div 2"
  show "\<not> lt (h ! k) (h ! ((k - 1) div 2))"
    using k inv best [OF k(1,2)] by (cases "(k - 1) div 2 = i") (auto simp: down_inv_def)
qed

lemma heap_down_restores:
  "down_inv lt s h i \<Longrightarrow> heap_from lt s (heap_down lt h i (length h))"
proof (induction "length h - i" arbitrary: h i rule: less_induct)
  case less
  let ?j1 = "2 * i + 1"
  let ?j = "if ?j1 + 1 < length h \<and> lt (h ! (?j1 + 1)) (h ! ?j1) then ?j1 + 1 else ?j1"
  have best: "\<not> lt (h ! k) (h ! ?j)" if "k < length h" "0 < k" "(k - 1) div 2 = i" for k
    using child_cases [OF that(2,3)] that(1) lt_asym by auto
  show ?case
  proof (cases "?j1 \<ge> length h \<or> \<not> lt (h ! ?j) (h ! i)")
    case True
    then have "heap_down lt h i (length h) = h"
      by (subst heap_down.simps) (auto simp: Let_def)
    moreover have "\<not> lt (h ! k) (h ! i)" if "k < length h" "0 < k" "(k - 1) div 2 = i" for k
    proof -
      have "\<not> ?j1 \<ge> length h" using child_cases [OF that(2,3)] that(1) by linarith
      with True have "\<not> lt (h ! ?j) (h ! i)" by blast
      with best [OF that] show ?thesis by (rule lt_neg_trans)
    qed
    ultimately show ?thesis using down_done [OF less.prems] by simp
  next
    case False
    then have eq: "heap_down lt h i (length h) = heap_down lt (swap h i ?j) ?j (length h)"
      by (subst heap_down.simps) (auto simp: Let_def)
    have j: "?j = 2 * i + 1 \<or> ?j = 2 * i + 2" "?j < length h" using False by auto
    have "down_inv lt s (swap h i ?j) ?j"
      using down_step [OF less.prems j best] False by blast
    moreover have "length (swap h i ?j) - ?j < length h - i" using j by auto
    ultimately show ?thesis using less.hyps [of "swap h i ?j" ?j] eq by simp
  qed
qed

lemma heap_Init_is_heap: "is_heap lt (heap_Init lt h)"
proof -
  have all: "heap_from lt 0 (foldl (\<lambda>g i. heap_down lt g i (length g)) g (rev [0..<m]))"
    if "heap_from lt m g" for m g
    using that
  proof (induction m arbitrary: g)
    case (Suc m)
    have "down_inv lt m g m" using Suc.prems by (auto simp: heap_from_def down_inv_def)
    from heap_down_restores [OF this] Suc.IH show ?case by simp
  qed simp
  have start: "heap_from lt (length h div 2) h"
    unfolding heap_from_def by (intro allI impI) linarith
  have len: "foldl (\<lambda>g i. heap_down lt g i (length g)) g is =
      foldl (\<lambda>g i. heap_down lt g i n) g is" if "length g = n" for g n "is"
    using that by (induction "is" arbitrary: g) auto
  have "heap_from lt 0 (heap_Init lt h)"
    unfolding heap_Init_def Let_def using all [OF start] len [OF refl, of h] by simp
  then show ?thesis by (simp add: heap_from_def is_heap_def)
qed

lemma heap_Push_is_heap: "is_heap lt h \<Longrightarrow> is_heap lt (heap_Push lt h x)"
proof -
  assume h: "is_heap lt h"
  have "up_inv lt (h @ [x]) (length h)"
    unfolding up_inv_def
  proof (intro conjI allI impI)
    fix k
    assume "k < length (h @ [x])" "0 < k" "k \<noteq> length h"
    then show "\<not> lt ((h @ [x]) ! k) ((h @ [x]) ! ((k - 1) div 2))"
      using h by (auto simp: is_heap_def nth_append)
  next
    fix k
    assume "k < length (h @ [x])" "0 < k" "(k - 1) div 2 = length h" "0 < length h"
    then show "\<not> lt ((h @ [x]) ! k) ((h @ [x]) ! ((length h - 1) div 2))" by simp
  qed simp
  then show ?thesis unfolding heap_Push_def by (rule heap_up_restores)
qed

lemma heap_root_first: "is_heap lt h \<Longrightarrow> k < length h \<Longrightarrow> \<not> lt (h ! k) (h ! 0)"
proof (induction k rule: less_induct)
  case (less k)
  show ?case
  proof (cases "k = 0")
    case True
    then show ?thesis using lt_asym by blast
  next
    case False
    then have "(k - 1) div 2 < k" by linarith
    moreover have "\<not> lt (h ! k) (h ! ((k - 1) div 2))"
      using False less.prems by (simp add: is_heap_def)
    ultimately show ?thesis using less.IH less.prems lt_neg_trans by fastforce
  qed
qed

end

interpretation txheap: heap_order Heap_Less
  by unfold_locales (auto simp: Heap_Less_def)

section \<open>Adding and reading\<close>

text \<open>
  Adding a transaction keeps the heap order and changes the contents by exactly the
  new node; a nil transaction leaves the heap as it is.
\<close>

theorem heap_add_correct:
  assumes "is_heap Heap_Less h"
  shows "is_heap Heap_Less (Heap_Add h p (Some t)) \<and>
    mset (Heap_Add h p (Some t)) = add_mset \<lparr>Priority = p, n_Transaction = t\<rparr> (mset h) \<and>
    Heap_Add h p None = h"
  using assms txheap.heap_Push_is_heap by (simp add: Heap_Add_def)

text \<open>
  In a heap the first element has the highest priority, and reading it panics exactly
  when the heap is empty.
\<close>

theorem heap_first_is_max:
  assumes "is_heap Heap_Less h"
  shows "case Heap_GetFirst h of
      None \<Rightarrow> h = []
    | Some n \<Rightarrow> n \<in> set h \<and> (\<forall>m \<in> set h. Priority m \<le> Priority n)"
proof (cases "h = []")
  case False
  have "Priority m \<le> Priority (h ! 0)" if m: "m \<in> set h" for m
  proof -
    obtain k where "k < length h" and "m = h ! k" using m by (auto simp: in_set_conv_nth)
    then show ?thesis using txheap.heap_root_first [OF assms, of k] by (simp add: Heap_Less_def)
  qed
  then show ?thesis using False by (simp add: Heap_GetFirst_def slice_get_def)
qed (simp add: Heap_GetFirst_def slice_get_def)

text \<open>
  Incrementing every priority keeps the heap order as long as no priority wraps around.
\<close>

lemma heap_increment_no_wrap:
  assumes "is_heap Heap_Less h" and "\<forall>n \<in> set h. Priority n < 4294967295"
  shows "is_heap Heap_Less (Heap_IncrementAll h)"
  unfolding is_heap_def
proof (intro allI impI)
  fix k
  assume k: "k < length (Heap_IncrementAll h)" "0 < k"
  let ?p = "(k - 1) div 2"
  have len: "k < length h" "?p < length h" using k by (simp_all add: Heap_IncrementAll_def)
  then have "Priority (h ! k) \<le> Priority (h ! ?p)" "Priority (h ! ?p) < 4294967295"
    using assms k by (auto simp: is_heap_def Heap_Less_def)
  moreover from this have "Priority (h ! k) < 4294967295" by simp
  ultimately have "Priority (h ! k) + 1 \<le> Priority (h ! ?p) + 1"
    by (simp add: word_le_nat_alt u32_inc)
  then show "\<not> Heap_Less (Heap_IncrementAll h ! k) (Heap_IncrementAll h ! ?p)"
    using len by (simp add: Heap_IncrementAll_def Heap_Less_def)
qed

section \<open>Removing\<close>

abbreviation node_hash :: "('db, 'z) ext_scheme \<Rightarrow> HeapNode \<Rightarrow> string" where
  "node_hash E n \<equiv> Transaction_Hash E (n_Transaction n)"

lemma index_by_hash_Some:
  "index_by_hash E x h k = Some i \<Longrightarrow> k \<le> i \<and> i - k < length h \<and> node_hash E (h ! (i - k)) = x"
proof (induction h arbitrary: k)
  case (Cons v h)
  then show ?case by (fastforce split: if_splits simp: nth_Cons')
qed simp

lemma index_by_hash_None: "index_by_hash E x h k = None \<longleftrightarrow> x \<notin> node_hash E ` set h"
  by (induction h arbitrary: k) auto

lemma Heap_GetIndex_True:
  "Heap_GetIndex E h (Some t) = (i, b) \<Longrightarrow> b \<Longrightarrow>
   i < length h \<and> node_hash E (h ! i) = Transaction_Hash E t"
  by (auto simp: Heap_GetIndex_def split: option.splits dest: index_by_hash_Some)

lemma Heap_GetIndex_False:
  "Heap_GetIndex E h (Some t) = (i, b) \<Longrightarrow> \<not> b \<Longrightarrow> Transaction_Hash E t \<notin> node_hash E ` set h"
  by (auto simp: Heap_GetIndex_def index_by_hash_None split: option.splits)

lemma Heap_Has_GetIndex: "Heap_Has E h (Some t) = snd (Heap_GetIndex E h (Some t))"
proof (cases "index_by_hash E (Transaction_Hash E t) h 0")
  case None
  then have "\<forall>v \<in> set h. node_hash E v \<noteq> Transaction_Hash E t"
    by (force simp: index_by_hash_None image_iff)
  with None show ?thesis by (auto simp: Heap_Has_def Heap_GetIndex_def list_ex_iff)
next
  case (Some i)
  then show ?thesis
    using index_by_hash_Some [OF Some] by (auto simp: Heap_Has_def Heap_GetIndex_def list_ex_iff)
qed

lemma mset_cut:
  assumes "i < length h"
  shows "mset h = add_mset (h ! i) (mset (butlast (swap h i (length h - 1))))"
proof -
  let ?s = "swap h i (length h - 1)"
  have ne: "?s \<noteq> []" "length h - 1 < length h" using assms by (auto simp flip: length_greater_0_conv)
  have "last ?s = h ! i" using assms ne by (simp add: last_conv_nth swap_nth)
  then have "mset ?s = add_mset (h ! i) (mset (butlast ?s))"
    using append_butlast_last_id [OF ne(1)] by (metis mset.simps(2) mset_append add_mset_add_single
        union_commute mset_single_iff_right mset.simps(1))
  then show ?thesis using assms ne by simp
qed

lemma remove_loop_spec:
  "None \<notin> set ts \<Longrightarrow> remove_loop E h ts r p = (h', r', p') \<Longrightarrow>
   \<exists>ns rs. r' = r @ rs \<and> map (node_hash E) ns = map (Transaction_Hash E) rs \<and>
     mset h = mset h' + mset ns \<and> p' = p + sum_list (map Priority ns) \<and>
     Some ` set rs \<subseteq> set ts \<and> is_heap Heap_Less h'"
proof (induction E h ts r p rule: remove_loop.induct)
  case (1 E h r totalPri)
  then show ?case by (auto intro!: exI [of _ "[]"] txheap.heap_Init_is_heap)
next
  case (3 E h t ts r totalPri)
  obtain i b where ib: "Heap_GetIndex E h (Some t) = (i, b)" by fastforce
  show ?case
  proof (cases b)
    case True
    have i: "i < length h" "node_hash E (h ! i) = Transaction_Hash E t"
      using Heap_GetIndex_True [OF ib True] by blast+
    obtain ns rs where "r' = (r @ [t]) @ rs"
      "map (node_hash E) ns = map (Transaction_Hash E) rs"
      "mset (butlast (swap h i (length h - 1))) = mset h' + mset ns"
      "p' = totalPri + Priority (h ! i) + sum_list (map Priority ns)"
      "Some ` set rs \<subseteq> set ts" "is_heap Heap_Less h'"
      using "3.IH"(1) [OF ib [symmetric] refl True] "3.prems" True ib by (auto simp: Let_def)
    then show ?thesis
      using i mset_cut [OF i(1)]
      by (intro exI [of _ "h ! i # ns"] exI [of _ "t # rs"]) (auto simp: add.assoc)
  next
    case False
    then show ?thesis using "3.IH"(2) [OF ib [symmetric] refl] "3.prems" ib by fastforce
  qed
qed simp

lemma Heap_Remove_spec:
  assumes "Heap_Remove E h (map Some ts) = (h', removed, pri)"
  shows "\<exists>ns. mset h = mset h' + mset ns \<and> map (node_hash E) ns = map (Transaction_Hash E) removed \<and>
     pri = sum_list (map Priority ns) \<and> set removed \<subseteq> set ts \<and> is_heap Heap_Less h'"
proof -
  have "None \<notin> set (map Some ts)" by auto
  from remove_loop_spec [OF this assms [unfolded Heap_Remove_def]] show ?thesis by auto
qed

text \<open>
  \<open>Remove\<close> on transactions that are not nil: some nodes leave the heap, one for each
  transaction reported as removed and with its hash, the reported priority is the sum of the
  priorities of those nodes (modulo \<open>2^32\<close>), nothing else is lost, and the array is a heap
  again, whatever it was before.
\<close>

theorem heap_remove_correct:
  assumes "Heap_Remove E h (map Some ts) = (h', removed, pri)"
  shows "\<exists>ns. mset h = mset h' + mset ns \<and> map (node_hash E) ns = map (Transaction_Hash E) removed \<and>
     pri = sum_list (map Priority ns) \<and> set removed \<subseteq> set ts \<and> is_heap Heap_Less h'"
  using Heap_Remove_spec [OF assms] .

lemma remove_loop_hashes:
  "remove_loop E h ts r p = (h', r', p') \<Longrightarrow> node_hash E ` set h' \<subseteq> node_hash E ` set h"
proof (induction E h ts r p rule: remove_loop.induct)
  case (1 E h r totalPri)
  then have "mset h' = mset h" by auto
  then show ?case by (metis order_refl set_mset_mset)
next
  case (3 E h t ts r totalPri)
  obtain i b where ib: "Heap_GetIndex E h (Some t) = (i, b)" by fastforce
  show ?case
  proof (cases b)
    case True
    have i: "i < length h" using Heap_GetIndex_True [OF ib True] by blast
    have "set (butlast (swap h i (length h - 1))) \<subseteq> set h"
      using arg_cong [OF mset_cut [OF i], of set_mset] by auto
    then have "node_hash E ` set (butlast (swap h i (length h - 1))) \<subseteq> node_hash E ` set h"
      by (rule image_mono)
    moreover have "node_hash E ` set h' \<subseteq> node_hash E ` set (butlast (swap h i (length h - 1)))"
      using "3.IH"(1) [OF ib [symmetric] refl True] "3.prems" True ib by simp
    ultimately show ?thesis by (rule order_trans [rotated])
  next
    case False
    then show ?thesis using "3.IH"(2) [OF ib [symmetric] refl] "3.prems" ib by simp
  qed
qed simp

lemma remove_loop_gone:
  "remove_loop E h ts r p = (h', r', p') \<Longrightarrow> distinct (map (node_hash E) h) \<Longrightarrow> None \<notin> set ts \<Longrightarrow>
   Some t \<in> set ts \<Longrightarrow> Transaction_Hash E t \<notin> node_hash E ` set h'"
proof (induction E h ts r p rule: remove_loop.induct)
  case (3 E h u ts r totalPri)
  obtain i b where ib: "Heap_GetIndex E h (Some u) = (i, b)" by fastforce
  let ?h = "butlast (swap h i (length h - 1))"
  show ?case
  proof (cases b)
    case True
    have i: "i < length h" "node_hash E (h ! i) = Transaction_Hash E u"
      using Heap_GetIndex_True [OF ib True] by blast+
    have "mset (map (node_hash E) h) = add_mset (Transaction_Hash E u) (mset (map (node_hash E) ?h))"
      using arg_cong [OF mset_cut [OF i(1)], of "image_mset (node_hash E)"] i(2) by simp
    then have d: "distinct (map (node_hash E) ?h)" "Transaction_Hash E u \<notin> node_hash E ` set ?h"
      using "3.prems"(2) by (metis distinct.simps(2) mset.simps(2) mset_eq_imp_distinct_iff set_map)+
    have rec: "remove_loop E ?h ts (r @ [u]) (totalPri + Priority (h ! i)) = (h', r', p')"
      using "3.prems"(1) ib True by simp
    show ?thesis
    proof (cases "Some t \<in> set ts")
      case True
      then show ?thesis using "3.IH"(1) [OF ib [symmetric] refl \<open>b\<close> rec d(1)] "3.prems"(3) by simp
    next
      case False
      then have "t = u" using "3.prems"(4) by simp
      then show ?thesis using remove_loop_hashes [OF rec] d(2) by blast
    qed
  next
    case False
    have rec: "remove_loop E h ts r totalPri = (h', r', p')" using "3.prems"(1) ib False by simp
    have "Transaction_Hash E u \<notin> node_hash E ` set h'"
      using Heap_GetIndex_False [OF ib False] remove_loop_hashes [OF rec] by blast
    then show ?thesis using "3.IH"(2) [OF ib [symmetric] refl False rec] "3.prems" by auto
  qed
qed simp_all

text \<open>
  When the heap holds no transaction twice, none of the transactions passed to
  \<open>Remove\<close> is in the heap afterwards.
\<close>

theorem heap_remove_complete:
  assumes "Heap_Remove E h (map Some ts) = (h', removed, pri)" and "distinct (map (node_hash E) h)"
  shows "\<forall>t \<in> set ts. \<not> Heap_Has E h' (Some t)"
proof
  fix t
  assume "t \<in> set ts"
  then have "Transaction_Hash E t \<notin> node_hash E ` set h'"
    using remove_loop_gone [OF assms(1) [unfolded Heap_Remove_def] assms(2), of t] by auto
  then show "\<not> Heap_Has E h' (Some t)" by (auto simp: Heap_Has_def list_ex_iff image_iff)
qed

lemma heap_remove_msets:
  assumes rem: "Heap_Remove E h (map Some (map n_Transaction rs)) = (h', removed, pri)"
    and dist: "distinct (map (node_hash E) h)" and sub: "set rs \<subseteq> set h"
  shows "set h' = set h - set rs \<and> distinct h'"
proof -
  obtain ns where ns: "mset h = mset h' + mset ns"
    "map (node_hash E) ns = map (Transaction_Hash E) removed" "set removed \<subseteq> n_Transaction ` set rs"
    using Heap_Remove_spec [OF rem] by auto
  have inj: "inj_on (node_hash E) (set h)" and dh: "distinct h"
    using dist by (simp_all add: distinct_map)
  have sets: "set h = set h' \<union> set ns" by (metis ns(1) set_mset_mset set_mset_union)
  have "distinct (h' @ ns)" using dh ns(1) by (metis mset_append mset_eq_imp_distinct_iff)
  then have disj: "set h' \<inter> set ns = {}" and d: "distinct h'" by auto
  have "set ns \<subseteq> set rs"
  proof
    fix n
    assume n: "n \<in> set ns"
    then have "node_hash E n \<in> Transaction_Hash E ` set removed"
      using ns(2) by (metis image_set image_eqI)
    then obtain r where "r \<in> set rs" "node_hash E n = node_hash E r" using ns(3) by auto
    then show "n \<in> set rs" using inj n sub sets by (metis UnCI inj_onD subsetD)
  qed
  moreover have "r \<notin> set h'" if "r \<in> set rs" for r
  proof -
    have "None \<notin> set (map Some (map n_Transaction rs))"
      "Some (n_Transaction r) \<in> set (map Some (map n_Transaction rs))" using that by auto
    from remove_loop_gone [OF rem [unfolded Heap_Remove_def] dist this] show ?thesis by blast
  qed
  ultimately show ?thesis using sets disj sub d by blast
qed

text \<open>
  On a heap without duplicate transactions \<open>RemoveAboveThreshold\<close> keeps exactly the
  nodes below the threshold, returns the transactions of the others, and leaves a heap.
\<close>

theorem heap_remove_above_threshold:
  assumes "distinct (map (node_hash E) h)" and "Heap_RemoveAboveThreshold E h threshold = (h', rem)"
  shows "mset h' = filter_mset (\<lambda>n. Priority n < threshold) (mset h) \<and>
    rem = map n_Transaction (filter (\<lambda>n. threshold \<le> Priority n) h) \<and> is_heap Heap_Less h'"
proof -
  let ?rs = "filter (\<lambda>n. threshold \<le> Priority n) h"
  obtain removed pri where r: "Heap_Remove E h (map Some (map n_Transaction ?rs)) = (h', removed, pri)"
    and rem: "rem = map n_Transaction ?rs"
    using assms(2) by (cases "Heap_Remove E h (map Some (map n_Transaction ?rs))")
      (auto simp: Heap_RemoveAboveThreshold_def Let_def)
  have sub: "set ?rs \<subseteq> set h" by (rule filter_is_subset)
  have h': "set h' = set h - set ?rs" "distinct h'"
    using heap_remove_msets [OF r assms(1) sub] by simp_all
  have "set h' = set (filter (\<lambda>n. Priority n < threshold) h)"
    unfolding h'(1) by (auto simp: not_le)
  moreover have "distinct (filter (\<lambda>n. Priority n < threshold) h)"
    using assms(1) by (simp add: distinct_map)
  ultimately have "mset h' = mset (filter (\<lambda>n. Priority n < threshold) h)"
    using h'(2) set_eq_iff_mset_eq_distinct by blast
  moreover have "is_heap Heap_Less h'" using Heap_Remove_spec [OF r] by blast
  ultimately show ?thesis using rem by simp
qed

text \<open>
  \<open>Peek\<close>, documented as returning the top element, returns the last array element: on a heap
  of two nodes it is the one with the lower priority.
\<close>

definition sample_heap :: Heap where
  "sample_heap = [\<lparr>Priority = 9, n_Transaction = sample_tx 1\<rparr>, \<lparr>Priority = 4, n_Transaction = sample_tx 2\<rparr>]"

lemma sample_heap_is_heap: "is_heap Heap_Less sample_heap"
  by (simp add: is_heap_def sample_heap_def Heap_Less_def less_Suc_eq)

lemma heap_peek_is_not_top:
  "is_heap Heap_Less sample_heap \<and> map_option Priority (Heap_GetFirst sample_heap) = Some 9 \<and>
   map_option Priority (Heap_Peek sample_heap) = Some 4"
  using sample_heap_is_heap
  by (simp add: Heap_GetFirst_def Heap_Peek_def slice_get_def sample_heap_def)

section \<open>Instances\<close>

theorem heap_add_correct_witness:
  "is_heap Heap_Less (Heap_Add sample_heap 7 (Some (sample_tx 3))) \<and>
   size (mset (Heap_Add sample_heap 7 (Some (sample_tx 3)))) = 3"
  using heap_add_correct [OF sample_heap_is_heap, of 7 "sample_tx 3"] by (simp add: sample_heap_def)

theorem heap_first_is_max_witness: "\<exists>n. Heap_GetFirst sample_heap = Some n \<and> Priority n = 9"
  using heap_first_is_max [OF sample_heap_is_heap]
  by (auto simp: sample_heap_def Heap_GetFirst_def slice_get_def)

lemma sample_heap_distinct: "distinct (map (node_hash ref_ext) sample_heap)"
  by (simp add: sample_heap_def sample_tx_hash)

theorem heap_remove_correct_witness:
  "\<exists>ns. mset sample_heap = mset (fst (Heap_Remove ref_ext sample_heap [Some (sample_tx 1)])) + mset ns \<and>
     snd (snd (Heap_Remove ref_ext sample_heap [Some (sample_tx 1)])) = sum_list (map Priority ns)"
  using heap_remove_correct [of ref_ext sample_heap "[sample_tx 1]"]
  by (cases "Heap_Remove ref_ext sample_heap [Some (sample_tx 1)]") fastforce

theorem heap_remove_complete_witness:
  "\<not> Heap_Has ref_ext (fst (Heap_Remove ref_ext sample_heap [Some (sample_tx 1)])) (Some (sample_tx 1))"
  using heap_remove_complete [of ref_ext sample_heap "[sample_tx 1]"] sample_heap_distinct
  by (cases "Heap_Remove ref_ext sample_heap [Some (sample_tx 1)]") fastforce

theorem heap_remove_above_threshold_witness:
  "mset (fst (Heap_RemoveAboveThreshold ref_ext sample_heap 5)) = {#\<lparr>Priority = 4, n_Transaction = sample_tx 2\<rparr>#}"
  using heap_remove_above_threshold [OF sample_heap_distinct, of 5]
  by (cases "Heap_RemoveAboveThreshold ref_ext sample_heap 5") (auto simp: sample_heap_def)

end
