(* ===== verification/Coin_Keys.thy ===== *)
theory Coin_Keys
  imports Coin_Block
begin

text \<open>
  The small packages the larger components share: the key conversions and general helpers of
  \<open>src/pkg/utils\<close>, the identities of \<open>src/pkg/id\<close> and the locking scripts of
  \<open>src/pkg/script\<close>.

  \<open>id.ID\<close> is an interface with one implementation, \<open>SimpleID\<close>, so an identity is a
  \<open>SimpleID\<close>; its accessors are the selectors of the record. A key pointer that may be nil is an
  option. The ECDSA and X.509 libraries are fields of the parameter \<open>E\<close>.
\<close>

section \<open>\<open>utils/crypto.go\<close>\<close>

definition utils_Verify :: "('db, 'z) ext_scheme \<Rightarrow> PublicKey \<Rightarrow> string \<Rightarrow> bytes \<Rightarrow> bool" where
  "utils_Verify E pk hash sig = ecdsa_VerifyASN1 E pk (bytes_of hash) sig"

datatype key_error = ParseError | KeyGenError | MarshalError

text \<open>The type assertion on the parsed key panics when it is not an ECDSA key.\<close>

definition Byt2PK :: "('db, 'z) ext_scheme \<Rightarrow> bytes \<Rightarrow> (key_error + PublicKey) option" where
  "Byt2PK E pkB =
     (case x509_ParsePKIXPublicKey E pkB of
        None \<Rightarrow> Some (Inl ParseError)
      | Some (ECDSA_PublicKey pk) \<Rightarrow> Some (Inr pk)
      | Some (Other_PublicKey _) \<Rightarrow> None)"

definition Byt2SK :: "('db, 'z) ext_scheme \<Rightarrow> bytes \<Rightarrow> PrivateKey option" where
  "Byt2SK E skB = x509_ParseECPrivateKey E skB"

text \<open>Both errors are dropped: an unreadable secret key panics, a failed marshal gives nil.\<close>

definition PkFromSk :: "('db, 'z) ext_scheme \<Rightarrow> bytes \<Rightarrow> bytes option" where
  "PkFromSk E skB =
     (case x509_ParseECPrivateKey E skB of
        None \<Rightarrow> None
      | Some sc \<Rightarrow> Some (case x509_MarshalPKIXPublicKey E (sk_PublicKey sc) of None \<Rightarrow> [] | Some pkB \<Rightarrow> pkB))"

section \<open>\<open>utils/general.go\<close>\<close>

text \<open>The loop of \<open>RevStrArr\<close> swaps position \<open>i\<close> with position \<open>last - i\<close> for the first half.\<close>

definition RevStrArr :: "string list \<Rightarrow> string list" where
  "RevStrArr a = foldl (\<lambda>a i. swap a i (length a - 1 - i)) a [0..<length a div 2]"

definition CalcPOWD :: "int \<Rightarrow> bytes" where
  "CalcPOWD powdNumZeros =
     (let n = (if powdNumZeros \<le> -1 \<or> powdNumZeros \<ge> 30 then 3 else powdNumZeros);
          ret = foldl (\<lambda>ret i. if int i \<noteq> n then ret @ ''0'' else ret @ ''1'') '''' [0..<64]
      in bytes_of ret)"

primrec InSlice :: "string list \<Rightarrow> string \<Rightarrow> bool" where
  "InSlice [] val = False"
| "InSlice (v # a) val = (if v = val then True else InSlice a val)"

section \<open>Identities\<close>

record SimpleID =
  id_PrivateKey :: "PrivateKey option"
  PrivateKeyBytes :: bytes
  id_PublicKey :: "PublicKey option"
  PublicKeyBytes :: bytes

definition BytesToPublicKey :: "('db, 'z) ext_scheme \<Rightarrow> bytes \<Rightarrow> (key_error + PublicKey) option" where
  "BytesToPublicKey E bytes =
     (case x509_ParsePKIXPublicKey E bytes of
        None \<Rightarrow> Some (Inl ParseError)
      | Some (ECDSA_PublicKey pk) \<Rightarrow> Some (Inr pk)
      | Some (Other_PublicKey _) \<Rightarrow> None)"

definition PublicKeyToBytes :: "('db, 'z) ext_scheme \<Rightarrow> PublicKey \<Rightarrow> bytes option" where
  "PublicKeyToBytes E key = x509_MarshalPKIXPublicKey E key"

definition BytesToPrivateKey :: "('db, 'z) ext_scheme \<Rightarrow> bytes \<Rightarrow> PrivateKey option" where
  "BytesToPrivateKey E bytes = x509_ParseECPrivateKey E bytes"

definition PrivateKeyToBytes :: "('db, 'z) ext_scheme \<Rightarrow> PrivateKey \<Rightarrow> bytes option" where
  "PrivateKeyToBytes E key = x509_MarshalECPrivateKey E key"

text \<open>The random bits of key generation are the argument \<open>rnd\<close>.\<close>

definition CreateSimpleID :: "('db, 'z) ext_scheme \<Rightarrow> nat \<Rightarrow> key_error + SimpleID" where
  "CreateSimpleID E rnd =
     (case ecdsa_GenerateKey E rnd of
        None \<Rightarrow> Inl KeyGenError
      | Some privKey \<Rightarrow>
          (case (PrivateKeyToBytes E privKey, PublicKeyToBytes E (sk_PublicKey privKey)) of
             (None, _) \<Rightarrow> Inl MarshalError
           | (_, None) \<Rightarrow> Inl MarshalError
           | (Some skB, Some pkB) \<Rightarrow>
               Inr \<lparr>id_PrivateKey = Some privKey, PrivateKeyBytes = skB,
                    id_PublicKey = Some (sk_PublicKey privKey), PublicKeyBytes = pkB\<rparr>))"

text \<open>Errors are dropped, so keys may be nil; the private key bytes are set to the public ones.\<close>

definition LoadInSmplID :: "('db, 'z) ext_scheme \<Rightarrow> string \<Rightarrow> string \<Rightarrow> SimpleID option" where
  "LoadInSmplID E pubK privK =
     (let pkB = hex_DecodeString pubK; skB = hex_DecodeString privK in
      case Byt2PK E pkB of
        None \<Rightarrow> None
      | Some pk \<Rightarrow>
          Some \<lparr>id_PrivateKey = Byt2SK E skB, PrivateKeyBytes = pkB,
                id_PublicKey = (case pk of Inl _ \<Rightarrow> None | Inr k \<Rightarrow> Some k), PublicKeyBytes = pkB\<rparr>)"

definition id_New :: "('db, 'z) ext_scheme \<Rightarrow> nat \<Rightarrow> key_error + SimpleID" where
  "id_New E rnd = CreateSimpleID E rnd"

section \<open>Locking scripts\<close>

definition P2PK :: int where "P2PK = 0"
definition MULTI :: int where "MULTI = 1"
definition HTLC :: int where "HTLC = 2"

record PayToPublicKey =
  sp_ScriptType :: int
  sp_PublicKey :: bytes

record MultiParty =
  mp_ScriptType :: int
  mp_MyPublicKey :: bytes
  mp_TheirPublicKey :: bytes
  mp_RevocationKey :: bytes
  mp_AdditionalBlocks :: u32

record HashedTimeLock =
  hl_ScriptType :: int
  hl_MyPublicKey :: bytes
  hl_TheirPublicKey :: bytes
  hl_RevocationKey :: bytes
  hl_HashLock :: string
  hl_AdditionalBlocks :: u32
  hl_Fee :: u32

definition EncodeMultiParty :: "MultiParty \<Rightarrow> pro_MultiParty" where
  "EncodeMultiParty multi =
     \<lparr>pmp_ScriptType = ScriptType_MULTI, pmp_MyPublicKey = mp_MyPublicKey multi,
      pmp_TheirPublicKey = mp_TheirPublicKey multi, pmp_RevocationKey = mp_RevocationKey multi,
      pmp_AdditionalBlocks = mp_AdditionalBlocks multi\<rparr>"

definition EncodePayToPublicKey :: "PayToPublicKey \<Rightarrow> pro_PayToPublicKey" where
  "EncodePayToPublicKey p2pk =
     \<lparr>p2pk_ScriptType = ScriptType_P2PK, p2pk_PublicKey = sp_PublicKey p2pk\<rparr>"

definition EncodeHashedTimeLock :: "HashedTimeLock \<Rightarrow> pro_HashedTimeLock" where
  "EncodeHashedTimeLock htlc =
     \<lparr>phl_ScriptType = ScriptType_HTLC, phl_MyPublicKey = hl_MyPublicKey htlc,
      phl_TheirPublicKey = hl_TheirPublicKey htlc, phl_RevocationKey = hl_RevocationKey htlc,
      phl_HashLock = hl_HashLock htlc, phl_AdditionalBlocks = hl_AdditionalBlocks htlc,
      phl_Fee = hl_Fee htlc\<rparr>"

definition DecodePayToPublicKey :: "pro_PayToPublicKey \<Rightarrow> PayToPublicKey" where
  "DecodePayToPublicKey p2pk = \<lparr>sp_ScriptType = 0, sp_PublicKey = p2pk_PublicKey p2pk\<rparr>"

text \<open>The revocation key is read from the field of the other party's public key.\<close>

definition DecodeMultiParty :: "pro_MultiParty \<Rightarrow> MultiParty" where
  "DecodeMultiParty multi =
     \<lparr>mp_ScriptType = 0, mp_MyPublicKey = pmp_MyPublicKey multi,
      mp_TheirPublicKey = pmp_TheirPublicKey multi, mp_RevocationKey = pmp_TheirPublicKey multi,
      mp_AdditionalBlocks = pmp_AdditionalBlocks multi\<rparr>"

definition DecodeHashedTimeLock :: "pro_HashedTimeLock \<Rightarrow> HashedTimeLock" where
  "DecodeHashedTimeLock htlc =
     \<lparr>hl_ScriptType = 0, hl_MyPublicKey = phl_MyPublicKey htlc, hl_TheirPublicKey = phl_TheirPublicKey htlc,
      hl_RevocationKey = phl_RevocationKey htlc, hl_HashLock = phl_HashLock htlc,
      hl_AdditionalBlocks = phl_AdditionalBlocks htlc, hl_Fee = phl_Fee htlc\<rparr>"

text \<open>\<open>DetermineScriptType\<close> returns \<open>(-1, error)\<close> for an unreadable or unknown script.\<close>

definition DetermineScriptType :: "('db, 'z) ext_scheme \<Rightarrow> bytes \<Rightarrow> int \<times> bool" where
  "DetermineScriptType E b =
     (let (p2pk, ok) = unmarshal_PayToPublicKey E b in
      if \<not> ok then (-1, False)
      else if p2pk_ScriptType p2pk = ScriptType_P2PK then (P2PK, True)
      else if p2pk_ScriptType p2pk = ScriptType_MULTI then (MULTI, True)
      else if p2pk_ScriptType p2pk = ScriptType_HTLC then (HTLC, True)
      else (-1, False))"

section \<open>Facts about the helpers\<close>

text \<open>The in-place reversal after \<open>k\<close> rounds: the outer \<open>k\<close> positions on both sides are exchanged.\<close>

lemma swap_rounds:
  assumes "k \<le> length a div 2"
  shows "foldl (\<lambda>a i. swap a i (length a - 1 - i)) a [0..<k] =
    map (\<lambda>j. if j < k \<or> length a - 1 - j < k then a ! (length a - 1 - j) else a ! j) [0..<length a]"
  using assms
proof (induction k)
  case 0
  then show ?case by (simp add: map_nth)
next
  case (Suc k)
  then show ?case
    by (intro nth_equalityI) (auto simp: swap_def nth_list_update less_Suc_eq)
qed

lemma RevStrArr_rev: "RevStrArr a = rev a"
proof -
  have "RevStrArr a = map (\<lambda>j. if j < length a div 2 \<or> length a - 1 - j < length a div 2
    then a ! (length a - 1 - j) else a ! j) [0..<length a]"
    unfolding RevStrArr_def by (rule swap_rounds) simp
  also have "\<dots> = rev a"
  proof (rule nth_equalityI)
    fix j
    assume "j < length (map (\<lambda>j. if j < length a div 2 \<or> length a - 1 - j < length a div 2
      then a ! (length a - 1 - j) else a ! j) [0..<length a])"
    then have "j < length a" by simp
    then have "length a - 1 - j = j" if "\<not> j < length a div 2" "\<not> length a - 1 - j < length a div 2"
      using that by linarith
    then show "map (\<lambda>j. if j < length a div 2 \<or> length a - 1 - j < length a div 2
      then a ! (length a - 1 - j) else a ! j) [0..<length a] ! j = rev a ! j"
      using \<open>j < length a\<close> by (auto simp: rev_nth)
  qed simp
  finally show ?thesis .
qed

lemma InSlice_iff: "InSlice a val \<longleftrightarrow> val \<in> set a"
  by (induction a) auto

text \<open>The target for \<open>n\<close> zeros: \<open>n\<close> times the digit 0, the digit 1, and 0 up to 64 digits.\<close>

definition powd_zeros :: "int \<Rightarrow> nat" where
  "powd_zeros n = (if n \<le> -1 \<or> n \<ge> 30 then 3 else nat n)"

lemma digits_loop:
  "foldl (\<lambda>ret i. if int i \<noteq> n then ret @ ''0'' else ret @ ''1'') r xs =
   r @ map (\<lambda>i. if int i \<noteq> n then CHR ''0'' else CHR ''1'') xs"
  by (induction xs arbitrary: r) auto

lemma powd_string:
  assumes "z < m"
  shows "map (\<lambda>i. if int i \<noteq> int z then CHR ''0'' else CHR ''1'') [0..<m] =
    replicate z (CHR ''0'') @ CHR ''1'' # replicate (m - z - 1) (CHR ''0'')"
  using assms by (intro nth_equalityI) (auto simp: nth_append nth_Cons')

lemma powd_zeros_less: "powd_zeros n < 30"
  unfolding powd_zeros_def by auto

lemma CalcPOWD_eq:
  "CalcPOWD n = bytes_of (replicate (powd_zeros n) (CHR ''0'') @ CHR ''1'' # replicate (63 - powd_zeros n) (CHR ''0''))"
proof -
  have "(if n \<le> -1 \<or> n \<ge> 30 then 3 else n) = int (powd_zeros n)" by (auto simp: powd_zeros_def)
  then have "CalcPOWD n = bytes_of (map (\<lambda>i. if int i \<noteq> int (powd_zeros n) then CHR ''0'' else CHR ''1'') [0..<64])"
    by (simp only: CalcPOWD_def digits_loop Let_def append_Nil)
  also have "\<dots> = bytes_of (replicate (powd_zeros n) (CHR ''0'') @ CHR ''1'' # replicate (64 - powd_zeros n - 1) (CHR ''0''))"
    using powd_zeros_less [of n] by (subst powd_string) simp_all
  finally show ?thesis by simp
qed

lemma length_CalcPOWD: "length (CalcPOWD n) = 64"
  using powd_zeros_less [of n] by (simp add: CalcPOWD_eq bytes_of_def)

text \<open>Key pairs made by \<open>CreateSimpleID\<close>.\<close>

lemma CreateSimpleID_cases:
  assumes "CreateSimpleID E rnd = Inr i"
  obtains sk where "id_PrivateKey i = Some sk" "id_PublicKey i = Some (sk_PublicKey sk)"
    "x509_MarshalECPrivateKey E sk = Some (PrivateKeyBytes i)"
    "x509_MarshalPKIXPublicKey E (sk_PublicKey sk) = Some (PublicKeyBytes i)"
  using assms
  by (auto simp: CreateSimpleID_def PrivateKeyToBytes_def PublicKeyToBytes_def split: option.splits)

lemma PkFromSk_id:
  assumes "x509_laws E" and "CreateSimpleID E rnd = Inr i"
  shows "PkFromSk E (PrivateKeyBytes i) = Some (PublicKeyBytes i)"
  using assms(2)
proof (rule CreateSimpleID_cases)
  fix sk
  assume "x509_MarshalECPrivateKey E sk = Some (PrivateKeyBytes i)"
    and pk: "x509_MarshalPKIXPublicKey E (sk_PublicKey sk) = Some (PublicKeyBytes i)"
  then have "x509_ParseECPrivateKey E (PrivateKeyBytes i) = Some sk"
    using assms(1) by (simp add: x509_laws_def)
  with pk show ?thesis by (simp add: PkFromSk_def)
qed

lemmas script_type_defs =
  ScriptType_P2PK_def ScriptType_MULTI_def ScriptType_HTLC_def P2PK_def MULTI_def HTLC_def

lemma DetermineScriptType_multi:
  assumes "script_laws E" and "pmp_ScriptType m = ScriptType_MULTI"
  shows "DetermineScriptType E (fst (marshal_MultiParty E m)) = (MULTI, True)"
  using assms by (simp add: script_laws_def DetermineScriptType_def script_type_defs)

lemma DetermineScriptType_p2pk:
  assumes "proto_laws E" and "p2pk_ScriptType m = ScriptType_P2PK"
  shows "DetermineScriptType E (fst (marshal_PayToPublicKey E m)) = (P2PK, True)"
  using assms by (simp add: unmarshal_marshal_PayToPublicKey DetermineScriptType_def script_type_defs)

end
