(* ===== verification/Tx_Pool.thy ===== *)
theory Tx_Pool
  imports Tx_Heap Coin_Keys
begin

text \<open>
  The transaction pool of the miner (\<open>src/pkg/miner/transactionpool.go\<close>), its configuration
  (\<open>config.go\<close>) and the choice of the transactions to mine (\<open>mining_pool.go\<close>).

  The counters are 32-bit words as in the code, so the invariant \<open>pool_ok\<close> is stated modulo
  \<open>2 ^ 32\<close>. A pool is modelled as used by one thread at a time; its mutex protects the heap
  but not the check of the capacity.
\<close>

section \<open>Configuration\<close>

record miner_Config =
  HasMiner :: bool
  mc_Version :: u32
  DefineLockTime :: u32
  TransactionPoolCapacity :: u32
  mc_PriorityLimit :: u32
  BlockSize :: u32
  NonceLimit :: u32
  mc_InitialSubsidy :: u32
  SubsidyHalvingRate :: u32
  MaxHalvings :: u32
  InitialPOWDifficulty :: bytes

definition miner_DefaultConfig :: "int \<Rightarrow> miner_Config" where
  "miner_DefaultConfig powdNumZeros =
     \<lparr>HasMiner = True, mc_Version = 0, DefineLockTime = 0, TransactionPoolCapacity = 50,
      mc_PriorityLimit = 10, BlockSize = 1000, NonceLimit = 2 ^ 20, mc_InitialSubsidy = 50,
      SubsidyHalvingRate = 10, MaxHalvings = 10, InitialPOWDifficulty = CalcPOWD powdNumZeros\<rparr>"

section \<open>The pool\<close>

record TxPool =
  CurrentPriority :: u32
  PriorityLimit :: u32
  TxQ :: Heap
  Count :: u32
  Capacity :: u32

definition TxPool_Length :: "TxPool \<Rightarrow> u32" where
  "TxPool_Length tp = Count tp"

definition NewTxPool :: "miner_Config \<Rightarrow> TxPool" where
  "NewTxPool c =
     \<lparr>CurrentPriority = 0, PriorityLimit = mc_PriorityLimit c, TxQ = NewTransactionHeap, Count = 0,
      Capacity = TransactionPoolCapacity c\<rparr>"

definition PriorityMet :: "TxPool \<Rightarrow> bool" where
  "PriorityMet tp \<longleftrightarrow> CurrentPriority tp \<ge> PriorityLimit tp"

text \<open>
  The fees wrap around when the outputs exceed the inputs. The size is a 32-bit word; were it to
  wrap around to 0, the division would panic.
\<close>

definition CalculatePriority :: "Transaction option \<Rightarrow> u32 \<Rightarrow> u32 option" where
  "CalculatePriority t sumInputs =
     (case t of
        None \<Rightarrow> Some 0
      | Some t \<Rightarrow>
          let fees = sumInputs - SumOutputs t; sz = Transaction_Size t; factor = 100 in
          if sz = 0 then None
          else let pri = fees * factor div sz in Some (if pri = 0 then 1 else pri))"

definition TxPool_Add :: "TxPool \<Rightarrow> Transaction option \<Rightarrow> u32 \<Rightarrow> TxPool option" where
  "TxPool_Add tp t sumInputs =
     (if t = None then Some tp
      else if Count tp \<ge> Capacity tp then Some tp
      else case CalculatePriority t sumInputs of
             None \<Rightarrow> None
           | Some pri \<Rightarrow> Some (tp\<lparr>CurrentPriority := CurrentPriority tp + pri, TxQ := Heap_Add (TxQ tp) pri t,
                                  Count := Count tp + 1\<rparr>))"

definition CheckTransactions :: "('db, 'z) ext_scheme \<Rightarrow> TxPool \<Rightarrow> Transaction option list \<Rightarrow> TxPool" where
  "CheckTransactions E tp txs =
     (let (q, amtRem, totalPriority) = Heap_Remove E (TxQ tp) txs in
      tp\<lparr>TxQ := q, Count := Count tp - word_of_nat (length amtRem),
         CurrentPriority := CurrentPriority tp - totalPriority\<rparr>)"

section \<open>The mining pool\<close>

text \<open>The loop walks the heap array and stops at the first transaction that no longer fits.\<close>

fun mining_loop :: "u32 \<Rightarrow> u32 \<Rightarrow> Heap \<Rightarrow> Transaction list" where
  "mining_loop limit blkSz [] = []"
| "mining_loop limit blkSz (n # rankings) =
     (let blkSz' = blkSz + Transaction_Size (n_Transaction n) in
      if blkSz' < limit then n_Transaction n # mining_loop limit blkSz' rankings else [])"

definition NewMiningPool :: "miner_Config \<Rightarrow> TxPool \<Rightarrow> Transaction list" where
  "NewMiningPool c tp = mining_loop (BlockSize c) 100 (TxQ tp)"

section \<open>Invariant\<close>

text \<open>The heap is ordered and the two counters agree with it.\<close>

definition pool_ok :: "TxPool \<Rightarrow> bool" where
  "pool_ok tp \<longleftrightarrow> is_heap Heap_Less (TxQ tp) \<and> Count tp = word_of_nat (length (TxQ tp)) \<and>
     CurrentPriority tp = sum_list (map Priority (TxQ tp))"

text \<open>The operations of a pool, as the steps of its life.\<close>

inductive pool_reaches :: "('db, 'z) ext_scheme \<Rightarrow> miner_Config \<Rightarrow> TxPool \<Rightarrow> bool"
  for E :: "('db, 'z) ext_scheme" and c :: miner_Config where
  reaches_new: "pool_reaches E c (NewTxPool c)"
| reaches_add: "pool_reaches E c tp \<Longrightarrow> TxPool_Add tp t s = Some tp' \<Longrightarrow> pool_reaches E c tp'"
| reaches_check: "pool_reaches E c tp \<Longrightarrow> pool_reaches E c (CheckTransactions E tp (map Some txs))"

lemma sum_priorities_mset: "mset xs = mset ys \<Longrightarrow> sum_list (map Priority xs) = sum_list (map Priority ys)"
  by (metis mset_map sum_mset_sum_list)

lemma CheckTransactions_ok:
  assumes ok: "pool_ok tp"
  shows "pool_ok (CheckTransactions E tp (map Some txs))"
    and "length (TxQ (CheckTransactions E tp (map Some txs))) \<le> length (TxQ tp)"
proof -
  obtain q r p where rm: "Heap_Remove E (TxQ tp) (map Some txs) = (q, r, p)" by (metis prod_cases3)
  obtain ns where ns: "mset (TxQ tp) = mset q + mset ns"
    "map (node_hash E) ns = map (Transaction_Hash E) r" "p = sum_list (map Priority ns)" "is_heap Heap_Less q"
    using Heap_Remove_spec [OF rm] by blast
  have len: "length ns = length r" by (metis ns(2) length_map)
  have eq: "mset (TxQ tp) = mset (q @ ns)" using ns(1) by simp
  have "sum_list (map Priority (TxQ tp)) = sum_list (map Priority q) + p"
    unfolding sum_priorities_mset [OF eq] using ns(3) by simp
  moreover have "length (TxQ tp) = length q + length r"
    using mset_eq_length [OF eq] len by simp
  ultimately show "pool_ok (CheckTransactions E tp (map Some txs))"
    "length (TxQ (CheckTransactions E tp (map Some txs))) \<le> length (TxQ tp)"
    using ok ns(4) by (simp_all add: pool_ok_def CheckTransactions_def rm)
qed

lemma TxPool_Add_ok:
  assumes ok: "pool_ok tp" and "length (TxQ tp) \<le> unat (Capacity tp)" and "TxPool_Add tp t s = Some tp'"
  shows "pool_ok tp' \<and> length (TxQ tp') \<le> unat (Capacity tp') \<and> Capacity tp' = Capacity tp"
proof (cases "\<exists>u pri. t = Some u \<and> Count tp < Capacity tp \<and> CalculatePriority t s = Some pri")
  case True
  then obtain u pri where u: "t = Some u" "Count tp < Capacity tp" "CalculatePriority t s = Some pri" by blast
  let ?n = "\<lparr>Priority = pri, n_Transaction = u\<rparr>"
  have tp': "tp' = tp\<lparr>CurrentPriority := CurrentPriority tp + pri, TxQ := heap_Push Heap_Less (TxQ tp) ?n,
      Count := Count tp + 1\<rparr>"
    using assms(3) u by (auto simp: TxPool_Add_def Heap_Add_def not_le [symmetric])
  have eq: "mset (heap_Push Heap_Less (TxQ tp) ?n) = mset (?n # TxQ tp)" by simp
  have "sum_list (map Priority (heap_Push Heap_Less (TxQ tp) ?n)) = pri + sum_list (map Priority (TxQ tp))"
    unfolding sum_priorities_mset [OF eq] by simp
  moreover have "length (heap_Push Heap_Less (TxQ tp) ?n) = length (TxQ tp) + 1"
    using mset_eq_length [OF eq] by simp
  moreover have "length (TxQ tp) < unat (Capacity tp)"
  proof -
    have "length (TxQ tp) < 2 ^ 32" using assms(2) u32_bound [of "Capacity tp"] by simp
    then have "unat (Count tp) = length (TxQ tp)" using ok by (simp add: pool_ok_def u32_of_nat_less)
    then show ?thesis using u(2) by (simp add: word_less_nat_alt)
  qed
  ultimately show ?thesis
    using ok tp' txheap.heap_Push_is_heap [of "TxQ tp" ?n] by (auto simp: pool_ok_def)
next
  case False
  then have "tp' = tp" using assms(3) by (auto simp: TxPool_Add_def not_le split: if_splits option.splits)
  then show ?thesis using assms(1,2) by simp
qed

lemma NewTxPool_ok: "pool_ok (NewTxPool c)" "TxQ (NewTxPool c) = []"
  by (simp_all add: pool_ok_def NewTxPool_def NewTransactionHeap_def heap_Init_def is_heap_def)

lemma pool_reaches_ok:
  "pool_reaches E c tp \<Longrightarrow>
   pool_ok tp \<and> length (TxQ tp) \<le> unat (Capacity tp) \<and> Capacity tp = TransactionPoolCapacity c"
proof (induction rule: pool_reaches.induct)
  case reaches_new
  then show ?case using NewTxPool_ok [of c] by (simp add: NewTxPool_def)
next
  case (reaches_add tp t s tp')
  then show ?case using TxPool_Add_ok [of tp t s tp'] by metis
next
  case (reaches_check tp txs)
  then show ?case
    using CheckTransactions_ok [of tp E txs]
    by (auto simp: CheckTransactions_def split: prod.splits)
qed

text \<open>
  C18: After any sequence of operations the pool's queue is a heap, its count is the number of
  queued transactions and never exceeds the capacity, and its cumulative priority is the sum of
  the queued priorities modulo \<open>2 ^ 32\<close>.
\<close>

theorem tx_pool_invariant:
  assumes "pool_reaches E c tp"
  shows "is_heap Heap_Less (TxQ tp) \<and> unat (Count tp) = length (TxQ tp) \<and>
    length (TxQ tp) \<le> unat (TransactionPoolCapacity c) \<and>
    CurrentPriority tp = sum_list (map Priority (TxQ tp))"
proof -
  have "length (TxQ tp) < 2 ^ 32"
    using pool_reaches_ok [OF assms] u32_bound [of "Capacity tp"] by linarith
  then show ?thesis using pool_reaches_ok [OF assms] by (auto simp: pool_ok_def u32_of_nat_less)
qed

section \<open>What fits into a block\<close>

definition tx_sizes :: "Transaction list \<Rightarrow> nat" where
  "tx_sizes txs = sum_list (map (unat \<circ> Transaction_Size) txs)"

lemma mining_loop_fits:
  assumes "unat limit \<le> 2 ^ 31" and "\<forall>n \<in> set h. unat (Transaction_Size (n_Transaction n)) < 2 ^ 31"
    and "unat sz < 2 ^ 31"
  shows "\<exists>k. mining_loop limit sz h = take k (map n_Transaction h) \<and>
    (mining_loop limit sz h = [] \<or> unat sz + tx_sizes (mining_loop limit sz h) < unat limit)"
  using assms(2,3)
proof (induction h arbitrary: sz)
  case (Cons n h)
  let ?s = "Transaction_Size (n_Transaction n)"
  show ?case
  proof (cases "sz + ?s < limit")
    case True
    have small: "unat ?s < 2 ^ 31" using Cons.prems(1) by simp
    then have add: "unat (sz + ?s) = unat sz + unat ?s"
      using Cons.prems(2) by (intro unat_add_lem [THEN iffD1]) simp
    have lt: "unat (sz + ?s) < unat limit" using True by (simp add: word_less_nat_alt)
    have "unat (sz + ?s) < 2 ^ 31" using lt assms(1) by simp
    moreover have "\<forall>n \<in> set h. unat (Transaction_Size (n_Transaction n)) < 2 ^ 31" using Cons.prems(1) by simp
    ultimately obtain k where
      "mining_loop limit (sz + ?s) h = take k (map n_Transaction h)"
      "mining_loop limit (sz + ?s) h = [] \<or>
        unat (sz + ?s) + tx_sizes (mining_loop limit (sz + ?s) h) < unat limit"
      using Cons.IH by blast
    then show ?thesis
      using True add lt by (intro exI [of _ "Suc k"]) (auto simp: tx_sizes_def Let_def)
  qed (auto intro!: exI [of _ 0])
qed (simp add: tx_sizes_def)

text \<open>
  The mining pool is an initial part of the queue's array, and unless it is empty its transactions
  leave 100 bytes of the configured block size free. The sizes must be below \<open>2 ^ 31\<close>, so that
  no sum wraps around.
\<close>

lemma mining_pool_fits:
  assumes "unat (BlockSize c) \<le> 2 ^ 31"
    and "\<forall>n \<in> set (TxQ tp). unat (Transaction_Size (n_Transaction n)) < 2 ^ 31"
  shows "\<exists>k. NewMiningPool c tp = take k (map n_Transaction (TxQ tp)) \<and>
    (NewMiningPool c tp = [] \<or> 100 + tx_sizes (NewMiningPool c tp) < unat (BlockSize c))"
  using mining_loop_fits [OF assms, of 100] by (simp add: NewMiningPool_def)

end
