(* ===== verification/Block_Info_DB.thy ===== *)
theory Block_Info_DB
  imports Coin_Block
begin

text \<open>
  Package \<open>src/pkg/blockchain/blockinfodatabase\<close>: block records and the levelDB wrapper
  that stores them under the hash of the block. The state of a \<open>BlockInfoDatabase\<close> is its
  levelDB alone.
\<close>

section \<open>Block records\<close>

record BlockRecord =
  br_Header :: Header
  br_Height :: u32
  br_NumberOfTransactions :: u32
  br_BlockFile :: string
  br_BlockStartOffset :: u32
  br_BlockEndOffset :: u32
  br_UndoFile :: string
  br_UndoStartOffset :: u32
  br_UndoEndOffset :: u32

definition EncodeBlockRecord :: "BlockRecord \<Rightarrow> pro_BlockRecord" where
  "EncodeBlockRecord br =
     \<lparr>pbr_Header = Some (EncodeHeader (br_Header br)), pbr_Height = br_Height br,
      pbr_NumberOfTransactions = br_NumberOfTransactions br, pbr_BlockFile = br_BlockFile br,
      pbr_BlockStartOffset = br_BlockStartOffset br, pbr_BlockEndOffset = br_BlockEndOffset br,
      pbr_UndoFile = br_UndoFile br, pbr_UndoStartOffset = br_UndoStartOffset br,
      pbr_UndoEndOffset = br_UndoEndOffset br\<rparr>"

definition DecodeBlockRecord :: "pro_BlockRecord \<Rightarrow> BlockRecord" where
  "DecodeBlockRecord pbr =
     \<lparr>br_Header = DecodeHeader (pbr_Header pbr), br_Height = pbr_Height pbr,
      br_NumberOfTransactions = pbr_NumberOfTransactions pbr, br_BlockFile = pbr_BlockFile pbr,
      br_BlockStartOffset = pbr_BlockStartOffset pbr, br_BlockEndOffset = pbr_BlockEndOffset pbr,
      br_UndoFile = pbr_UndoFile pbr, br_UndoStartOffset = pbr_UndoStartOffset pbr,
      br_UndoEndOffset = pbr_UndoEndOffset pbr\<rparr>"

section \<open>The database\<close>

record 'db BlockInfoDatabase =
  bi_db :: 'db

text \<open>\<open>New\<close> opens the levelDB at the configured path; its contents \<open>db\<close> are an argument.\<close>

definition BlockInfoDatabase_New :: "'db \<Rightarrow> 'db BlockInfoDatabase" where
  "BlockInfoDatabase_New db = \<lparr>bi_db = db\<rparr>"

definition StoreBlockRecord ::
  "('db, 'z) ext_scheme \<Rightarrow> 'db BlockInfoDatabase \<Rightarrow> string \<Rightarrow> BlockRecord \<Rightarrow> 'db BlockInfoDatabase" where
  "StoreBlockRecord E blockInfoDB hash blockRecord =
     (let protoRecord = EncodeBlockRecord blockRecord;
          b = fst (marshal_BlockRecord E protoRecord)
      in blockInfoDB\<lparr>bi_db := leveldb_Put E (bi_db blockInfoDB) (bytes_of hash) b\<rparr>)"

text \<open>When the key is absent the data is nil, and unmarshalling nil gives the empty message.\<close>

definition GetBlockRecord ::
  "('db, 'z) ext_scheme \<Rightarrow> 'db BlockInfoDatabase \<Rightarrow> string \<Rightarrow> BlockRecord" where
  "GetBlockRecord E blockInfoDB hash =
     (let data = (case leveldb_Get E (bi_db blockInfoDB) (bytes_of hash) of
                    None \<Rightarrow> [] | Some v \<Rightarrow> v);
          protoRecord = fst (unmarshal_BlockRecord E data)
      in DecodeBlockRecord protoRecord)"

section \<open>Correctness\<close>

interpretation block_record_wire: wire_format EncodeBlockRecord DecodeBlockRecord
  by unfold_locales (simp add: EncodeBlockRecord_def DecodeBlockRecord_def header_wire.decode_encode)

definition ascii_record :: "BlockRecord \<Rightarrow> bool" where
  "ascii_record br \<longleftrightarrow> ascii_BlockRecord (EncodeBlockRecord br)"

lemma GetBlockRecord_Store:
  assumes "leveldb_laws E" and "proto_laws E" and "ascii_record br"
  shows "GetBlockRecord E (StoreBlockRecord E d h br) h' =
    (if h' = h then br else GetBlockRecord E d h')"
  using assms
  by (simp add: StoreBlockRecord_def GetBlockRecord_def Let_def leveldb_simps unmarshal_marshal
      ascii_record_def block_record_wire.decode_encode)

lemma GetBlockRecord_missing:
  assumes "proto_laws E" and "leveldb_Get E (bi_db d) (bytes_of h) = None"
  shows "GetBlockRecord E d h = DecodeBlockRecord zero_BlockRecord"
  using assms by (simp add: GetBlockRecord_def unmarshal_Nil_BlockRecord)

lemma zero_record_simps [simp]:
  "br_Height (DecodeBlockRecord zero_BlockRecord) = 0"
  "h_PreviousHash (br_Header (DecodeBlockRecord zero_BlockRecord)) = []"
  "br_UndoFile (DecodeBlockRecord zero_BlockRecord) = []"
  "br_BlockFile (DecodeBlockRecord zero_BlockRecord) = []"
  by (simp_all add: DecodeBlockRecord_def zero_BlockRecord_def DecodeHeader_def zero_Header_def)

text \<open>
  A stored block record is read back unchanged, every other record keeps its value, and a
  hash that was never stored reads as the record of height 0 with an empty previous hash:
  \<open>GetBlockRecord\<close> never reports that a block is missing.
\<close>

theorem block_record_store_get:
  assumes "leveldb_laws E" and "proto_laws E" and "ascii_record br"
  shows "GetBlockRecord E (StoreBlockRecord E d h br) h' = (if h' = h then br else GetBlockRecord E d h')
    \<and> (leveldb_Get E (bi_db d) (bytes_of h') = None \<longrightarrow>
         br_Height (GetBlockRecord E d h') = 0 \<and>
         h_PreviousHash (br_Header (GetBlockRecord E d h')) = '''')"
  using assms by (simp add: GetBlockRecord_Store GetBlockRecord_missing)

definition sample_record :: BlockRecord where
  "sample_record = DecodeBlockRecord (zero_BlockRecord\<lparr>pbr_Height := 7\<rparr>)"

lemma sample_record_ascii: "ascii_record sample_record"
  by (simp add: ascii_record_def ascii_BlockRecord_def EncodeBlockRecord_def sample_record_def
      DecodeBlockRecord_def zero_BlockRecord_def ascii_Header_def EncodeHeader_def DecodeHeader_def
      zero_Header_def ascii_def)

theorem block_record_store_get_witness:
  "br_Height (GetBlockRecord ref_ext
     (StoreBlockRecord ref_ext (BlockInfoDatabase_New (leveldb_empty ref_ext)) ''ab'' sample_record) ''ab'') = 7"
  using block_record_store_get [OF ref_ext_leveldb ref_ext_proto sample_record_ascii,
      of "BlockInfoDatabase_New (leveldb_empty ref_ext)" "''ab''" "''ab''"]
  by (simp add: sample_record_def DecodeBlockRecord_def)

end
