(* ===== verification/Chain_Writer.thy ===== *)
theory Chain_Writer
  imports Block_Info_DB
begin

text \<open>
  Package \<open>src/pkg/blockchain/chainwriter\<close>: undo blocks, and the writer that appends
  serialised blocks and undo blocks to numbered files and reads them back by file name and
  offsets.

  The disk is a map from file names to contents. The writer's two halves (block files and undo
  files) follow the same discipline, which the locale \<open>append_log\<close> states once: the current
  file ends at the current offset and files with a higher number do not exist yet. Both halves
  are interpretations of it.
\<close>

section \<open>Undo blocks\<close>

record UndoBlock =
  TransactionInputHashes :: "string list"
  OutputIndexes :: "u32 list"
  Amounts :: "u32 list"
  LockingScripts :: "bytes list"

definition empty_UndoBlock :: UndoBlock where
  "empty_UndoBlock =
     \<lparr>TransactionInputHashes = [], OutputIndexes = [], Amounts = [], LockingScripts = []\<rparr>"

text \<open>The loop index runs over the hashes; a shorter companion slice panics.\<close>

definition EncodeUndoBlock :: "UndoBlock \<Rightarrow> pro_UndoBlock option" where
  "EncodeUndoBlock ub =
     (let n = length (TransactionInputHashes ub) in
      do { hashes \<leftarrow> copy_upto n (TransactionInputHashes ub);
           indexes \<leftarrow> copy_upto n (OutputIndexes ub);
           amounts \<leftarrow> copy_upto n (Amounts ub);
           scripts \<leftarrow> copy_upto n (LockingScripts ub);
           Some \<lparr>pub_TransactionInputHashes = hashes, pub_OutputIndexes = indexes,
                 pub_Amounts = amounts, pub_LockingScripts = scripts\<rparr> })"

definition DecodeUndoBlock :: "pro_UndoBlock \<Rightarrow> UndoBlock option" where
  "DecodeUndoBlock pub =
     (let n = length (pub_TransactionInputHashes pub) in
      do { hashes \<leftarrow> copy_upto n (pub_TransactionInputHashes pub);
           indexes \<leftarrow> copy_upto n (pub_OutputIndexes pub);
           amounts \<leftarrow> copy_upto n (pub_Amounts pub);
           scripts \<leftarrow> copy_upto n (pub_LockingScripts pub);
           Some \<lparr>TransactionInputHashes = hashes, OutputIndexes = indexes,
                 Amounts = amounts, LockingScripts = scripts\<rparr> })"

section \<open>Files\<close>

type_synonym disk = "string \<rightharpoonup> bytes"

record FileInfo =
  FileName :: string
  StartOffset :: u32
  EndOffset :: u32

definition writeToDisk :: "disk \<Rightarrow> string \<Rightarrow> bytes \<Rightarrow> disk" where
  "writeToDisk disk fileName data =
     disk(fileName \<mapsto> (case disk fileName of None \<Rightarrow> data | Some f \<Rightarrow> f @ data))"

text \<open>
  A missing file and a short read both panic; a read of zero bytes succeeds at any offset.
\<close>

definition readFromDisk :: "disk \<Rightarrow> FileInfo \<Rightarrow> bytes option" where
  "readFromDisk disk info =
     (case disk (FileName info) of
        None \<Rightarrow> None
      | Some f \<Rightarrow>
          let start = unat (StartOffset info);
              numBytes = unat (EndOffset info - StartOffset info)
          in if numBytes = 0 then Some []
             else if start + numBytes \<le> length f then Some (take numBytes (drop start f))
             else None)"

section \<open>The writer\<close>

record ChainWriter =
  FileExtension :: string
  DataDirectory :: string
  BlockFileName :: string
  CurrentBlockFileNumber :: u32
  CurrentBlockOffset :: u32
  MaxBlockFileSize :: u32
  UndoFileName :: string
  CurrentUndoFileNumber :: u32
  CurrentUndoOffset :: u32
  MaxUndoFileSize :: u32

record cw_Config =
  cwc_FileExtension :: string
  cwc_DataDirectory :: string
  cwc_BlockFileName :: string
  cwc_UndoFileName :: string
  cwc_MaxBlockFileSize :: u32
  cwc_MaxUndoFileSize :: u32

definition cw_DefaultConfig :: cw_Config where
  "cw_DefaultConfig =
     \<lparr>cwc_FileExtension = ''.txt'', cwc_DataDirectory = ''data'', cwc_BlockFileName = ''block'',
      cwc_UndoFileName = ''undo'', cwc_MaxBlockFileSize = 1024, cwc_MaxUndoFileSize = 1024\<rparr>"

definition fresh_ChainWriter :: "cw_Config \<Rightarrow> ChainWriter" where
  "fresh_ChainWriter config =
     \<lparr>FileExtension = cwc_FileExtension config, DataDirectory = cwc_DataDirectory config,
      BlockFileName = cwc_BlockFileName config, CurrentBlockFileNumber = 0,
      CurrentBlockOffset = 0, MaxBlockFileSize = cwc_MaxBlockFileSize config,
      UndoFileName = cwc_UndoFileName config, CurrentUndoFileNumber = 0,
      CurrentUndoOffset = 0, MaxUndoFileSize = cwc_MaxUndoFileSize config\<rparr>"

text \<open>
  \<open>New\<close> creates the data directory and stops the program when that fails, which it does when the directory exists;
  whether \<open>os.Mkdir\<close> succeeds for a name is the argument \<open>mkdir\<close>.
\<close>

definition ChainWriter_New :: "(string \<Rightarrow> bool) \<Rightarrow> cw_Config \<Rightarrow> ChainWriter option" where
  "ChainWriter_New mkdir config = (if mkdir (cwc_DataDirectory config) then Some (fresh_ChainWriter config) else None)"

definition block_file :: "ChainWriter \<Rightarrow> u32 \<Rightarrow> string" where
  "block_file cw n =
     DataDirectory cw @ ''/'' @ BlockFileName cw @ ''_'' @ itoa (unat n) @ FileExtension cw"

definition undo_file :: "ChainWriter \<Rightarrow> u32 \<Rightarrow> string" where
  "undo_file cw n =
     DataDirectory cw @ ''/'' @ UndoFileName cw @ ''_'' @ itoa (unat n) @ FileExtension cw"

definition WriteBlock :: "ChainWriter \<Rightarrow> disk \<Rightarrow> bytes \<Rightarrow> FileInfo \<times> ChainWriter \<times> disk" where
  "WriteBlock cw disk serializedBlock =
     (let len = word_of_nat (length serializedBlock);
          cw = (if CurrentBlockOffset cw + len \<ge> MaxBlockFileSize cw
                then cw\<lparr>CurrentBlockOffset := 0,
                        CurrentBlockFileNumber := CurrentBlockFileNumber cw + 1\<rparr>
                else cw);
          fileName = block_file cw (CurrentBlockFileNumber cw);
          disk = writeToDisk disk fileName serializedBlock;
          fi = \<lparr>FileName = fileName, StartOffset = CurrentBlockOffset cw,
                EndOffset = CurrentBlockOffset cw + len\<rparr>
      in (fi, cw\<lparr>CurrentBlockOffset := CurrentBlockOffset cw + len\<rparr>, disk))"

definition WriteUndoBlock :: "ChainWriter \<Rightarrow> disk \<Rightarrow> bytes \<Rightarrow> FileInfo \<times> ChainWriter \<times> disk" where
  "WriteUndoBlock cw disk serializedUndoBlock =
     (let len = word_of_nat (length serializedUndoBlock);
          cw = (if CurrentUndoOffset cw + len \<ge> MaxUndoFileSize cw
                then cw\<lparr>CurrentUndoOffset := 0,
                        CurrentUndoFileNumber := CurrentUndoFileNumber cw + 1\<rparr>
                else cw);
          fileName = undo_file cw (CurrentUndoFileNumber cw);
          disk = writeToDisk disk fileName serializedUndoBlock;
          fi = \<lparr>FileName = fileName, StartOffset = CurrentUndoOffset cw,
                EndOffset = CurrentUndoOffset cw + len\<rparr>
      in (fi, cw\<lparr>CurrentUndoOffset := CurrentUndoOffset cw + len\<rparr>, disk))"

text \<open>An undo block without amounts is not written, and its file name stays empty.\<close>

definition ChainWriter_StoreBlock ::
  "('db, 'z) ext_scheme \<Rightarrow> ChainWriter \<Rightarrow> disk \<Rightarrow> Block \<Rightarrow> UndoBlock \<Rightarrow> u32 \<Rightarrow>
   (BlockRecord \<times> ChainWriter \<times> disk) option" where
  "ChainWriter_StoreBlock E cw disk bl undoBlock height =
     (case EncodeUndoBlock undoBlock of
        None \<Rightarrow> None
      | Some ub \<Rightarrow>
          let serializedBlock = fst (marshal_Block E (EncodeBlock bl));
              serializedUndoBlock = fst (marshal_UndoBlock E ub);
              (bfi, cw, disk) = WriteBlock cw disk serializedBlock;
              (ufi, cw, disk) =
                (if Amounts undoBlock \<noteq> [] then WriteUndoBlock cw disk serializedUndoBlock
                 else (\<lparr>FileName = [], StartOffset = 0, EndOffset = 0\<rparr>, cw, disk))
          in Some (\<lparr>br_Header = b_Header bl, br_Height = height,
                    br_NumberOfTransactions = word_of_nat (length (Transactions bl)),
                    br_BlockFile = FileName bfi, br_BlockStartOffset = StartOffset bfi,
                    br_BlockEndOffset = EndOffset bfi, br_UndoFile = FileName ufi,
                    br_UndoStartOffset = StartOffset ufi, br_UndoEndOffset = EndOffset ufi\<rparr>,
                   cw, disk))"

definition ReadBlock :: "('db, 'z) ext_scheme \<Rightarrow> disk \<Rightarrow> FileInfo \<Rightarrow> Block option" where
  "ReadBlock E disk fi =
     (case readFromDisk disk fi of
        None \<Rightarrow> None
      | Some b \<Rightarrow> Some (DecodeBlock (fst (unmarshal_Block E b))))"

definition ReadUndoBlock :: "('db, 'z) ext_scheme \<Rightarrow> disk \<Rightarrow> FileInfo \<Rightarrow> UndoBlock option" where
  "ReadUndoBlock E disk fi =
     (case readFromDisk disk fi of
        None \<Rightarrow> None
      | Some b \<Rightarrow> DecodeUndoBlock (fst (unmarshal_UndoBlock E b)))"

section \<open>Undo blocks survive encoding\<close>

definition wf_UndoBlock :: "UndoBlock \<Rightarrow> bool" where
  "wf_UndoBlock ub \<longleftrightarrow>
     length (OutputIndexes ub) = length (TransactionInputHashes ub) \<and>
     length (Amounts ub) = length (TransactionInputHashes ub) \<and>
     length (LockingScripts ub) = length (TransactionInputHashes ub)"

lemma undo_roundtrip:
  "wf_UndoBlock ub \<Longrightarrow> \<exists>p. EncodeUndoBlock ub = Some p \<and> DecodeUndoBlock p = Some ub \<and>
     pub_TransactionInputHashes p = TransactionInputHashes ub"
  by (auto simp: wf_UndoBlock_def EncodeUndoBlock_def DecodeUndoBlock_def Let_def copy_upto_all)

section \<open>Append-only logs\<close>

lemma read_after_append:
  "readFromDisk d fi = Some x \<Longrightarrow> readFromDisk (writeToDisk d f data) fi = Some x"
  by (auto simp: readFromDisk_def writeToDisk_def Let_def split: option.splits if_splits)

definition file_size :: "disk \<Rightarrow> string \<Rightarrow> nat" where
  "file_size d f = (case d f of None \<Rightarrow> 0 | Some g \<Rightarrow> length g)"

lemma file_size_write:
  "file_size (writeToDisk d f data) g = (if g = f then file_size d f + length data else file_size d g)"
  by (auto simp: file_size_def writeToDisk_def split: option.splits)

lemma read_own_write:
  assumes "file_size d f = unat off"
    and "length data < 2 ^ 32" and "unat off + length data < 2 ^ 32"
  shows "readFromDisk (writeToDisk d f data)
    \<lparr>FileName = f, StartOffset = off, EndOffset = off + word_of_nat (length data)\<rparr> = Some data"
  using assms by (auto simp: readFromDisk_def writeToDisk_def file_size_def Let_def u32_of_nat_less
      split: option.splits)

definition log_ok ::
  "('w \<Rightarrow> u32 \<Rightarrow> string) \<Rightarrow> ('w \<Rightarrow> u32) \<Rightarrow> ('w \<Rightarrow> u32) \<Rightarrow> 'w \<Rightarrow> disk \<Rightarrow> bool" where
  "log_ok fname num off w d \<longleftrightarrow>
     (\<forall>n > num w. d (fname w n) = None) \<and> file_size d (fname w (num w)) = unat (off w)"

definition log_room :: "('w \<Rightarrow> u32) \<Rightarrow> ('w \<Rightarrow> u32) \<Rightarrow> 'w \<Rightarrow> bytes \<Rightarrow> bool" where
  "log_room num off w data \<longleftrightarrow> num w < 4294967295 \<and> unat (off w) + length data < 2 ^ 32"

locale append_log =
  fixes write_log :: "'w \<Rightarrow> disk \<Rightarrow> bytes \<Rightarrow> FileInfo \<times> 'w \<times> disk"
    and fname :: "'w \<Rightarrow> u32 \<Rightarrow> string"
    and num :: "'w \<Rightarrow> u32" and off :: "'w \<Rightarrow> u32" and cap :: "'w \<Rightarrow> u32"
  assumes file_inj: "fname w m = fname w n \<Longrightarrow> m = n"
    and write_log: "write_log w d data = (fi, w', d') \<Longrightarrow>
      cap w' = cap w \<and> fname w' = fname w \<and>
      num w' = (if off w + word_of_nat (length data) \<ge> cap w then num w + 1 else num w) \<and>
      StartOffset fi = (if off w + word_of_nat (length data) \<ge> cap w then 0 else off w) \<and>
      EndOffset fi = StartOffset fi + word_of_nat (length data) \<and> off w' = EndOffset fi \<and>
      FileName fi = fname w (num w') \<and> d' = writeToDisk d (FileName fi) data"
begin

lemma write_current:
  assumes "log_ok fname num off w d" and "log_room num off w data" and "write_log w d data = (fi, w', d')"
  shows "file_size d (fname w (num w')) = unat (StartOffset fi)"
proof (cases "off w + word_of_nat (length data) \<ge> cap w")
  case True
  have "num w < num w + 1" using assms(2) by (simp add: log_room_def word_less_nat_alt u32_inc)
  then have "d (fname w (num w + 1)) = None" using assms(1) by (simp add: log_ok_def)
  then show ?thesis using write_log [OF assms(3)] True by (simp add: file_size_def)
next
  case False
  then show ?thesis using write_log [OF assms(3)] assms(1) by (simp add: log_ok_def)
qed

lemma write_start_room:
  assumes "log_room num off w data" and "write_log w d data = (fi, w', d')"
  shows "unat (StartOffset fi) + length data < 2 ^ 32"
  using assms(1) write_log [OF assms(2)] by (auto simp: log_room_def)

lemma write_read:
  assumes "log_ok fname num off w d" and "log_room num off w data" and "write_log w d data = (fi, w', d')"
  shows "readFromDisk d' fi = Some data"
proof -
  have len: "length data < 2 ^ 32" using assms(2) by (simp add: log_room_def)
  have "fi = \<lparr>FileName = fname w (num w'), StartOffset = StartOffset fi,
      EndOffset = StartOffset fi + word_of_nat (length data)\<rparr>"
    and "d' = writeToDisk d (fname w (num w')) data"
    using write_log [OF assms(3)] by simp_all
  then show ?thesis
    using read_own_write [OF write_current [OF assms] len write_start_room [OF assms(2,3)]] by simp
qed

lemma write_keeps: "write_log w d data = (fi, w', d') \<Longrightarrow> readFromDisk d fi0 = Some x \<Longrightarrow>
    readFromDisk d' fi0 = Some x"
  using write_log read_after_append by blast

lemma write_log_ok:
  assumes "log_ok fname num off w d" and "log_room num off w data" and "write_log w d data = (fi, w', d')"
  shows "log_ok fname num off w' d'"
proof -
  note w = write_log [OF assms(3)]
  have le: "num w \<le> num w'"
    using w assms(2) by (auto simp: log_room_def word_le_nat_alt u32_inc)
  have "d' (fname w n) = None" if "n > num w'" for n
  proof -
    have "fname w n \<noteq> fname w (num w')" using file_inj that by blast
    then show ?thesis using w assms(1) that le by (auto simp: writeToDisk_def log_ok_def)
  qed
  moreover have "unat (off w') = unat (StartOffset fi) + length data"
    using w write_start_room [OF assms(2,3)] by (simp add: u32_add_no_wrap u32_of_nat_less)
  ultimately show ?thesis
    using w write_current [OF assms] by (simp add: log_ok_def file_size_write)
qed

lemma write_other: "write_log w d data = (fi, w', d') \<Longrightarrow> (\<forall>n. g \<noteq> fname w n) \<Longrightarrow> d' g = d g"
  using write_log [of w d data fi w' d'] by (simp add: writeToDisk_def)

text \<open>A file grows beyond its capacity only by a single oversized entry.\<close>

lemma write_size:
  assumes "log_room num off w data" and "write_log w d data = (fi, w', d')"
  shows "EndOffset fi < cap w \<or> StartOffset fi = 0"
  using write_log [OF assms(2)] by (auto simp: not_le)

end

lemma block_file_inj: "block_file cw m = block_file cw n \<Longrightarrow> m = n"
  using split_at_last_underscore [of "BlockFileName cw" "unat m" "BlockFileName cw" "unat n"]
  by (simp add: block_file_def word_unat_eq_iff)

lemma undo_file_inj: "undo_file cw m = undo_file cw n \<Longrightarrow> m = n"
  using split_at_last_underscore [of "UndoFileName cw" "unat m" "UndoFileName cw" "unat n"]
  by (simp add: undo_file_def word_unat_eq_iff)

lemma block_file_not_undo_file:
  "BlockFileName cw \<noteq> UndoFileName cw \<Longrightarrow> block_file cw m \<noteq> undo_file cw n"
  using split_at_last_underscore [of "BlockFileName cw" "unat m" "UndoFileName cw" "unat n"]
  by (auto simp: undo_file_def block_file_def)

interpretation block_log: append_log WriteBlock block_file
  CurrentBlockFileNumber CurrentBlockOffset MaxBlockFileSize
  by unfold_locales
    (rule block_file_inj, assumption, auto simp: WriteBlock_def Let_def block_file_def fun_eq_iff split: if_splits)

interpretation undo_log: append_log WriteUndoBlock undo_file
  CurrentUndoFileNumber CurrentUndoOffset MaxUndoFileSize
  by unfold_locales
    (rule undo_file_inj, assumption, auto simp: WriteUndoBlock_def Let_def undo_file_def fun_eq_iff split: if_splits)

section \<open>Storing and reading blocks\<close>

definition cw_ok :: "ChainWriter \<Rightarrow> disk \<Rightarrow> bool" where
  "cw_ok cw d \<longleftrightarrow> BlockFileName cw \<noteq> UndoFileName cw \<and>
     log_ok block_file CurrentBlockFileNumber CurrentBlockOffset cw d \<and>
     log_ok undo_file CurrentUndoFileNumber CurrentUndoOffset cw d"

definition cw_room :: "ChainWriter \<Rightarrow> bytes \<Rightarrow> bytes \<Rightarrow> bool" where
  "cw_room cw b u \<longleftrightarrow> log_room CurrentBlockFileNumber CurrentBlockOffset cw b \<and>
     log_room CurrentUndoFileNumber CurrentUndoOffset cw u"

definition block_info :: "BlockRecord \<Rightarrow> FileInfo" where
  "block_info br =
     \<lparr>FileName = br_BlockFile br, StartOffset = br_BlockStartOffset br, EndOffset = br_BlockEndOffset br\<rparr>"

definition undo_info :: "BlockRecord \<Rightarrow> FileInfo" where
  "undo_info br =
     \<lparr>FileName = br_UndoFile br, StartOffset = br_UndoStartOffset br, EndOffset = br_UndoEndOffset br\<rparr>"

lemma FileInfo_eta [simp]:
  "\<lparr>FileName = FileName fi, StartOffset = StartOffset fi, EndOffset = EndOffset fi\<rparr> = fi"
  by (cases fi) simp

lemma log_ok_cong:
  "fname w' = fname w \<Longrightarrow> num w' = num w \<Longrightarrow> off w' = off w \<Longrightarrow> (\<And>n. d' (fname w n) = d (fname w n)) \<Longrightarrow>
   log_ok fname num off w' d' = log_ok fname num off w d"
  by (simp add: log_ok_def file_size_def)

lemma WriteBlock_frame:
  "WriteBlock cw d data = (fi, cw', d') \<Longrightarrow>
   BlockFileName cw' = BlockFileName cw \<and> UndoFileName cw' = UndoFileName cw \<and>
   undo_file cw' = undo_file cw \<and> CurrentUndoFileNumber cw' = CurrentUndoFileNumber cw \<and>
   CurrentUndoOffset cw' = CurrentUndoOffset cw \<and> MaxUndoFileSize cw' = MaxUndoFileSize cw"
  by (auto simp: WriteBlock_def Let_def undo_file_def fun_eq_iff)

lemma WriteUndoBlock_frame:
  "WriteUndoBlock cw d data = (fi, cw', d') \<Longrightarrow>
   BlockFileName cw' = BlockFileName cw \<and> UndoFileName cw' = UndoFileName cw \<and>
   block_file cw' = block_file cw \<and> CurrentBlockFileNumber cw' = CurrentBlockFileNumber cw \<and>
   CurrentBlockOffset cw' = CurrentBlockOffset cw \<and> MaxBlockFileSize cw' = MaxBlockFileSize cw"
  by (auto simp: WriteUndoBlock_def Let_def block_file_def fun_eq_iff)

lemma WriteBlock_ok:
  assumes "cw_ok cw d" and "log_room CurrentBlockFileNumber CurrentBlockOffset cw b"
    and "WriteBlock cw d b = (fi, cw', d')"
  shows "cw_ok cw' d' \<and> readFromDisk d' fi = Some b"
proof -
  note fr = WriteBlock_frame [OF assms(3)]
  have "d' (undo_file cw n) = d (undo_file cw n)" for n
    using block_log.write_other [OF assms(3)] block_file_not_undo_file assms(1)
    by (metis cw_ok_def)
  then have "log_ok undo_file CurrentUndoFileNumber CurrentUndoOffset cw' d'"
    using assms(1) fr log_ok_cong [of undo_file cw' cw] by (simp add: cw_ok_def)
  moreover have "log_ok block_file CurrentBlockFileNumber CurrentBlockOffset cw d"
    using assms(1) by (simp add: cw_ok_def)
  ultimately show ?thesis
    using assms fr block_log.write_log_ok [OF _ assms(2,3)] block_log.write_read [OF _ assms(2,3)]
    by (simp add: cw_ok_def)
qed

lemma WriteUndoBlock_ok:
  assumes "cw_ok cw d" and "log_room CurrentUndoFileNumber CurrentUndoOffset cw u"
    and "WriteUndoBlock cw d u = (fi, cw', d')"
  shows "cw_ok cw' d' \<and> readFromDisk d' fi = Some u"
proof -
  note fr = WriteUndoBlock_frame [OF assms(3)]
  have "d' (block_file cw n) = d (block_file cw n)" for n
    using undo_log.write_other [OF assms(3)] block_file_not_undo_file assms(1)
    by (metis cw_ok_def)
  then have "log_ok block_file CurrentBlockFileNumber CurrentBlockOffset cw' d'"
    using assms(1) fr log_ok_cong [of block_file cw' cw] by (simp add: cw_ok_def)
  moreover have "log_ok undo_file CurrentUndoFileNumber CurrentUndoOffset cw d"
    using assms(1) by (simp add: cw_ok_def)
  ultimately show ?thesis
    using assms fr undo_log.write_log_ok [OF _ assms(2,3)] undo_log.write_read [OF _ assms(2,3)]
    by (simp add: cw_ok_def)
qed

lemma cw_ok_New:
  "cwc_BlockFileName c \<noteq> cwc_UndoFileName c \<Longrightarrow> cw_ok (fresh_ChainWriter c) (\<lambda>_. None)"
  by (simp add: cw_ok_def fresh_ChainWriter_def log_ok_def file_size_def)

text \<open>File names stay ASCII when the configured names are.\<close>

definition ascii_files :: "ChainWriter \<Rightarrow> bool" where
  "ascii_files cw \<longleftrightarrow> ascii (DataDirectory cw) \<and> ascii (BlockFileName cw) \<and> ascii (UndoFileName cw) \<and>
     ascii (FileExtension cw)"

lemma ascii_file_names:
  assumes "ascii_files cw"
  shows "ascii (block_file cw n)" "ascii (undo_file cw n)"
  using assms by (simp_all add: ascii_files_def block_file_def undo_file_def)

lemma Write_frame_ascii:
  "WriteBlock cw d b = (fi, cw', d') \<Longrightarrow> ascii_files cw' = ascii_files cw"
  "WriteUndoBlock cw d b = (fi, cw', d') \<Longrightarrow> ascii_files cw' = ascii_files cw"
  by (auto simp: WriteBlock_def WriteUndoBlock_def Let_def ascii_files_def split: if_splits)

lemma Write_ascii:
  "WriteBlock cw d b = (fi, cw', d') \<Longrightarrow> ascii_files cw \<Longrightarrow> ascii_files cw' \<and> ascii (FileName fi)"
  "WriteUndoBlock cw d b = (fi, cw', d') \<Longrightarrow> ascii_files cw \<Longrightarrow> ascii_files cw' \<and> ascii (FileName fi)"
proof -
  show "ascii_files cw' \<and> ascii (FileName fi)" if w: "WriteBlock cw d b = (fi, cw', d')" "ascii_files cw"
    using block_log.write_log [OF w(1)] Write_frame_ascii(1) [OF w(1)] ascii_file_names(1) [OF w(2)] w(2) by simp
  show "ascii_files cw' \<and> ascii (FileName fi)" if w: "WriteUndoBlock cw d b = (fi, cw', d')" "ascii_files cw"
    using undo_log.write_log [OF w(1)] Write_frame_ascii(2) [OF w(1)] ascii_file_names(2) [OF w(2)] w(2) by simp
qed

lemma ChainWriter_StoreBlock_ok:
  assumes laws: "proto_laws E" and ok: "cw_ok cw d" and wf: "wf_UndoBlock ub"
    and ascii: "ascii_Block (EncodeBlock bl)" "list_all ascii (TransactionInputHashes ub)"
    and room: "\<And>p. EncodeUndoBlock ub = Some p \<Longrightarrow>
      cw_room cw (fst (marshal_Block E (EncodeBlock bl))) (fst (marshal_UndoBlock E p))"
  shows "\<exists>br cw' d'. ChainWriter_StoreBlock E cw d bl ub height = Some (br, cw', d') \<and>
    cw_ok cw' d' \<and> br_Height br = height \<and> br_Header br = b_Header bl \<and>
    ReadBlock E d' (block_info br) = Some bl \<and>
    (Amounts ub \<noteq> [] \<longrightarrow> ReadUndoBlock E d' (undo_info br) = Some ub) \<and>
    (\<forall>fi x. readFromDisk d fi = Some x \<longrightarrow> readFromDisk d' fi = Some x) \<and>
    (Amounts ub = [] \<longrightarrow> br_UndoFile br = []) \<and>
    (ascii_files cw \<longrightarrow> ascii_files cw' \<and> ascii (br_BlockFile br) \<and> ascii (br_UndoFile br))"
proof -
  obtain p where p: "EncodeUndoBlock ub = Some p" "DecodeUndoBlock p = Some ub"
    "pub_TransactionInputHashes p = TransactionInputHashes ub"
    using undo_roundtrip [OF wf] by auto
  let ?b = "fst (marshal_Block E (EncodeBlock bl))" and ?u = "fst (marshal_UndoBlock E p)"
  have asc: "ascii_UndoBlock p" using ascii(2) p(3) by (simp add: ascii_UndoBlock_def)
  have rooms: "log_room CurrentBlockFileNumber CurrentBlockOffset cw ?b"
    "log_room CurrentUndoFileNumber CurrentUndoOffset cw ?u"
    using room [OF p(1)] by (simp_all add: cw_room_def)
  obtain bfi cw1 d1 where w1: "WriteBlock cw d ?b = (bfi, cw1, d1)" by (metis prod_cases3)
  have ok1: "cw_ok cw1 d1" and rd1: "readFromDisk d1 bfi = Some ?b"
    using WriteBlock_ok [OF ok rooms(1) w1] by auto
  have room1: "log_room CurrentUndoFileNumber CurrentUndoOffset cw1 ?u"
    using rooms(2) WriteBlock_frame [OF w1] by (simp add: log_room_def)
  show ?thesis
  proof (cases "Amounts ub = []")
    case True
    then show ?thesis
      using p w1 ok1 rd1 block_log.write_keeps [OF w1] laws ascii(1) Write_ascii(1) [OF w1]
      by (simp add: ChainWriter_StoreBlock_def Let_def ReadBlock_def block_info_def
          unmarshal_marshal block_wire.decode_encode)
  next
    case False
    obtain ufi cw2 d2 where w2: "WriteUndoBlock cw1 d1 ?u = (ufi, cw2, d2)" by (metis prod_cases3)
    have ok2: "cw_ok cw2 d2" and rd2: "readFromDisk d2 ufi = Some ?u"
      using WriteUndoBlock_ok [OF ok1 room1 w2] by auto
    have keep: "readFromDisk d fi = Some x \<Longrightarrow> readFromDisk d2 fi = Some x" for fi x
      using block_log.write_keeps [OF w1] undo_log.write_keeps [OF w2] by blast
    have rd1': "readFromDisk d2 bfi = Some ?b" using undo_log.write_keeps [OF w2 rd1] .
    show ?thesis
      using False p w1 w2 ok2 rd1' rd2 keep laws ascii(1) asc Write_ascii(1) [OF w1] Write_ascii(2) [OF w2]
      by (simp add: ChainWriter_StoreBlock_def Let_def ReadBlock_def ReadUndoBlock_def
          block_info_def undo_info_def unmarshal_marshal block_wire.decode_encode)
  qed
qed

text \<open>
  C4: Storing a block and its undo block returns a record from which both are read back
  unchanged; everything that could be read before can still be read, and the writer stays in
  a state in which this holds for the next block. The sizes must stay below \<open>2^32\<close>, the
  hashes must be ASCII, and the two kinds of files must have different names.
\<close>

theorem store_block_read_back:
  assumes laws: "proto_laws E" and ok: "cw_ok cw d" and wf: "wf_UndoBlock ub"
    and ascii: "ascii_Block (EncodeBlock bl)" "list_all ascii (TransactionInputHashes ub)"
    and room: "\<And>p. EncodeUndoBlock ub = Some p \<Longrightarrow>
      cw_room cw (fst (marshal_Block E (EncodeBlock bl))) (fst (marshal_UndoBlock E p))"
  shows "\<exists>br cw' d'. ChainWriter_StoreBlock E cw d bl ub height = Some (br, cw', d') \<and>
    cw_ok cw' d' \<and> br_Height br = height \<and> br_Header br = b_Header bl \<and>
    ReadBlock E d' (block_info br) = Some bl \<and>
    (Amounts ub \<noteq> [] \<longrightarrow> ReadUndoBlock E d' (undo_info br) = Some ub) \<and>
    (\<forall>fi x. readFromDisk d fi = Some x \<longrightarrow> readFromDisk d' fi = Some x)"
  using ChainWriter_StoreBlock_ok [OF laws ok wf ascii room] by metis

text \<open>
  A block that spends nothing has no undo file, and reading its undo block opens a file with
  an empty name, which panics.
\<close>

lemma undo_of_block_without_inputs_panics:
  assumes "ChainWriter_StoreBlock E cw d bl ub height = Some (br, cw', d')" and "Amounts ub = []"
    and "d' [] = None"
  shows "ReadUndoBlock E d' (undo_info br) = None"
  using assms by (auto simp: ChainWriter_StoreBlock_def Let_def ReadUndoBlock_def readFromDisk_def
      undo_info_def split: option.splits prod.splits)

text \<open>
  A stored block ends below the file size limit unless it starts its file: the limit is
  exceeded only by a single block that is larger than the limit on its own.
\<close>

theorem block_file_size_limit:
  assumes "WriteBlock cw d b = (fi, cw', d')"
  shows "EndOffset fi < MaxBlockFileSize cw \<or> StartOffset fi = 0"
  using block_log.write_log [OF assms] by (auto simp: not_le)

section \<open>Instances\<close>

definition sample_cw :: ChainWriter where
  "sample_cw = fresh_ChainWriter cw_DefaultConfig"

definition sample_block :: Block where
  "sample_block =
     \<lparr>b_Header = \<lparr>h_Version = 0, h_PreviousHash = [], h_MerkleRoot = [], h_DifficultyTarget = [],
        h_Nonce = 0, h_Timestamp = 0\<rparr>, Transactions = []\<rparr>"

definition sample_undo :: UndoBlock where
  "sample_undo = \<lparr>TransactionInputHashes = [''ab''], OutputIndexes = [0], Amounts = [5], LockingScripts = [[1]]\<rparr>"

lemma sample_cw_ok: "cw_ok sample_cw (\<lambda>_. None)"
  unfolding sample_cw_def by (rule cw_ok_New) (simp add: cw_DefaultConfig_def)

lemma length_enc [simp]:
  "length (enc_u32 w) = 4" "length (enc_unary n) = Suc n" "length (enc_bytes b) = Suc (2 * length b)"
  "length (enc_string s) = Suc (2 * length s)"
proof -
  show u: "length (enc_u32 w) = 4" by (simp add: enc_u32_def length_enc_digits)
  show n: "length (enc_unary n) = Suc n" for n by (induction n) simp_all
  have "length (concat (map enc_byte b)) = length b" for b
    by (induction b) (simp_all add: enc_byte_def)
  then show b: "length (enc_bytes b) = Suc (2 * length b)" for b
    using n by (simp add: enc_bytes_def enc_list_def)
  show "length (enc_string s) = Suc (2 * length s)"
    using b [of "bytes_of s"] by (simp add: enc_string_def bytes_of_def)
qed

lemma sample_room:
  "EncodeUndoBlock sample_undo = Some p \<Longrightarrow>
   cw_room sample_cw (fst (marshal_Block ref_ext (EncodeBlock sample_block))) (fst (marshal_UndoBlock ref_ext p))"
  by (auto simp: cw_room_def log_room_def sample_cw_def fresh_ChainWriter_def ref_ext_def enc_Block_def
      enc_UndoBlock_def EncodeBlock_def EncodeHeader_def enc_Header_def sample_block_def enc_opt_def
      enc_list_def sample_undo_def EncodeUndoBlock_def copy_upto_all)

theorem store_block_read_back_witness:
  "\<exists>br cw' d'. ChainWriter_StoreBlock ref_ext sample_cw (\<lambda>_. None) sample_block sample_undo 2 = Some (br, cw', d') \<and>
     ReadBlock ref_ext d' (block_info br) = Some sample_block \<and>
     ReadUndoBlock ref_ext d' (undo_info br) = Some sample_undo"
proof -
  have "wf_UndoBlock sample_undo" "Amounts sample_undo \<noteq> []"
    "list_all ascii (TransactionInputHashes sample_undo)"
    by (simp_all add: wf_UndoBlock_def sample_undo_def ascii_def)
  moreover have "ascii_Block (EncodeBlock sample_block)"
    by (simp add: ascii_Block_def EncodeBlock_def sample_block_def ascii_Header_def EncodeHeader_def ascii_def)
  ultimately show ?thesis
    using store_block_read_back [OF ref_ext_proto sample_cw_ok _ _ _ sample_room, where height = 2] by blast
qed

theorem block_file_size_limit_witness:
  "EndOffset (fst (WriteBlock sample_cw (\<lambda>_. None) [1, 2])) < 1024 \<or>
   StartOffset (fst (WriteBlock sample_cw (\<lambda>_. None) [1, 2])) = 0"
  using block_file_size_limit [of sample_cw "\<lambda>_. None" "[1, 2]"]
  by (cases "WriteBlock sample_cw (\<lambda>_. None) [1, 2]")
    (simp add: sample_cw_def fresh_ChainWriter_def cw_DefaultConfig_def)

end
