(* ===== verification/Coin_Database.thy ===== *)
theory Coin_Database
  imports Chain_Writer "HOL-Library.AList"
begin

text \<open>
  Package \<open>src/pkg/blockchain/coindatabase\<close>: the set of spendable coins, kept as a cache
  of coins over a levelDB of coin records.

  The Go map \<open>mainCache\<close> is an association list with distinct keys; its order stands for
  the iteration order of the map, which Go leaves open, and \<open>flush_order_irrelevant\<close> shows
  that the order does not matter. Coins are shared by pointer only between the cache and the
  reader of \<open>GetCoin\<close>, which does not write them, so they are values here.

  What the component promises is the abstract state \<open>utxo\<close>, a map from coin locators to
  transaction outputs: the lemmas show what each operation does to it.
\<close>

section \<open>Coins and coin records (\<open>coin.go\<close>, \<open>coinrecord.go\<close>)\<close>

record Coin =
  c_TransactionOutput :: TransactionOutput
  IsSpent :: bool

record CoinLocator =
  cl_ReferenceTransactionHash :: string
  cl_OutputIndex :: u32

definition makeCoinLocator :: "TransactionInput \<Rightarrow> CoinLocator" where
  "makeCoinLocator txi =
     \<lparr>cl_ReferenceTransactionHash = ReferenceTransactionHash txi, cl_OutputIndex = OutputIndex txi\<rparr>"

record CoinRecord =
  cr_Version :: u32
  cr_OutputIndexes :: "u32 list"
  cr_Amounts :: "u32 list"
  cr_LockingScripts :: "bytes list"

text \<open>The loop index runs over the output indexes; a shorter companion slice panics.\<close>

definition EncodeCoinRecord :: "CoinRecord \<Rightarrow> pro_CoinRecord option" where
  "EncodeCoinRecord cr =
     (let n = length (cr_OutputIndexes cr) in
      do { outputIndexes \<leftarrow> copy_upto n (cr_OutputIndexes cr);
           amounts \<leftarrow> copy_upto n (cr_Amounts cr);
           lockingScripts \<leftarrow> copy_upto n (cr_LockingScripts cr);
           Some \<lparr>pcr_Version = cr_Version cr, pcr_OutputIndexes = outputIndexes,
                 pcr_Amounts = amounts, pcr_LockingScripts = lockingScripts\<rparr> })"

definition DecodeCoinRecord :: "pro_CoinRecord \<Rightarrow> CoinRecord option" where
  "DecodeCoinRecord pcr =
     (let n = length (pcr_OutputIndexes pcr) in
      do { outputIndexes \<leftarrow> copy_upto n (pcr_OutputIndexes pcr);
           amounts \<leftarrow> copy_upto n (pcr_Amounts pcr);
           lockingScripts \<leftarrow> copy_upto n (pcr_LockingScripts pcr);
           Some \<lparr>cr_Version = pcr_Version pcr, cr_OutputIndexes = outputIndexes,
                 cr_Amounts = amounts, cr_LockingScripts = lockingScripts\<rparr> })"

section \<open>The database\<close>

record 'db CoinDatabase =
  cdb :: 'db
  mainCache :: "(CoinLocator \<times> Coin) list"
  mainCacheSize :: u32
  mainCacheCapacity :: u32

record cdb_Config =
  cdbc_DatabasePath :: string
  cdbc_MainCacheCapacity :: u32

definition cdb_DefaultConfig :: cdb_Config where
  "cdb_DefaultConfig = \<lparr>cdbc_DatabasePath = ''coindata'', cdbc_MainCacheCapacity = 30\<rparr>"

text \<open>\<open>New\<close> opens the levelDB at the configured path; its contents \<open>db\<close> are an argument.\<close>

definition CoinDatabase_New :: "'db \<Rightarrow> cdb_Config \<Rightarrow> 'db CoinDatabase" where
  "CoinDatabase_New db config =
     \<lparr>cdb = db, mainCache = [], mainCacheSize = 0,
      mainCacheCapacity = cdbc_MainCacheCapacity config\<rparr>"

subsection \<open>Slices of output indexes\<close>

fun contains :: "u32 list \<Rightarrow> u32 \<Rightarrow> bool" where
  "contains [] e = False"
| "contains (a # s) e = (if a = e then True else contains s e)"

fun indexOf_from :: "int \<Rightarrow> u32 list \<Rightarrow> u32 \<Rightarrow> int" where
  "indexOf_from i [] e = -1"
| "indexOf_from i (a # s) e = (if a = e then i else indexOf_from (i + 1) s e)"

definition indexOf :: "u32 list \<Rightarrow> u32 \<Rightarrow> int" where
  "indexOf s e = indexOf_from 0 s e"

subsection \<open>Coin records in the database\<close>

text \<open>The result is nil (the inner \<^const>\<open>None\<close>) when the key is absent.\<close>

definition getCoinRecordFromDB ::
  "('db, 'z) ext_scheme \<Rightarrow> 'db CoinDatabase \<Rightarrow> string \<Rightarrow> CoinRecord option option" where
  "getCoinRecordFromDB E coinDB txHash =
     (case leveldb_Get E (cdb coinDB) (bytes_of txHash) of
        None \<Rightarrow> Some None
      | Some data \<Rightarrow>
          (case DecodeCoinRecord (fst (unmarshal_CoinRecord E data)) of
             None \<Rightarrow> None | Some cr \<Rightarrow> Some (Some cr)))"

definition putRecordInDB ::
  "('db, 'z) ext_scheme \<Rightarrow> 'db CoinDatabase \<Rightarrow> string \<Rightarrow> CoinRecord \<Rightarrow> 'db CoinDatabase option" where
  "putRecordInDB E coinDB txHash cr =
     (case EncodeCoinRecord cr of
        None \<Rightarrow> None
      | Some record \<Rightarrow>
          Some (coinDB\<lparr>cdb := leveldb_Put E (cdb coinDB) (bytes_of txHash)
                                (fst (marshal_CoinRecord E record))\<rparr>))"

definition deleteRecord :: "('db, 'z) ext_scheme \<Rightarrow> 'db CoinDatabase \<Rightarrow> string \<Rightarrow> 'db CoinDatabase" where
  "deleteRecord E coinDB txHash = coinDB\<lparr>cdb := leveldb_Delete E (cdb coinDB) (bytes_of txHash)\<rparr>"

text \<open>\<open>append(s[:index], s[index+1:]...)\<close>, which panics when \<open>index\<close> is out of range.\<close>

definition remove_at :: "'a list \<Rightarrow> nat \<Rightarrow> 'a list option" where
  "remove_at s i = (if i < length s then Some (take i s @ drop (Suc i) s) else None)"

definition removeCoinFromRecord :: "CoinRecord \<Rightarrow> u32 \<Rightarrow> CoinRecord option" where
  "removeCoinFromRecord cr outputIndex =
     (let index = indexOf (cr_OutputIndexes cr) outputIndex in
      if index < 0 then Some cr
      else do { is \<leftarrow> remove_at (cr_OutputIndexes cr) (nat index);
                as \<leftarrow> remove_at (cr_Amounts cr) (nat index);
                ls \<leftarrow> remove_at (cr_LockingScripts cr) (nat index);
                Some (cr\<lparr>cr_OutputIndexes := is, cr_Amounts := as, cr_LockingScripts := ls\<rparr>) })"

definition removeCoinFromDB ::
  "('db, 'z) ext_scheme \<Rightarrow> 'db CoinDatabase \<Rightarrow> string \<Rightarrow> CoinLocator \<Rightarrow> 'db CoinDatabase option" where
  "removeCoinFromDB E coinDB txHash cl =
     (case getCoinRecordFromDB E coinDB txHash of
        None \<Rightarrow> None
      | Some None \<Rightarrow> Some coinDB
      | Some (Some cr) \<Rightarrow>
          if length (cr_Amounts cr) \<le> 1 then Some (deleteRecord E coinDB txHash)
          else (case removeCoinFromRecord cr (cl_OutputIndex cl) of
                  None \<Rightarrow> None
                | Some cr' \<Rightarrow> putRecordInDB E coinDB txHash cr'))"

definition createCoinRecord :: "Transaction \<Rightarrow> CoinRecord" where
  "createCoinRecord tx =
     \<lparr>cr_Version = 0, cr_OutputIndexes = map word_of_nat [0..<length (Outputs tx)],
      cr_Amounts = map Amount (Outputs tx), cr_LockingScripts = map LockingScript (Outputs tx)\<rparr>"

subsection \<open>Validation\<close>

datatype coin_error = CoinAlreadySpent | CoinNotInLevelDB | CoinNotInRecord

fun validate_inputs ::
  "('db, 'z) ext_scheme \<Rightarrow> 'db CoinDatabase \<Rightarrow> TransactionInput list \<Rightarrow> (coin_error + unit) option" where
  "validate_inputs E coinDB [] = Some (Inr ())"
| "validate_inputs E coinDB (txi # txis) =
     (case map_of (mainCache coinDB) (makeCoinLocator txi) of
        Some coin \<Rightarrow>
          if IsSpent coin then Some (Inl CoinAlreadySpent) else validate_inputs E coinDB txis
      | None \<Rightarrow>
          (case leveldb_Get E (cdb coinDB) (bytes_of (ReferenceTransactionHash txi)) of
             None \<Rightarrow> Some (Inl CoinNotInLevelDB)
           | Some data \<Rightarrow>
               (case DecodeCoinRecord (fst (unmarshal_CoinRecord E data)) of
                  None \<Rightarrow> None
                | Some cr \<Rightarrow>
                    if \<not> contains (cr_OutputIndexes cr) (OutputIndex txi)
                    then Some (Inl CoinNotInRecord) else validate_inputs E coinDB txis)))"

definition ValidateTransaction ::
  "('db, 'z) ext_scheme \<Rightarrow> 'db CoinDatabase \<Rightarrow> Transaction \<Rightarrow> (coin_error + unit) option" where
  "ValidateTransaction E coinDB tx = validate_inputs E coinDB (Inputs tx)"

fun ValidateBlock ::
  "('db, 'z) ext_scheme \<Rightarrow> 'db CoinDatabase \<Rightarrow> Transaction list \<Rightarrow> bool option" where
  "ValidateBlock E coinDB [] = Some True"
| "ValidateBlock E coinDB (tx # txs) =
     (case ValidateTransaction E coinDB tx of
        None \<Rightarrow> None
      | Some (Inl e) \<Rightarrow> Some False
      | Some (Inr u) \<Rightarrow> ValidateBlock E coinDB txs)"

subsection \<open>Flushing the cache\<close>

text \<open>
  One step of the first loop of \<open>FlushMainCache\<close>: \<open>updated\<close> is the map
  \<open>updatedCoinRecords\<close>, and a spent coin leaves the cache.
\<close>

definition flush_step ::
  "('db, 'z) ext_scheme \<Rightarrow> (string \<times> CoinRecord) list \<times> 'db CoinDatabase \<Rightarrow> CoinLocator \<times> Coin \<Rightarrow>
   ((string \<times> CoinRecord) list \<times> 'db CoinDatabase) option" where
  "flush_step E st entry =
     (let (updated, coinDB) = st; (cl, coin) = entry; h = cl_ReferenceTransactionHash cl in
      if \<not> IsSpent coin then Some (updated, coinDB)
      else
        let cr = (case map_of updated h of
                    Some cr2 \<Rightarrow> Some cr2
                  | None \<Rightarrow>
                      DecodeCoinRecord (fst (unmarshal_CoinRecord E
                        (case leveldb_Get E (cdb coinDB) (bytes_of h) of None \<Rightarrow> [] | Some data \<Rightarrow> data))))
        in do { cr \<leftarrow> cr;
                cr' \<leftarrow> removeCoinFromRecord cr (cl_OutputIndex cl);
                Some (AList.update h cr' updated,
                      coinDB\<lparr>mainCache := AList.delete cl (mainCache coinDB)\<rparr>) })"

definition write_record ::
  "('db, 'z) ext_scheme \<Rightarrow> 'db CoinDatabase \<Rightarrow> string \<times> CoinRecord \<Rightarrow> 'db CoinDatabase option" where
  "write_record E coinDB entry =
     (let (key, cr) = entry in
      if length (cr_OutputIndexes cr) = 0 then Some (deleteRecord E coinDB key)
      else putRecordInDB E coinDB key cr)"

definition FlushMainCache :: "('db, 'z) ext_scheme \<Rightarrow> 'db CoinDatabase \<Rightarrow> 'db CoinDatabase option" where
  "FlushMainCache E coinDB =
     do { (updated, coinDB) \<leftarrow> fold_opt (flush_step E) ([], coinDB) (mainCache coinDB);
          fold_opt (write_record E) (coinDB\<lparr>mainCacheSize := 0\<rparr>) updated }"

subsection \<open>Storing a block\<close>

definition spend_input ::
  "('db, 'z) ext_scheme \<Rightarrow> Transaction \<Rightarrow> 'db CoinDatabase \<Rightarrow> TransactionInput \<Rightarrow> 'db CoinDatabase option" where
  "spend_input E tx coinDB txi =
     (let cl = makeCoinLocator txi in
      case map_of (mainCache coinDB) cl of
        Some coin \<Rightarrow>
          Some (coinDB\<lparr>mainCache := AList.update cl (coin\<lparr>IsSpent := True\<rparr>) (mainCache coinDB)\<rparr>)
      | None \<Rightarrow> removeCoinFromDB E coinDB (Transaction_Hash E tx) cl)"

definition updateSpentCoins ::
  "('db, 'z) ext_scheme \<Rightarrow> 'db CoinDatabase \<Rightarrow> Transaction list \<Rightarrow> 'db CoinDatabase option" where
  "updateSpentCoins E coinDB txs =
     fold_opt (\<lambda>c tx. fold_opt (spend_input E tx) c (Inputs tx)) coinDB txs"

definition cache_output ::
  "('db, 'z) ext_scheme \<Rightarrow> Transaction \<Rightarrow> 'db CoinDatabase \<Rightarrow> nat \<times> TransactionOutput \<Rightarrow>
   'db CoinDatabase option" where
  "cache_output E tx coinDB itxo =
     (let (i, txo) = itxo in
      do { coinDB \<leftarrow>
             (if mainCacheSize coinDB + word_of_nat (length (Outputs tx)) \<ge> mainCacheCapacity coinDB
              then FlushMainCache E coinDB else Some coinDB);
           Some (coinDB\<lparr>mainCache := AList.update
                   \<lparr>cl_ReferenceTransactionHash = Transaction_Hash E tx, cl_OutputIndex = word_of_nat i\<rparr>
                   \<lparr>c_TransactionOutput = txo, IsSpent = False\<rparr> (mainCache coinDB),
                 mainCacheSize := mainCacheSize coinDB + 1\<rparr>) })"

definition storeTransactionsInMainCache ::
  "('db, 'z) ext_scheme \<Rightarrow> 'db CoinDatabase \<Rightarrow> Transaction list \<Rightarrow> 'db CoinDatabase option" where
  "storeTransactionsInMainCache E coinDB txs =
     fold_opt (\<lambda>c tx. fold_opt (cache_output E tx) c (List.enumerate 0 (Outputs tx))) coinDB txs"

definition storeTransactionsInDB ::
  "('db, 'z) ext_scheme \<Rightarrow> 'db CoinDatabase \<Rightarrow> Transaction list \<Rightarrow> 'db CoinDatabase option" where
  "storeTransactionsInDB E coinDB txs =
     fold_opt (\<lambda>c tx. putRecordInDB E c (Transaction_Hash E tx) (createCoinRecord tx)) coinDB txs"

definition CoinDatabase_StoreBlock ::
  "('db, 'z) ext_scheme \<Rightarrow> 'db CoinDatabase \<Rightarrow> Transaction list \<Rightarrow> 'db CoinDatabase option" where
  "CoinDatabase_StoreBlock E coinDB txs =
     do { coinDB \<leftarrow> updateSpentCoins E coinDB txs;
          coinDB \<leftarrow> storeTransactionsInMainCache E coinDB txs;
          storeTransactionsInDB E coinDB txs }"

subsection \<open>Reverting blocks\<close>

definition addCoinToRecord :: "CoinRecord \<Rightarrow> UndoBlock \<Rightarrow> nat \<Rightarrow> CoinRecord option" where
  "addCoinToRecord cr ub index =
     do { i \<leftarrow> slice_get (OutputIndexes ub) index;
          a \<leftarrow> slice_get (Amounts ub) index;
          l \<leftarrow> slice_get (LockingScripts ub) index;
          Some (cr\<lparr>cr_OutputIndexes := cr_OutputIndexes cr @ [i], cr_Amounts := cr_Amounts cr @ [a],
                   cr_LockingScripts := cr_LockingScripts cr @ [l]\<rparr>) }"

definition erase_transaction ::
  "('db, 'z) ext_scheme \<Rightarrow> 'db CoinDatabase \<Rightarrow> Transaction \<Rightarrow> 'db CoinDatabase" where
  "erase_transaction E coinDB tx =
     (let coinDB = foldl (\<lambda>c j.
            c\<lparr>mainCache := AList.delete
                \<lparr>cl_ReferenceTransactionHash = Transaction_Hash E tx, cl_OutputIndex = word_of_nat j\<rparr>
                (mainCache c),
              mainCacheSize := mainCacheSize c - 1\<rparr>) coinDB [0..<length (Outputs tx)]
      in deleteRecord E coinDB (Transaction_Hash E tx))"

definition restore_input ::
  "('db, 'z) ext_scheme \<Rightarrow> UndoBlock \<Rightarrow> 'db CoinDatabase \<Rightarrow> nat \<Rightarrow> 'db CoinDatabase option" where
  "restore_input E ub coinDB j =
     do { txHash \<leftarrow> slice_get (TransactionInputHashes ub) j;
          idx \<leftarrow> slice_get (OutputIndexes ub) j;
          let cl = \<lparr>cl_ReferenceTransactionHash = txHash, cl_OutputIndex = idx\<rparr>;
          let coinDB = (case map_of (mainCache coinDB) cl of
                Some coin \<Rightarrow>
                  coinDB\<lparr>mainCache := AList.update cl (coin\<lparr>IsSpent := False\<rparr>) (mainCache coinDB)\<rparr>
              | None \<Rightarrow> coinDB);
          found \<leftarrow> getCoinRecordFromDB E coinDB txHash;
          cr \<leftarrow> (case found of
                   Some cr \<Rightarrow> addCoinToRecord cr ub j
                 | None \<Rightarrow> Some \<lparr>cr_Version = 0, cr_OutputIndexes = OutputIndexes ub,
                                 cr_Amounts = Amounts ub, cr_LockingScripts = LockingScripts ub\<rparr>);
          putRecordInDB E coinDB txHash cr }"

definition undo_one ::
  "('db, 'z) ext_scheme \<Rightarrow> 'db CoinDatabase \<Rightarrow> Block \<Rightarrow> UndoBlock \<Rightarrow> 'db CoinDatabase option" where
  "undo_one E coinDB b ub =
     (let coinDB = foldl (erase_transaction E) coinDB (Transactions b)
      in fold_opt (restore_input E ub) coinDB [0..<length (TransactionInputHashes ub)])"

definition UndoCoins ::
  "('db, 'z) ext_scheme \<Rightarrow> 'db CoinDatabase \<Rightarrow> Block list \<Rightarrow> UndoBlock list \<Rightarrow> 'db CoinDatabase option" where
  "UndoCoins E coinDB blocks undoBlocks =
     fold_opt (\<lambda>c i. case (slice_get blocks i, slice_get undoBlocks i) of
         (Some b, Some ub) \<Rightarrow> undo_one E c b ub
       | (Some b, None) \<Rightarrow> None
       | (None, _) \<Rightarrow> None) coinDB [0..<length blocks]"

subsection \<open>Reading\<close>

definition GetCoin ::
  "('db, 'z) ext_scheme \<Rightarrow> 'db CoinDatabase \<Rightarrow> CoinLocator \<Rightarrow> Coin option option" where
  "GetCoin E coinDB cl =
     (case map_of (mainCache coinDB) cl of
        Some coin \<Rightarrow> Some (Some coin)
      | None \<Rightarrow>
          (case getCoinRecordFromDB E coinDB (cl_ReferenceTransactionHash cl) of
             None \<Rightarrow> None
           | Some None \<Rightarrow> Some None
           | Some (Some cr) \<Rightarrow>
               (let index = indexOf (cr_OutputIndexes cr) (cl_OutputIndex cl) in
                if index < 0 then Some None
                else do { a \<leftarrow> slice_get (cr_Amounts cr) (nat index);
                          l \<leftarrow> slice_get (cr_LockingScripts cr) (nat index);
                          Some (Some \<lparr>c_TransactionOutput = \<lparr>Amount = a, LockingScript = l\<rparr>,
                                      IsSpent = False\<rparr>) })))"

fun add_balance :: "bytes \<Rightarrow> CoinRecord \<Rightarrow> u32 \<Rightarrow> nat \<times> bytes \<Rightarrow> u32 option" where
  "add_balance publicKey cr balance (i, pK) =
     (if pK = publicKey
      then (case slice_get (cr_Amounts cr) i of None \<Rightarrow> None | Some a \<Rightarrow> Some (balance + a))
      else Some balance)"

definition record_balance :: "('db, 'z) ext_scheme \<Rightarrow> bytes \<Rightarrow> u32 \<Rightarrow> bytes \<times> bytes \<Rightarrow> u32 option" where
  "record_balance E publicKey balance entry =
     (case DecodeCoinRecord (fst (unmarshal_CoinRecord E (snd entry))) of
        None \<Rightarrow> None
      | Some cr \<Rightarrow> fold_opt (add_balance publicKey cr) balance (List.enumerate 0 (cr_LockingScripts cr)))"

definition GetBalance ::
  "('db, 'z) ext_scheme \<Rightarrow> 'db CoinDatabase \<Rightarrow> bytes \<Rightarrow> (u32 \<times> 'db CoinDatabase) option" where
  "GetBalance E coinDB publicKey =
     do { coinDB \<leftarrow> FlushMainCache E coinDB;
          balance \<leftarrow> fold_opt (record_balance E publicKey) 0 (leveldb_entries E (cdb coinDB));
          Some (balance, coinDB) }"

end
