(* ===== verification/Coin_Utxo.thy ===== *)
theory Coin_Utxo
  imports Coin_Database
begin

text \<open>
  What the coin database of \<open>src/pkg/blockchain/coindatabase\<close> promises.

  The abstract state is \<open>utxo\<close>, the map from coin locators to unspent outputs. The abstract
  operation of a block is \<open>apply_block\<close>: remove the inputs, add the outputs. The theory
  shows that validation decides membership in \<open>utxo\<close>, that flushing the cache does not
  change it, and that storing a block implements \<open>apply_block\<close> as long as every spendable
  coin is cached, an invariant that holds from an empty database on. The locale
  \<open>coin_store\<close> states that contract for the block chain, its client.
\<close>

section \<open>Coin records as maps\<close>

definition mk_txo :: "u32 \<Rightarrow> bytes \<Rightarrow> TransactionOutput" where
  "mk_txo a l = \<lparr>Amount = a, LockingScript = l\<rparr>"

definition record_entries :: "CoinRecord \<Rightarrow> (u32 \<times> TransactionOutput) list" where
  "record_entries cr = zip (cr_OutputIndexes cr) (map2 mk_txo (cr_Amounts cr) (cr_LockingScripts cr))"

definition record_coins :: "CoinRecord \<Rightarrow> u32 \<rightharpoonup> TransactionOutput" where
  "record_coins cr = map_of (record_entries cr)"

definition wf_lengths :: "CoinRecord \<Rightarrow> bool" where
  "wf_lengths cr \<longleftrightarrow> length (cr_Amounts cr) = length (cr_OutputIndexes cr) \<and>
     length (cr_LockingScripts cr) = length (cr_OutputIndexes cr)"

definition wf_CoinRecord :: "CoinRecord \<Rightarrow> bool" where
  "wf_CoinRecord cr \<longleftrightarrow> wf_lengths cr \<and> distinct (cr_OutputIndexes cr)"

lemma contains_iff: "contains s e \<longleftrightarrow> e \<in> set s"
  by (induction s) auto

lemma indexOf_from_absent: "e \<notin> set s \<Longrightarrow> indexOf_from i s e = -1"
  by (induction s arbitrary: i) auto

lemma indexOf_from_present:
  "e \<in> set s \<Longrightarrow> \<exists>n < length s. indexOf_from i s e = i + int n \<and> s ! n = e"
proof (induction s arbitrary: i)
  case (Cons a s)
  show ?case
  proof (cases "a = e")
    case False
    with Cons obtain n where "n < length s" "indexOf_from (i + 1) s e = i + 1 + int n" "s ! n = e"
      by fastforce
    with False show ?thesis by (intro exI [of _ "Suc n"]) simp
  qed (auto intro: exI [of _ 0])
qed simp

lemma indexOf_cases:
  obtains (absent) "e \<notin> set s" "indexOf s e = -1"
    | (present) n where "n < length s" "indexOf s e = int n" "s ! n = e" "e \<in> set s"
  using indexOf_from_absent [of e s 0] indexOf_from_present [of e s 0]
  by (cases "e \<in> set s") (auto simp: indexOf_def)

lemma map_of_remove_at:
  assumes "distinct (map fst xs)" and "n < length xs"
  shows "map_of (take n xs @ drop (Suc n) xs) = (map_of xs)(fst (xs ! n) := None)"
  using assms
proof (induction xs arbitrary: n)
  case (Cons x xs)
  show ?case
  proof (cases n)
    case 0
    have "map_of xs (fst x) = None" using Cons.prems(1) by (simp add: map_of_eq_None_iff)
    with 0 show ?thesis by (cases x) (auto simp: fun_eq_iff)
  next
    case (Suc m)
    then have "fst x \<noteq> fst (xs ! m)" using Cons.prems by auto
    with Suc Cons.IH [of m] Cons.prems show ?thesis by (cases x) (auto simp: fun_upd_twist)
  qed
qed simp

lemma length_record_entries: "wf_lengths cr \<Longrightarrow> length (record_entries cr) = length (cr_OutputIndexes cr)"
  by (simp add: record_entries_def wf_lengths_def)

lemma fst_record_entries: "wf_lengths cr \<Longrightarrow> map fst (record_entries cr) = cr_OutputIndexes cr"
  by (simp add: record_entries_def wf_lengths_def)

lemma record_entries_nth:
  "wf_lengths cr \<Longrightarrow> n < length (cr_OutputIndexes cr) \<Longrightarrow>
   record_entries cr ! n = (cr_OutputIndexes cr ! n, mk_txo (cr_Amounts cr ! n) (cr_LockingScripts cr ! n))"
  by (simp add: record_entries_def wf_lengths_def)

lemma record_coins_None_iff:
  "wf_lengths cr \<Longrightarrow> record_coins cr i = None \<longleftrightarrow> i \<notin> set (cr_OutputIndexes cr)"
  by (simp add: record_coins_def map_of_eq_None_iff fst_record_entries [symmetric])

lemma wf_CoinRecord_distinct: "wf_CoinRecord cr \<Longrightarrow> distinct (map fst (record_entries cr))"
  by (simp add: wf_CoinRecord_def fst_record_entries)

text \<open>Removing a coin from a well-formed record forgets exactly that coin.\<close>

lemma removeCoinFromRecord_ok:
  assumes "wf_CoinRecord cr"
  shows "\<exists>cr'. removeCoinFromRecord cr i = Some cr' \<and> wf_CoinRecord cr' \<and>
    record_coins cr' = (record_coins cr)(i := None)"
proof (cases rule: indexOf_cases [of i "cr_OutputIndexes cr"])
  case absent
  then have "(record_coins cr)(i := None) = record_coins cr"
    using assms record_coins_None_iff [of cr i] by (simp add: wf_CoinRecord_def fun_upd_idem)
  with absent assms show ?thesis by (simp add: removeCoinFromRecord_def)
next
  case (present n)
  let ?rm = "\<lambda>xs. take n xs @ drop (Suc n) xs"
  let ?cr = "cr\<lparr>cr_OutputIndexes := ?rm (cr_OutputIndexes cr), cr_Amounts := ?rm (cr_Amounts cr),
    cr_LockingScripts := ?rm (cr_LockingScripts cr)\<rparr>"
  have len: "wf_lengths cr" and d: "distinct (cr_OutputIndexes cr)"
    using assms by (simp_all add: wf_CoinRecord_def)
  have eq: "removeCoinFromRecord cr i = Some ?cr"
    using present len by (simp add: removeCoinFromRecord_def remove_at_def wf_lengths_def)
  have "cr_OutputIndexes cr = take n (cr_OutputIndexes cr) @ i # drop (Suc n) (cr_OutputIndexes cr)"
    using present id_take_nth_drop [of n "cr_OutputIndexes cr"] by simp
  then have "distinct (?rm (cr_OutputIndexes cr))" using d
    by (metis distinct_append distinct.simps(2) Int_insert_right_if0 list.simps(15) Int_insert_right insert_not_empty)
  then have wf: "wf_CoinRecord ?cr"
    using len present by (simp add: wf_CoinRecord_def wf_lengths_def)
  have "record_entries ?cr = ?rm (record_entries cr)"
    using len by (simp add: record_entries_def wf_lengths_def take_zip drop_zip take_map drop_map zip_append)
  then have "record_coins ?cr = (record_coins cr)(i := None)"
    using map_of_remove_at [OF wf_CoinRecord_distinct [OF assms], of n] present len
    by (simp add: record_coins_def length_record_entries record_entries_nth)
  with eq wf show ?thesis by blast
qed

lemma coin_record_roundtrip:
  "wf_lengths cr \<Longrightarrow> \<exists>p. EncodeCoinRecord cr = Some p \<and> DecodeCoinRecord p = Some cr"
  by (auto simp: wf_lengths_def EncodeCoinRecord_def DecodeCoinRecord_def Let_def)

lemma empty_record:
  "DecodeCoinRecord zero_CoinRecord =
     Some \<lparr>cr_Version = 0, cr_OutputIndexes = [], cr_Amounts = [], cr_LockingScripts = []\<rparr>"
  by (simp add: DecodeCoinRecord_def zero_CoinRecord_def)

lemma createCoinRecord_lengths: "wf_lengths (createCoinRecord tx)"
  by (simp add: wf_lengths_def createCoinRecord_def)

lemma createCoinRecord_wf:
  assumes "length (Outputs tx) < 2 ^ 32"
  shows "wf_CoinRecord (createCoinRecord tx)"
proof -
  have "inj_on (word_of_nat :: nat \<Rightarrow> u32) {0..<length (Outputs tx)}"
    using assms by (intro inj_onI) (metis atLeastLessThan_iff less_trans u32_of_nat_less)
  then show ?thesis
    by (simp add: wf_CoinRecord_def createCoinRecord_lengths)
      (simp add: createCoinRecord_def distinct_map)
qed

lemma createCoinRecord_coins:
  assumes "length (Outputs tx) < 2 ^ 32"
  shows "record_coins (createCoinRecord tx) i =
    (if unat i < length (Outputs tx) then Some (Outputs tx ! unat i) else None)"
proof (cases "unat i < length (Outputs tx)")
  case True
  have e: "record_entries (createCoinRecord tx) ! unat i = (i, Outputs tx ! unat i)"
    using True by (subst record_entries_nth) (auto simp: wf_lengths_def createCoinRecord_def mk_txo_def)
  have "length (record_entries (createCoinRecord tx)) = length (Outputs tx)"
    by (simp add: length_record_entries createCoinRecord_lengths) (simp add: createCoinRecord_def)
  then have "(i, Outputs tx ! unat i) \<in> set (record_entries (createCoinRecord tx))"
    using True e by (metis nth_mem)
  then show ?thesis
    using True wf_CoinRecord_distinct [OF createCoinRecord_wf [OF assms]] by (simp add: record_coins_def)
next
  case False
  then have "i \<notin> word_of_nat ` {0..<length (Outputs tx)}"
    using assms by (auto simp: u32_of_nat_less)
  then show ?thesis
    using False record_coins_None_iff [OF createCoinRecord_lengths, of tx i]
    by (simp add: createCoinRecord_def)
qed

section \<open>The abstract state\<close>

definition locator :: "string \<Rightarrow> u32 \<Rightarrow> CoinLocator" where
  "locator h i = \<lparr>cl_ReferenceTransactionHash = h, cl_OutputIndex = i\<rparr>"

definition db_coins :: "('db, 'z) ext_scheme \<Rightarrow> 'db CoinDatabase \<Rightarrow> CoinLocator \<rightharpoonup> TransactionOutput" where
  "db_coins E c cl =
     (case getCoinRecordFromDB E c (cl_ReferenceTransactionHash cl) of
        Some (Some cr) \<Rightarrow> record_coins cr (cl_OutputIndex cl) | _ \<Rightarrow> None)"

definition unspent :: "Coin \<Rightarrow> TransactionOutput option" where
  "unspent coin = (if IsSpent coin then None else Some (c_TransactionOutput coin))"

definition utxo :: "('db, 'z) ext_scheme \<Rightarrow> 'db CoinDatabase \<Rightarrow> CoinLocator \<rightharpoonup> TransactionOutput" where
  "utxo E c cl =
     (case map_of (mainCache c) cl of Some coin \<Rightarrow> unspent coin | None \<Rightarrow> db_coins E c cl)"

text \<open>
  Well-formed databases: the external libraries behave, every record decodes into slices of
  equal length without duplicate indexes, and the cache has one entry per key.
\<close>

definition record_at :: "('db, 'z) ext_scheme \<Rightarrow> 'db CoinDatabase \<Rightarrow> string \<Rightarrow> CoinRecord option \<Rightarrow> bool" where
  "record_at E c h r \<longleftrightarrow> getCoinRecordFromDB E c h = Some r \<and>
     (case r of None \<Rightarrow> True | Some cr \<Rightarrow> wf_CoinRecord cr)"

definition coindb_wf :: "('db, 'z) ext_scheme \<Rightarrow> 'db CoinDatabase \<Rightarrow> bool" where
  "coindb_wf E c \<longleftrightarrow> leveldb_laws E \<and> proto_laws E \<and> distinct (map fst (mainCache c)) \<and>
     (\<forall>h. \<exists>r. record_at E c h r)"

lemma locator_simps [simp]:
  "cl_ReferenceTransactionHash (locator h i) = h" "cl_OutputIndex (locator h i) = i"
  "locator h i = locator h' i' \<longleftrightarrow> h = h' \<and> i = i'"
  "locator (cl_ReferenceTransactionHash cl) (cl_OutputIndex cl) = cl"
  "cl = locator h i \<longleftrightarrow> cl_ReferenceTransactionHash cl = h \<and> cl_OutputIndex cl = i"
  "locator h i = cl \<longleftrightarrow> cl_ReferenceTransactionHash cl = h \<and> cl_OutputIndex cl = i"
  by (auto simp: locator_def)

lemma locator_fold:
  "\<lparr>cl_ReferenceTransactionHash = h, cl_OutputIndex = i\<rparr> = locator h i"
  by (simp add: locator_def)

lemma makeCoinLocator_locator:
  "makeCoinLocator txi = locator (ReferenceTransactionHash txi) (OutputIndex txi)"
  by (simp add: makeCoinLocator_def locator_def)

lemma getCoinRecord_cong: "cdb c = cdb c' \<Longrightarrow> getCoinRecordFromDB E c = getCoinRecordFromDB E c'"
  by (simp add: getCoinRecordFromDB_def fun_eq_iff)

lemma db_coins_cong: "cdb c = cdb c' \<Longrightarrow> db_coins E c = db_coins E c'"
  using getCoinRecord_cong [of c c' E] by (simp add: db_coins_def fun_eq_iff)

lemma coindb_wf_cong:
  "cdb c = cdb c' \<Longrightarrow> coindb_wf E c \<Longrightarrow> distinct (map fst (mainCache c')) \<Longrightarrow> coindb_wf E c'"
  using getCoinRecord_cong [of c c' E] by (simp add: coindb_wf_def record_at_def)

lemma coindb_wf_distinct: "coindb_wf E c \<Longrightarrow> distinct (map fst (mainCache c))"
  by (simp add: coindb_wf_def)

lemma coindb_wf_update:
  assumes "coindb_wf E c"
  shows "coindb_wf E (c\<lparr>mainCache := AList.update cl coin (mainCache c)\<rparr>)"
    "coindb_wf E (c\<lparr>mainCache := AList.update cl coin (mainCache c), mainCacheSize := n\<rparr>)"
    "coindb_wf E (c\<lparr>mainCache := AList.delete cl (mainCache c), mainCacheSize := n\<rparr>)"
  using coindb_wf_distinct [OF assms]
  by (auto intro!: coindb_wf_cong [OF _ assms] simp: distinct_update distinct_delete)

lemma coindb_wfE [consumes 1, case_names missing found]:
  assumes "coindb_wf E c"
  obtains (missing) "getCoinRecordFromDB E c h = Some None"
    | (found) cr where "getCoinRecordFromDB E c h = Some (Some cr)" "wf_CoinRecord cr"
proof -
  from assms obtain r where "record_at E c h r" by (auto simp: coindb_wf_def)
  then show ?thesis using that by (cases r) (auto simp: record_at_def)
qed

lemma getCoinRecord_put:
  assumes "leveldb_laws E" and "proto_laws E" and "wf_lengths cr"
  shows "\<exists>c'. putRecordInDB E c h cr = Some c' \<and> mainCache c' = mainCache c \<and>
    mainCacheSize c' = mainCacheSize c \<and> mainCacheCapacity c' = mainCacheCapacity c \<and>
    (\<forall>h'. getCoinRecordFromDB E c' h' = (if h' = h then Some (Some cr) else getCoinRecordFromDB E c h'))"
proof -
  obtain p where "EncodeCoinRecord cr = Some p" "DecodeCoinRecord p = Some cr"
    using coin_record_roundtrip [OF assms(3)] by blast
  with assms(1,2) show ?thesis
    by (auto simp: putRecordInDB_def getCoinRecordFromDB_def leveldb_simps unmarshal_marshal)
qed

lemma putRecordInDB_ok:
  assumes "coindb_wf E c" and "wf_CoinRecord cr"
  shows "\<exists>c'. putRecordInDB E c h cr = Some c' \<and> coindb_wf E c' \<and> mainCache c' = mainCache c \<and>
    mainCacheSize c' = mainCacheSize c \<and> mainCacheCapacity c' = mainCacheCapacity c \<and>
    db_coins E c' = (\<lambda>cl. if cl_ReferenceTransactionHash cl = h then record_coins cr (cl_OutputIndex cl)
                          else db_coins E c cl)"
proof -
  have "leveldb_laws E" "proto_laws E" "wf_lengths cr"
    using assms by (simp_all add: coindb_wf_def wf_CoinRecord_def)
  then obtain c' where c': "putRecordInDB E c h cr = Some c'" "mainCache c' = mainCache c"
    "mainCacheSize c' = mainCacheSize c" "mainCacheCapacity c' = mainCacheCapacity c"
    and get: "\<And>h'. getCoinRecordFromDB E c' h' = (if h' = h then Some (Some cr) else getCoinRecordFromDB E c h')"
    using getCoinRecord_put by blast
  have "\<exists>r. record_at E c' h' r" for h'
    using assms get by (cases "h' = h") (auto simp: coindb_wf_def record_at_def)
  then have "coindb_wf E c'" using assms(1) c' by (simp add: coindb_wf_def)
  with c' get show ?thesis by (auto simp: db_coins_def fun_eq_iff)
qed

lemma deleteRecord_ok:
  assumes "coindb_wf E c"
  shows "coindb_wf E (deleteRecord E c h)" "mainCache (deleteRecord E c h) = mainCache c"
    "mainCacheSize (deleteRecord E c h) = mainCacheSize c"
    "mainCacheCapacity (deleteRecord E c h) = mainCacheCapacity c"
    "db_coins E (deleteRecord E c h) =
       (\<lambda>cl. if cl_ReferenceTransactionHash cl = h then None else db_coins E c cl)"
proof -
  have get: "getCoinRecordFromDB E (deleteRecord E c h) h' =
    (if h' = h then Some None else getCoinRecordFromDB E c h')" for h'
    using assms by (simp add: getCoinRecordFromDB_def deleteRecord_def coindb_wf_def leveldb_simps)
  have "\<exists>r. record_at E (deleteRecord E c h) h' r" for h'
    using assms get by (cases "h' = h") (auto simp: coindb_wf_def record_at_def)
  then show "coindb_wf E (deleteRecord E c h)"
    using assms by (simp add: coindb_wf_def deleteRecord_def)
  show "db_coins E (deleteRecord E c h) =
       (\<lambda>cl. if cl_ReferenceTransactionHash cl = h then None else db_coins E c cl)"
    using get by (simp add: db_coins_def fun_eq_iff)
qed (simp_all add: deleteRecord_def)

section \<open>Validation\<close>

lemma validate_inputs_iff:
  assumes wf: "coindb_wf E c"
  shows "\<exists>r. validate_inputs E c txis = Some r \<and>
    (r = Inr () \<longleftrightarrow> (\<forall>txi \<in> set txis. makeCoinLocator txi \<in> dom (utxo E c)))"
proof (induction txis)
  case (Cons txi txis)
  let ?cl = "makeCoinLocator txi"
  obtain r where r: "validate_inputs E c txis = Some r"
    "r = Inr () \<longleftrightarrow> (\<forall>txi \<in> set txis. makeCoinLocator txi \<in> dom (utxo E c))"
    using Cons by blast
  show ?case
  proof (cases "map_of (mainCache c) ?cl")
    case (Some coin)
    then show ?thesis using r by (auto simp: utxo_def unspent_def)
  next
    case None
    then have u: "utxo E c ?cl = db_coins E c ?cl" by (simp add: utxo_def)
    from wf show ?thesis
    proof (cases rule: coindb_wfE [where h = "ReferenceTransactionHash txi"])
      case missing
      then show ?thesis using None u
        by (auto simp: db_coins_def makeCoinLocator_locator getCoinRecordFromDB_def split: option.splits)
    next
      case (found cr)
      then have "db_coins E c ?cl = None \<longleftrightarrow> \<not> contains (cr_OutputIndexes cr) (OutputIndex txi)"
        using record_coins_None_iff [of cr "OutputIndex txi"]
        by (simp add: db_coins_def makeCoinLocator_locator contains_iff wf_CoinRecord_def)
      then show ?thesis using None u found(1) r
        by (auto simp: getCoinRecordFromDB_def split: option.splits)
    qed
  qed
qed simp

lemma ValidateBlock_iff:
  assumes wf: "coindb_wf E c"
  shows "\<exists>b. ValidateBlock E c txs = Some b \<and>
    (b \<longleftrightarrow> (\<forall>tx \<in> set txs. \<forall>txi \<in> set (Inputs tx). makeCoinLocator txi \<in> dom (utxo E c)))"
proof (induction txs)
  case (Cons tx txs)
  obtain r where "ValidateTransaction E c tx = Some r"
    "r = Inr () \<longleftrightarrow> (\<forall>txi \<in> set (Inputs tx). makeCoinLocator txi \<in> dom (utxo E c))"
    using validate_inputs_iff [OF wf, of "Inputs tx"] by (auto simp: ValidateTransaction_def)
  with Cons show ?case by (cases r) auto
qed (simp add: exI [of _ True])

lemma GetCoin_utxo:
  assumes wf: "coindb_wf E c"
  shows "\<exists>r. GetCoin E c cl = Some r \<and> utxo E c cl = (case r of None \<Rightarrow> None | Some coin \<Rightarrow> unspent coin)"
proof (cases "map_of (mainCache c) cl")
  case (Some coin)
  then show ?thesis by (auto simp: GetCoin_def utxo_def)
next
  case None
  from wf show ?thesis
  proof (cases rule: coindb_wfE [where h = "cl_ReferenceTransactionHash cl"])
    case missing
    then show ?thesis using None by (simp add: GetCoin_def utxo_def db_coins_def)
  next
    case (found cr)
    have len: "wf_lengths cr" using found by (simp add: wf_CoinRecord_def)
    show ?thesis
    proof (cases rule: indexOf_cases [of "cl_OutputIndex cl" "cr_OutputIndexes cr"])
      case absent
      then show ?thesis using None found record_coins_None_iff [OF len]
        by (simp add: GetCoin_def utxo_def db_coins_def)
    next
      case (present n)
      have "record_entries cr ! n \<in> set (record_entries cr)"
        using present len by (simp add: length_record_entries)
      then have "record_coins cr (cl_OutputIndex cl) = Some (mk_txo (cr_Amounts cr ! n) (cr_LockingScripts cr ! n))"
        using present len wf_CoinRecord_distinct [OF found(2)]
        by (simp add: record_entries_nth record_coins_def)
      then show ?thesis using None found present len
        by (simp add: GetCoin_def utxo_def db_coins_def wf_lengths_def slice_get_def unspent_def mk_txo_def)
    qed
  qed
qed

section \<open>Flushing\<close>

definition spent_keys :: "(CoinLocator \<times> Coin) list \<Rightarrow> CoinLocator set" where
  "spent_keys cs = {cl. \<exists>coin. (cl, coin) \<in> set cs \<and> IsSpent coin}"

definition spent_step :: "CoinLocator set \<Rightarrow> CoinLocator \<times> Coin \<Rightarrow> CoinLocator set" where
  "spent_step P e = (if IsSpent (snd e) then insert (fst e) P else P)"

lemma foldl_spent_step: "foldl spent_step P cs = P \<union> spent_keys cs"
  by (induction cs arbitrary: P) (auto simp: spent_step_def spent_keys_def)

text \<open>
  The state of the first loop after the coins in \<open>P\<close> were handled: the pending records are
  the records of the database less \<open>P\<close>, and the cache is the old cache less \<open>P\<close>.
\<close>

definition flushing ::
  "('db, 'z) ext_scheme \<Rightarrow> 'db CoinDatabase \<Rightarrow> (string \<times> CoinRecord) list \<times> 'db CoinDatabase \<Rightarrow>
   CoinLocator set \<Rightarrow> bool" where
  "flushing E c0 st P \<longleftrightarrow>
     snd st = c0\<lparr>mainCache := filter (\<lambda>e. fst e \<notin> P) (mainCache c0)\<rparr> \<and>
     distinct (map fst (fst st)) \<and>
     (\<forall>cl \<in> P. map_of (fst st) (cl_ReferenceTransactionHash cl) \<noteq> None) \<and>
     (\<forall>h cr. map_of (fst st) h = Some cr \<longrightarrow> wf_CoinRecord cr \<and>
        (\<forall>i. record_coins cr i = (if locator h i \<in> P then None else db_coins E c0 (locator h i))))"

lemma flush_record:
  assumes wf: "coindb_wf E c" and cdb: "cdb c' = cdb c"
  shows "\<exists>cr. DecodeCoinRecord (fst (unmarshal_CoinRecord E
      (case leveldb_Get E (cdb c') (bytes_of h) of None \<Rightarrow> [] | Some data \<Rightarrow> data))) = Some cr \<and>
    wf_CoinRecord cr \<and> (\<forall>i. record_coins cr i = db_coins E c (locator h i))"
  using wf
proof (cases rule: coindb_wfE [where h = h])
  case missing
  then show ?thesis using wf cdb
    by (auto simp: getCoinRecordFromDB_def db_coins_def coindb_wf_def unmarshal_Nil_CoinRecord
        empty_record wf_CoinRecord_def wf_lengths_def record_coins_def record_entries_def split: option.splits)
next
  case (found cr)
  then show ?thesis using cdb
    by (auto simp: getCoinRecordFromDB_def db_coins_def split: option.splits)
qed

lemma flush_step_ok:
  assumes wf: "coindb_wf E c0" and st: "flushing E c0 st P"
  shows "\<exists>st'. flush_step E st e = Some st' \<and> flushing E c0 st' (spent_step P e)"
proof (cases "IsSpent (snd e)")
  case False
  then show ?thesis using st by (cases st, cases e) (simp add: flush_step_def spent_step_def)
next
  case True
  obtain u c cl coin where e: "e = (cl, coin)" and u: "st = (u, c)" by (cases e, cases st) auto
  let ?h = "cl_ReferenceTransactionHash cl" and ?i = "cl_OutputIndex cl"
  let ?dec = "DecodeCoinRecord (fst (unmarshal_CoinRecord E
      (case leveldb_Get E (cdb c) (bytes_of ?h) of None \<Rightarrow> [] | Some data \<Rightarrow> data)))"
  have c: "c = c0\<lparr>mainCache := filter (\<lambda>e. fst e \<notin> P) (mainCache c0)\<rparr>"
    using st u by (simp add: flushing_def)
  obtain cr where cr: "(case map_of u ?h of Some cr2 \<Rightarrow> Some cr2 | None \<Rightarrow> ?dec) = Some cr" "wf_CoinRecord cr"
    "\<And>i. record_coins cr i = (if locator ?h i \<in> P then None else db_coins E c0 (locator ?h i))"
  proof (cases "map_of u ?h")
    case None
    then have "locator ?h i \<notin> P" for i using st u by (auto simp: flushing_def)
    with None that flush_record [OF wf, of c ?h] c show ?thesis by auto
  next
    case (Some cr)
    with st u that [of cr] show ?thesis by (simp add: flushing_def)
  qed
  obtain cr' where cr': "removeCoinFromRecord cr ?i = Some cr'" "wf_CoinRecord cr'"
    "record_coins cr' = (record_coins cr)(?i := None)"
    using removeCoinFromRecord_ok [OF cr(2)] by blast
  let ?st = "(AList.update ?h cr' u, c\<lparr>mainCache := AList.delete cl (mainCache c)\<rparr>)"
  have "flush_step E st e = Some ?st"
    using True cr(1) cr'(1) e u by (simp add: flush_step_def Let_def)
  moreover have "AList.delete cl (mainCache c) = filter (\<lambda>e. fst e \<notin> insert cl P) (mainCache c0)"
    using c by (auto simp: AList.delete_eq intro!: filter_cong)
  moreover have "distinct (map fst (AList.update ?h cr' u))"
    using st u by (simp add: flushing_def distinct_update)
  ultimately show ?thesis
    using True e u c cr(3) cr'(2,3) st by (auto simp: flushing_def spent_step_def update_conv')
qed

lemma write_record_ok:
  assumes "coindb_wf E c" and "wf_CoinRecord cr"
  shows "\<exists>c'. write_record E c (h, cr) = Some c' \<and> coindb_wf E c' \<and> mainCache c' = mainCache c \<and>
    mainCacheSize c' = mainCacheSize c \<and> mainCacheCapacity c' = mainCacheCapacity c \<and>
    db_coins E c' = (\<lambda>cl. if cl_ReferenceTransactionHash cl = h then record_coins cr (cl_OutputIndex cl)
                          else db_coins E c cl)"
proof (cases "cr_OutputIndexes cr = []")
  case True
  then have "record_coins cr = (\<lambda>_. None)" by (simp add: record_coins_def record_entries_def)
  with True deleteRecord_ok [OF assms(1), of h] show ?thesis by (simp add: write_record_def fun_eq_iff)
next
  case False
  with putRecordInDB_ok [OF assms, of h] show ?thesis by (simp add: write_record_def)
qed

lemma write_records_ok:
  assumes "coindb_wf E c" and "distinct (map fst u)" and "\<And>h cr. (h, cr) \<in> set u \<Longrightarrow> wf_CoinRecord cr"
  shows "\<exists>c'. fold_opt (write_record E) c u = Some c' \<and> coindb_wf E c' \<and> mainCache c' = mainCache c \<and>
    mainCacheSize c' = mainCacheSize c \<and> mainCacheCapacity c' = mainCacheCapacity c \<and>
    db_coins E c' = (\<lambda>cl. case map_of u (cl_ReferenceTransactionHash cl) of
       None \<Rightarrow> db_coins E c cl | Some cr \<Rightarrow> record_coins cr (cl_OutputIndex cl))"
  using assms
proof (induction u arbitrary: c)
  case (Cons e u)
  obtain h cr where e: "e = (h, cr)" by (cases e)
  have "wf_CoinRecord cr" using Cons.prems(3) e by auto
  then obtain c1 where c1: "write_record E c e = Some c1" "coindb_wf E c1" "mainCache c1 = mainCache c"
    "mainCacheSize c1 = mainCacheSize c" "mainCacheCapacity c1 = mainCacheCapacity c"
    "db_coins E c1 = (\<lambda>cl. if cl_ReferenceTransactionHash cl = h then record_coins cr (cl_OutputIndex cl)
                          else db_coins E c cl)"
    using write_record_ok [OF Cons.prems(1), of cr h] e by blast
  have "map_of u h = None" using Cons.prems(2) e by (simp add: map_of_eq_None_iff)
  moreover obtain c2 where "fold_opt (write_record E) c1 u = Some c2" "coindb_wf E c2" "mainCache c2 = mainCache c1"
    "mainCacheSize c2 = mainCacheSize c1" "mainCacheCapacity c2 = mainCacheCapacity c1"
    "db_coins E c2 = (\<lambda>cl. case map_of u (cl_ReferenceTransactionHash cl) of
       None \<Rightarrow> db_coins E c1 cl | Some cr \<Rightarrow> record_coins cr (cl_OutputIndex cl))"
    using Cons.IH [OF c1(2)] Cons.prems(2,3) by fastforce
  ultimately show ?case using c1 e by (auto simp: fun_eq_iff split: option.splits)
qed simp

text \<open>What a flush does to the cache and to the records.\<close>

lemma FlushMainCache_ok:
  assumes wf: "coindb_wf E c"
  shows "\<exists>c'. FlushMainCache E c = Some c' \<and> coindb_wf E c' \<and>
    mainCache c' = filter (\<lambda>e. \<not> IsSpent (snd e)) (mainCache c) \<and> mainCacheSize c' = 0 \<and>
    mainCacheCapacity c' = mainCacheCapacity c \<and>
    db_coins E c' = (\<lambda>cl. if cl \<in> spent_keys (mainCache c) then None else db_coins E c cl)"
proof -
  let ?S = "spent_keys (mainCache c)"
  have "flushing E c ([], c) {}" by (simp add: flushing_def)
  then obtain st where st: "fold_opt (flush_step E) ([], c) (mainCache c) = Some st"
    "flushing E c st (foldl spent_step {} (mainCache c))"
    using fold_opt_refine [where R = "flushing E c" and f = "flush_step E" and g = spent_step]
      flush_step_ok [OF wf] by blast
  obtain u c1 where u: "st = (u, c1)" by (cases st)
  have fl: "flushing E c (u, c1) ?S" using st(2) u by (simp add: foldl_spent_step)
  have d: "distinct (map fst (mainCache c))" using wf by (simp add: coindb_wf_def)
  then have cache: "mainCache c1 = filter (\<lambda>e. \<not> IsSpent (snd e)) (mainCache c)"
    using fl by (auto simp: flushing_def spent_keys_def intro!: filter_cong dest: eq_key_imp_eq_value)
  have "coindb_wf E (c1\<lparr>mainCacheSize := 0\<rparr>)"
    using fl d by (intro coindb_wf_cong [OF _ wf]) (auto simp: flushing_def distinct_map_filter)
  moreover have "\<And>h cr. (h, cr) \<in> set u \<Longrightarrow> wf_CoinRecord cr"
    using fl by (auto simp: flushing_def)
  moreover have "distinct (map fst u)" using fl by (simp add: flushing_def)
  ultimately obtain c2 where c2: "fold_opt (write_record E) (c1\<lparr>mainCacheSize := 0\<rparr>) u = Some c2"
    "coindb_wf E c2" "mainCache c2 = mainCache c1" "mainCacheSize c2 = 0"
    "mainCacheCapacity c2 = mainCacheCapacity c1"
    and coins: "db_coins E c2 = (\<lambda>cl. case map_of u (cl_ReferenceTransactionHash cl) of
       None \<Rightarrow> db_coins E (c1\<lparr>mainCacheSize := 0\<rparr>) cl | Some cr \<Rightarrow> record_coins cr (cl_OutputIndex cl))"
    using write_records_ok [of E "c1\<lparr>mainCacheSize := 0\<rparr>" u] by auto
  have "db_coins E (c1\<lparr>mainCacheSize := 0\<rparr>) = db_coins E c"
    using fl by (intro db_coins_cong) (simp add: flushing_def)
  then have "db_coins E c2 cl = (if cl \<in> ?S then None else db_coins E c cl)" for cl
    using fl coins by (auto simp: flushing_def split: option.splits)
  moreover have "mainCacheCapacity c1 = mainCacheCapacity c" using fl by (simp add: flushing_def)
  ultimately show ?thesis
    using st(1) u c2 cache by (auto simp: FlushMainCache_def)
qed

lemma map_of_filter_unspent:
  "distinct (map fst cs) \<Longrightarrow> map_of (filter (\<lambda>e. \<not> IsSpent (snd e)) cs) cl =
    (case map_of cs cl of None \<Rightarrow> None | Some coin \<Rightarrow> if IsSpent coin then None else Some coin)"
  by (induction cs) (auto split: option.splits simp: map_of_eq_None_iff)

lemma spent_keys_map_of:
  "distinct (map fst cs) \<Longrightarrow> cl \<in> spent_keys cs \<longleftrightarrow> (\<exists>coin. map_of cs cl = Some coin \<and> IsSpent coin)"
  by (auto simp: spent_keys_def)

lemma FlushMainCache_utxo:
  assumes "coindb_wf E c" and "FlushMainCache E c = Some c'"
  shows "utxo E c' = utxo E c"
proof -
  have "distinct (map fst (mainCache c))" using assms by (simp add: coindb_wf_def)
  then show ?thesis
    using FlushMainCache_ok [OF assms(1)] assms(2)
    by (auto simp: utxo_def fun_eq_iff map_of_filter_unspent spent_keys_map_of unspent_def split: option.splits)
qed

section \<open>The abstract effect of a block\<close>

definition inputs_of :: "Transaction list \<Rightarrow> CoinLocator set" where
  "inputs_of txs = (\<Union>tx \<in> set txs. makeCoinLocator ` set (Inputs tx))"

definition outputs_of :: "('db, 'z) ext_scheme \<Rightarrow> Transaction \<Rightarrow> CoinLocator \<rightharpoonup> TransactionOutput" where
  "outputs_of E tx cl =
     (if cl_ReferenceTransactionHash cl = Transaction_Hash E tx \<and> unat (cl_OutputIndex cl) < length (Outputs tx)
      then Some (Outputs tx ! unat (cl_OutputIndex cl)) else None)"

definition new_coins :: "('db, 'z) ext_scheme \<Rightarrow> Transaction list \<Rightarrow> CoinLocator \<rightharpoonup> TransactionOutput" where
  "new_coins E txs = foldl (\<lambda>m tx. m ++ outputs_of E tx) Map.empty txs"

definition apply_block ::
  "('db, 'z) ext_scheme \<Rightarrow> (CoinLocator \<rightharpoonup> TransactionOutput) \<Rightarrow> Transaction list \<Rightarrow>
   (CoinLocator \<rightharpoonup> TransactionOutput)" where
  "apply_block E U txs = (U |` (- inputs_of txs)) ++ new_coins E txs"

text \<open>The outputs and the hashes the cache mentions, and the blocks whose transactions are new.\<close>

definition cached_outputs :: "'db CoinDatabase \<Rightarrow> CoinLocator \<rightharpoonup> TransactionOutput" where
  "cached_outputs c cl = map_option c_TransactionOutput (map_of (mainCache c) cl)"

definition known_hashes :: "'db CoinDatabase \<Rightarrow> string set" where
  "known_hashes c = cl_ReferenceTransactionHash ` dom (cached_outputs c)"

definition new_block :: "('db, 'z) ext_scheme \<Rightarrow> string set \<Rightarrow> Transaction list \<Rightarrow> bool" where
  "new_block E K txs \<longleftrightarrow> distinct (map (Transaction_Hash E) txs) \<and>
     (\<forall>tx \<in> set txs. length (Outputs tx) < 2 ^ 32 \<and> Transaction_Hash E tx \<notin> K)"

text \<open>
  The invariant of a running node: every spendable coin is cached, and every unspent cached
  coin is in its record.
\<close>

definition cached_at :: "('db, 'z) ext_scheme \<Rightarrow> 'db CoinDatabase \<Rightarrow> CoinLocator \<Rightarrow> bool" where
  "cached_at E c cl \<longleftrightarrow>
     (\<forall>txo. db_coins E c cl = Some txo \<longrightarrow>
        (\<exists>coin. map_of (mainCache c) cl = Some coin \<and> c_TransactionOutput coin = txo)) \<and>
     (\<forall>coin. map_of (mainCache c) cl = Some coin \<and> \<not> IsSpent coin \<longrightarrow>
        db_coins E c cl = Some (c_TransactionOutput coin))"

definition coindb_ok :: "('db, 'z) ext_scheme \<Rightarrow> 'db CoinDatabase \<Rightarrow> bool" where
  "coindb_ok E c \<longleftrightarrow> coindb_wf E c \<and> (\<forall>cl. cached_at E c cl)"

lemma cached_at_None: "map_of (mainCache c) cl = None \<Longrightarrow> cached_at E c cl \<longleftrightarrow> db_coins E c cl = None"
  by (simp add: cached_at_def)

lemma cached_at_Some:
  "map_of (mainCache c) cl = Some coin \<Longrightarrow> cached_at E c cl \<longleftrightarrow>
     (db_coins E c cl = Some (c_TransactionOutput coin) \<or> (IsSpent coin \<and> db_coins E c cl = None))"
  by (cases "db_coins E c cl") (auto simp: cached_at_def)

lemma FlushMainCache_cached_at:
  assumes wf: "coindb_wf E c" and fl: "FlushMainCache E c = Some c'" and ca: "cached_at E c cl"
  shows "cached_at E c' cl"
proof -
  have d: "distinct (map fst (mainCache c))" using wf by (simp add: coindb_wf_def)
  have cache: "map_of (mainCache c') cl = (case map_of (mainCache c) cl of
      None \<Rightarrow> None | Some coin \<Rightarrow> if IsSpent coin then None else Some coin)"
    and coins: "db_coins E c' cl = (if cl \<in> spent_keys (mainCache c) then None else db_coins E c cl)"
    using FlushMainCache_ok [OF wf] fl map_of_filter_unspent [OF d] by auto
  show ?thesis
  proof (cases "map_of (mainCache c) cl")
    case None
    then show ?thesis using ca cache coins by (simp add: cached_at_None)
  next
    case (Some coin)
    have s: "cl \<in> spent_keys (mainCache c) \<longleftrightarrow> IsSpent coin"
      using spent_keys_map_of [OF d, of cl] Some by simp
    show ?thesis
      using ca cache coins s Some
      by (cases "IsSpent coin") (simp_all add: cached_at_None cached_at_Some)
  qed
qed

subsection \<open>Marking inputs as spent\<close>

text \<open>\<open>spending E c c' D\<close>: \<open>c'\<close> is \<open>c\<close> with the cached coins in \<open>D\<close> marked as spent.\<close>

definition spending :: "('db, 'z) ext_scheme \<Rightarrow> 'db CoinDatabase \<Rightarrow> 'db CoinDatabase \<Rightarrow> CoinLocator set \<Rightarrow> bool" where
  "spending E c c' D \<longleftrightarrow> coindb_wf E c' \<and> cdb c' = cdb c \<and>
     mainCacheSize c' = mainCacheSize c \<and> mainCacheCapacity c' = mainCacheCapacity c \<and>
     (\<forall>cl. map_of (mainCache c') cl =
        map_option (\<lambda>coin. if cl \<in> D then coin\<lparr>IsSpent := True\<rparr> else coin) (map_of (mainCache c) cl))"

lemma spendingD:
  "spending E c c' D \<Longrightarrow> map_of (mainCache c') cl =
     map_option (\<lambda>coin. if cl \<in> D then coin\<lparr>IsSpent := True\<rparr> else coin) (map_of (mainCache c) cl)"
  by (simp add: spending_def)

lemma spend_input_ok:
  assumes "spending E c c' D" and "map_of (mainCache c) (makeCoinLocator txi) \<noteq> None"
  shows "\<exists>c''. spend_input E tx c' txi = Some c'' \<and> spending E c c'' (insert (makeCoinLocator txi) D)"
proof -
  let ?cl = "makeCoinLocator txi"
  note cache = spendingD [OF assms(1)]
  obtain coin where coin: "map_of (mainCache c') ?cl = Some coin"
    using assms(2) cache [of ?cl] by (cases "map_of (mainCache c) ?cl") simp_all
  let ?c = "c'\<lparr>mainCache := AList.update ?cl (coin\<lparr>IsSpent := True\<rparr>) (mainCache c')\<rparr>"
  have "coindb_wf E ?c"
    using assms(1) by (intro coindb_wf_update) (simp add: spending_def)
  moreover have "map_of (mainCache ?c) cl = map_option (\<lambda>coin.
      if cl \<in> insert ?cl D then coin\<lparr>IsSpent := True\<rparr> else coin) (map_of (mainCache c) cl)" for cl
    using cache [of cl] coin by (cases "map_of (mainCache c) cl") (auto simp: update_conv')
  ultimately have "spending E c ?c (insert ?cl D)"
    using assms(1) by (simp add: spending_def)
  then show ?thesis using coin by (simp add: spend_input_def Let_def)
qed

lemma spend_inputs_ok:
  assumes "spending E c c' D" and "\<And>txi. txi \<in> set txis \<Longrightarrow> map_of (mainCache c) (makeCoinLocator txi) \<noteq> None"
  shows "\<exists>c''. fold_opt (spend_input E tx) c' txis = Some c'' \<and>
    spending E c c'' (D \<union> makeCoinLocator ` set txis)"
proof -
  have "foldl (\<lambda>D txi. insert (makeCoinLocator txi) D) D txis = D \<union> makeCoinLocator ` set txis"
    by (induction txis arbitrary: D) auto
  then show ?thesis
    using fold_opt_refine [where R = "spending E c" and f = "spend_input E tx"
        and g = "\<lambda>D txi. insert (makeCoinLocator txi) D", OF assms(1)] spend_input_ok assms(2) by metis
qed

lemma updateSpentCoins_ok:
  assumes "coindb_wf E c" and "\<And>cl. cl \<in> inputs_of txs \<Longrightarrow> map_of (mainCache c) cl \<noteq> None"
  shows "\<exists>c'. updateSpentCoins E c txs = Some c' \<and> spending E c c' (inputs_of txs)"
proof -
  let ?g = "\<lambda>D tx. D \<union> makeCoinLocator ` set (Inputs tx)"
  have "spending E c c {}" using assms(1) by (simp add: spending_def option.map_ident)
  moreover have "foldl ?g D txs = D \<union> inputs_of txs" for D
    by (induction txs arbitrary: D) (auto simp: inputs_of_def)
  moreover have "\<exists>c''. fold_opt (spend_input E tx) c' (Inputs tx) = Some c'' \<and> spending E c c'' (?g D tx)"
    if "tx \<in> set txs" "spending E c c' D" for c' D tx
    using that assms(2) by (intro spend_inputs_ok) (auto simp: inputs_of_def)
  ultimately show ?thesis
    using fold_opt_refine [where R = "spending E c" and g = ?g and s = c and a = "{}" and xs = txs
        and f = "\<lambda>c tx. fold_opt (spend_input E tx) c (Inputs tx)"]
    by (simp add: updateSpentCoins_def)
qed

lemma spending_utxo:
  assumes "spending E c c' D" and "\<And>cl. cl \<in> D \<Longrightarrow> map_of (mainCache c) cl \<noteq> None"
  shows "utxo E c' = utxo E c |` (- D)"
proof (rule ext)
  fix cl
  have "db_coins E c' = db_coins E c" using assms(1) by (intro db_coins_cong) (simp add: spending_def)
  then show "utxo E c' cl = (utxo E c |` (- D)) cl"
    using assms(1) assms(2) [of cl]
    by (cases "map_of (mainCache c) cl") (auto simp: utxo_def spending_def unspent_def restrict_map_def)
qed

lemma spending_cached_at:
  assumes "spending E c c' D" and "cached_at E c cl"
  shows "cached_at E c' cl"
proof -
  have "db_coins E c' = db_coins E c" using assms(1) by (intro db_coins_cong) (simp add: spending_def)
  then show ?thesis
    using assms(2) spendingD [OF assms(1), of cl]
    by (cases "map_of (mainCache c) cl") (auto simp: cached_at_None cached_at_Some)
qed

subsection \<open>Caching the outputs\<close>

definition fresh_coin :: "TransactionOutput \<Rightarrow> Coin" where
  "fresh_coin txo = \<lparr>c_TransactionOutput = txo, IsSpent = False\<rparr>"

text \<open>
  While the outputs of the transactions with hashes \<open>H\<close> are being cached: the cache holds the
  coins \<open>N\<close> for these hashes and no record mentions them; elsewhere the abstract state is
  \<open>U\<close> and the invariant holds for the locators in \<open>Q\<close>. The cached outputs are among \<open>K\<close> and \<open>N\<close>.
\<close>

definition caching ::
  "('db, 'z) ext_scheme \<Rightarrow> (CoinLocator \<rightharpoonup> TransactionOutput) \<Rightarrow> string set \<Rightarrow> CoinLocator set \<Rightarrow>
   (CoinLocator \<rightharpoonup> TransactionOutput) \<Rightarrow> 'db CoinDatabase \<Rightarrow> (CoinLocator \<rightharpoonup> TransactionOutput) \<Rightarrow> bool" where
  "caching E K H Q U c N \<longleftrightarrow> coindb_wf E c \<and> cached_outputs c \<subseteq>\<^sub>m K ++ N \<and>
     (\<forall>cl. cl_ReferenceTransactionHash cl \<in> H \<longrightarrow>
        map_of (mainCache c) cl = map_option fresh_coin (N cl) \<and> db_coins E c cl = None) \<and>
     (\<forall>cl. cl_ReferenceTransactionHash cl \<notin> H \<longrightarrow> utxo E c cl = U cl \<and> (cl \<in> Q \<longrightarrow> cached_at E c cl))"

lemma cachingD:
  assumes "caching E K H Q U c N"
  shows "coindb_wf E c"
    and "cl_ReferenceTransactionHash cl \<in> H \<Longrightarrow> map_of (mainCache c) cl = map_option fresh_coin (N cl)"
    and "cl_ReferenceTransactionHash cl \<in> H \<Longrightarrow> db_coins E c cl = None"
    and "cl_ReferenceTransactionHash cl \<notin> H \<Longrightarrow> utxo E c cl = U cl"
    and "cl_ReferenceTransactionHash cl \<notin> H \<Longrightarrow> cl \<in> Q \<Longrightarrow> cached_at E c cl"
    and "cached_outputs c \<subseteq>\<^sub>m K ++ N"
  using assms by (simp_all add: caching_def)

lemma caching_flush:
  assumes c: "caching E K H Q U c N"
  shows "\<exists>c'. FlushMainCache E c = Some c' \<and> caching E K H Q U c' N"
proof -
  note wf = cachingD(1) [OF c]
  obtain c' where c': "FlushMainCache E c = Some c'" "coindb_wf E c'"
    "mainCache c' = filter (\<lambda>e. \<not> IsSpent (snd e)) (mainCache c)"
    "db_coins E c' = (\<lambda>cl. if cl \<in> spent_keys (mainCache c) then None else db_coins E c cl)"
    using FlushMainCache_ok [OF wf] by blast
  have "map_of (mainCache c') cl = map_option fresh_coin (N cl)" if "cl_ReferenceTransactionHash cl \<in> H" for cl
    using cachingD(2) [OF c that] c'(3) map_of_filter_unspent [OF coindb_wf_distinct [OF wf], of cl]
    by (cases "N cl") (simp_all add: fresh_coin_def)
  moreover have "db_coins E c' cl = None" if "cl_ReferenceTransactionHash cl \<in> H" for cl
    using cachingD(3) [OF c that] c'(4) by simp
  moreover have "utxo E c' cl = U cl \<and> (cl \<in> Q \<longrightarrow> cached_at E c' cl)" if "cl_ReferenceTransactionHash cl \<notin> H" for cl
    using cachingD(4,5) [OF c that] FlushMainCache_utxo [OF wf c'(1)] FlushMainCache_cached_at [OF wf c'(1)]
    by simp
  moreover have "cached_outputs c' \<subseteq>\<^sub>m cached_outputs c"
    using c'(3) map_of_filter_unspent [OF coindb_wf_distinct [OF wf]]
    by (auto simp: map_le_def cached_outputs_def dom_def split: option.splits if_splits)
  ultimately show ?thesis
    using c'(1,2) map_le_trans [OF _ cachingD(6) [OF c]] by (simp add: caching_def)
qed

lemma utxo_cache_other:
  "cl' \<noteq> cl \<Longrightarrow> utxo E (c\<lparr>mainCache := AList.update cl coin (mainCache c), mainCacheSize := n\<rparr>) cl' = utxo E c cl'"
  using db_coins_cong [of "c\<lparr>mainCache := AList.update cl coin (mainCache c), mainCacheSize := n\<rparr>" c E]
  by (simp add: utxo_def update_conv' split: option.split)

lemma cached_at_other:
  "cl' \<noteq> cl \<Longrightarrow> cached_at E (c\<lparr>mainCache := AList.update cl coin (mainCache c), mainCacheSize := n\<rparr>) cl' =
     cached_at E c cl'"
  using db_coins_cong [of "c\<lparr>mainCache := AList.update cl coin (mainCache c), mainCacheSize := n\<rparr>" c E]
  by (simp add: cached_at_def update_conv')

lemma cache_output_ok:
  assumes c: "caching E K H Q U c N" and H: "Transaction_Hash E tx \<in> H"
  shows "\<exists>c'. cache_output E tx c e = Some c' \<and>
    caching E K H Q U c' (N(locator (Transaction_Hash E tx) (word_of_nat (fst e)) \<mapsto> snd e))"
proof -
  let ?cl = "locator (Transaction_Hash E tx) (word_of_nat (fst e))"
  obtain c1 where c1: "caching E K H Q U c1 N"
    "(if mainCacheSize c + word_of_nat (length (Outputs tx)) \<ge> mainCacheCapacity c
      then FlushMainCache E c else Some c) = Some c1"
    using caching_flush [OF c] c
    by (cases "mainCacheSize c + word_of_nat (length (Outputs tx)) \<ge> mainCacheCapacity c") auto
  let ?c = "c1\<lparr>mainCache := AList.update ?cl (fresh_coin (snd e)) (mainCache c1),
    mainCacheSize := mainCacheSize c1 + 1\<rparr>"
  have db: "db_coins E ?c = db_coins E c1" by (rule db_coins_cong) simp
  have "cl_ReferenceTransactionHash cl \<notin> H \<Longrightarrow> cl \<noteq> ?cl" for cl using H by auto
  moreover have "cached_outputs ?c = (cached_outputs c1)(?cl \<mapsto> snd e)"
    by (auto simp: cached_outputs_def update_conv' fresh_coin_def)
  then have "cached_outputs ?c \<subseteq>\<^sub>m K ++ N(?cl \<mapsto> snd e)"
    using map_le_upd [OF cachingD(6) [OF c1(1)]] by simp
  ultimately have "caching E K H Q U ?c (N(?cl \<mapsto> snd e))"
    using coindb_wf_update(2) [OF cachingD(1) [OF c1(1)]] cachingD(2-5) [OF c1(1)] db
    by (auto simp: caching_def update_conv' utxo_cache_other cached_at_other simp del: locator_simps(5,6))
  moreover have "cache_output E tx c e = Some ?c"
    using c1(2) by (cases e) (simp add: cache_output_def locator_fold fresh_coin_def)
  ultimately show ?thesis by blast
qed

lemma foldl_outputs:
  assumes "length txos + n \<le> 2 ^ 32"
  shows "foldl (\<lambda>N e. N(locator h (word_of_nat (fst e)) \<mapsto> snd e)) N (List.enumerate n txos) cl =
    (if cl_ReferenceTransactionHash cl = h \<and> n \<le> unat (cl_OutputIndex cl) \<and> unat (cl_OutputIndex cl) < n + length txos
     then Some (txos ! (unat (cl_OutputIndex cl) - n)) else N cl)"
  using assms
proof (induction txos arbitrary: n N)
  case (Cons txo txos)
  have n: "unat (word_of_nat n :: u32) = n" using Cons.prems by (intro u32_of_nat_less) simp
  have eq: "cl_OutputIndex cl = word_of_nat n \<longleftrightarrow> unat (cl_OutputIndex cl) = n"
    using n by (auto simp: word_unat_eq_iff)
  let ?N = "N(locator h (word_of_nat n) \<mapsto> txo)" and ?k = "unat (cl_OutputIndex cl)"
  have IH: "foldl (\<lambda>N e. N(locator h (word_of_nat (fst e)) \<mapsto> snd e)) ?N (List.enumerate (Suc n) txos) cl =
    (if cl_ReferenceTransactionHash cl = h \<and> Suc n \<le> ?k \<and> ?k < Suc n + length txos
     then Some (txos ! (?k - Suc n)) else ?N cl)"
    using Cons.prems by (intro Cons.IH) simp
  have "(txo # txos) ! (?k - n) = (if ?k = n then txo else txos ! (?k - Suc n))" if "n \<le> ?k"
    using that by (auto simp: nth_Cons')
  then show ?case
    unfolding enumerate_simps foldl_Cons fst_conv snd_conv IH using eq by auto
qed auto

lemma cache_outputs_ok:
  assumes c: "caching E K H Q U c N" and H: "Transaction_Hash E tx \<in> H" and len: "length (Outputs tx) < 2 ^ 32"
  shows "\<exists>c'. fold_opt (cache_output E tx) c (List.enumerate 0 (Outputs tx)) = Some c' \<and>
    caching E K H Q U c' (N ++ outputs_of E tx)"
proof -
  let ?g = "\<lambda>N e. N(locator (Transaction_Hash E tx) (word_of_nat (fst e)) \<mapsto> snd e)"
  have "foldl ?g N (List.enumerate 0 (Outputs tx)) = N ++ outputs_of E tx"
    using foldl_outputs [of "Outputs tx" 0] len by (auto simp: fun_eq_iff outputs_of_def map_add_def)
  then show ?thesis
    using fold_opt_refine [where R = "caching E K H Q U" and g = ?g and f = "cache_output E tx", OF c
        cache_output_ok [OF _ H], of "List.enumerate 0 (Outputs tx)"] by simp
qed

lemma storeTransactionsInMainCache_ok:
  assumes c: "caching E K H Q U c Map.empty"
    and H: "\<And>tx. tx \<in> set txs \<Longrightarrow> Transaction_Hash E tx \<in> H \<and> length (Outputs tx) < 2 ^ 32"
  shows "\<exists>c'. storeTransactionsInMainCache E c txs = Some c' \<and> caching E K H Q U c' (new_coins E txs)"
  unfolding storeTransactionsInMainCache_def new_coins_def
  using H by (intro fold_opt_refine [where R = "caching E K H Q U", OF c] cache_outputs_ok) auto

subsection \<open>Storing the records\<close>

text \<open>\<open>recording E c c' M\<close>: \<open>c'\<close> is \<open>c\<close> with the records of the hashes in \<open>fst M\<close> replaced by coins \<open>snd M\<close>.\<close>

definition recording ::
  "('db, 'z) ext_scheme \<Rightarrow> 'db CoinDatabase \<Rightarrow> 'db CoinDatabase \<Rightarrow>
   string set \<times> (CoinLocator \<rightharpoonup> TransactionOutput) \<Rightarrow> bool" where
  "recording E c c' M \<longleftrightarrow> coindb_wf E c' \<and> mainCache c' = mainCache c \<and>
     db_coins E c' = (\<lambda>cl. if cl_ReferenceTransactionHash cl \<in> fst M then snd M cl else db_coins E c cl)"

definition record_step ::
  "('db, 'z) ext_scheme \<Rightarrow> string set \<times> (CoinLocator \<rightharpoonup> TransactionOutput) \<Rightarrow> Transaction \<Rightarrow>
   string set \<times> (CoinLocator \<rightharpoonup> TransactionOutput)" where
  "record_step E M tx = (insert (Transaction_Hash E tx) (fst M),
     \<lambda>cl. if cl_ReferenceTransactionHash cl = Transaction_Hash E tx then outputs_of E tx cl else snd M cl)"

lemma record_step_ok:
  assumes "recording E c c' M" and "length (Outputs tx) < 2 ^ 32"
  shows "\<exists>c''. putRecordInDB E c' (Transaction_Hash E tx) (createCoinRecord tx) = Some c'' \<and>
    recording E c c'' (record_step E M tx)"
  using assms putRecordInDB_ok [of E c' "createCoinRecord tx" "Transaction_Hash E tx"]
  by (auto simp: recording_def record_step_def createCoinRecord_wf createCoinRecord_coins outputs_of_def
      fun_eq_iff)

lemma new_coins_hash:
  "cl_ReferenceTransactionHash cl \<notin> Transaction_Hash E ` set txs \<Longrightarrow> new_coins E txs cl = None"
  by (induction txs rule: rev_induct) (auto simp: new_coins_def outputs_of_def map_add_def split: option.splits)

lemma new_coins_snoc: "new_coins E (txs @ [tx]) = new_coins E txs ++ outputs_of E tx"
  by (simp add: new_coins_def)

lemma foldl_record_step:
  assumes "distinct (map (Transaction_Hash E) txs)"
  shows "foldl (record_step E) ({}, Map.empty) txs = (Transaction_Hash E ` set txs, new_coins E txs)"
  using assms
proof (induction txs rule: rev_induct)
  case (snoc tx txs)
  have "new_coins E txs cl = None" if "cl_ReferenceTransactionHash cl = Transaction_Hash E tx" for cl
    using snoc.prems that by (intro new_coins_hash) auto
  then have "record_step E (Transaction_Hash E ` set txs, new_coins E txs) tx =
      (insert (Transaction_Hash E tx) (Transaction_Hash E ` set txs), new_coins E txs ++ outputs_of E tx)"
    by (auto simp: record_step_def fun_eq_iff map_add_def outputs_of_def)
  with snoc show ?case by (simp add: new_coins_snoc)
qed (simp add: new_coins_def)

lemma storeTransactionsInDB_ok:
  assumes "coindb_wf E c" and "distinct (map (Transaction_Hash E) txs)"
    and "\<And>tx. tx \<in> set txs \<Longrightarrow> length (Outputs tx) < 2 ^ 32"
  shows "\<exists>c'. storeTransactionsInDB E c txs = Some c' \<and>
    recording E c c' (Transaction_Hash E ` set txs, new_coins E txs)"
proof -
  have "recording E c c ({}, Map.empty)" using assms(1) by (simp add: recording_def)
  then show ?thesis
    unfolding storeTransactionsInDB_def foldl_record_step [OF assms(2), symmetric]
    using assms(3) by (intro fold_opt_refine [where R = "recording E c"] record_step_ok)
qed

section \<open>Storing a block\<close>

lemma unspent_fresh_coin [simp]: "unspent (fresh_coin txo) = Some txo" "IsSpent (fresh_coin txo) = False"
  "c_TransactionOutput (fresh_coin txo) = txo"
  by (simp_all add: unspent_def fresh_coin_def)

lemma new_block_hashes:
  assumes "new_block E (known_hashes c) txs" and "cached_at E c cl"
    and "cl_ReferenceTransactionHash cl \<in> Transaction_Hash E ` set txs"
  shows "map_of (mainCache c) cl = None" "db_coins E c cl = None" "utxo E c cl = None"
proof -
  show "map_of (mainCache c) cl = None"
    using assms(1,3) by (force simp: new_block_def known_hashes_def cached_outputs_def)
  with assms(2) show "db_coins E c cl = None" "utxo E c cl = None"
    by (simp_all add: cached_at_None utxo_def)
qed

lemma recording_utxo:
  assumes c: "caching E K (Transaction_Hash E ` set txs) Q U c (new_coins E txs)"
    and r: "recording E c c' (Transaction_Hash E ` set txs, new_coins E txs)"
  shows "utxo E c' cl = (if cl_ReferenceTransactionHash cl \<in> Transaction_Hash E ` set txs
      then new_coins E txs cl else U cl) \<and> (cl \<in> Q \<longrightarrow> cached_at E c' cl)"
proof (cases "cl_ReferenceTransactionHash cl \<in> Transaction_Hash E ` set txs")
  case True
  have cache: "map_of (mainCache c') cl = map_option fresh_coin (new_coins E txs cl)"
    and db: "db_coins E c' cl = new_coins E txs cl"
    using cachingD(2) [OF c True] r True by (auto simp: recording_def)
  show ?thesis
  proof (cases "new_coins E txs cl")
    case None
    with True cache db show ?thesis by (simp add: utxo_def cached_at_None)
  next
    case (Some txo)
    with True cache db show ?thesis by (simp add: utxo_def cached_at_Some)
  qed
next
  case False
  have "db_coins E c' cl = db_coins E c cl" "mainCache c' = mainCache c"
    using r False by (auto simp: recording_def)
  then have "utxo E c' cl = utxo E c cl" "cached_at E c' cl = cached_at E c cl"
    by (simp_all add: utxo_def cached_at_def split: option.split)
  with cachingD(4,5) [OF c False] False show ?thesis by simp
qed

lemma store_outputs_ok:
  assumes c: "caching E K (Transaction_Hash E ` set txs) Q U c Map.empty" and new: "new_block E K' txs"
  shows "\<exists>c1 c2. storeTransactionsInMainCache E c txs = Some c1 \<and> storeTransactionsInDB E c1 txs = Some c2 \<and>
    coindb_wf E c2 \<and> (\<forall>cl \<in> Q. cached_at E c2 cl) \<and> cached_outputs c2 \<subseteq>\<^sub>m K ++ new_coins E txs \<and>
    utxo E c2 = (\<lambda>cl. if cl_ReferenceTransactionHash cl \<in> Transaction_Hash E ` set txs
                      then new_coins E txs cl else U cl)"
proof -
  let ?H = "Transaction_Hash E ` set txs"
  have len: "\<And>tx. tx \<in> set txs \<Longrightarrow> length (Outputs tx) < 2 ^ 32" and d: "distinct (map (Transaction_Hash E) txs)"
    using new by (auto simp: new_block_def)
  obtain c1 where c1: "storeTransactionsInMainCache E c txs = Some c1" "caching E K ?H Q U c1 (new_coins E txs)"
    using storeTransactionsInMainCache_ok [OF c, of txs] len by auto
  obtain c2 where c2: "storeTransactionsInDB E c1 txs = Some c2" "recording E c1 c2 (?H, new_coins E txs)"
    using storeTransactionsInDB_ok [OF cachingD(1) [OF c1(2)] d len] by blast
  note u2 = recording_utxo [OF c1(2) c2(2)]
  moreover have "coindb_wf E c2" using c2(2) by (simp add: recording_def)
  moreover have "cached_outputs c2 \<subseteq>\<^sub>m K ++ new_coins E txs"
    using cachingD(6) [OF c1(2)] c2(2) by (simp add: cached_outputs_def [abs_def] recording_def)
  ultimately show ?thesis using c1(1) c2(1) by (auto simp: fun_eq_iff)
qed

lemma StoreBlock_refines:
  assumes ok: "coindb_ok E c" and new: "new_block E (known_hashes c) txs"
    and inp: "inputs_of txs \<subseteq> dom (utxo E c)"
  shows "\<exists>c'. CoinDatabase_StoreBlock E c txs = Some c' \<and> coindb_ok E c' \<and>
    utxo E c' = apply_block E (utxo E c) txs \<and>
    cached_outputs c' \<subseteq>\<^sub>m cached_outputs c ++ new_coins E txs"
proof -
  let ?H = "Transaction_Hash E ` set txs" and ?K = "cached_outputs c"
  have wf: "coindb_wf E c" and ca: "\<And>cl. cached_at E c cl" using ok by (auto simp: coindb_ok_def)
  note fresh = new_block_hashes [OF new ca]
  have cached: "map_of (mainCache c) cl \<noteq> None" if "cl \<in> inputs_of txs" for cl
    using that inp ca [of cl] by (force simp: cached_at_None utxo_def split: option.splits)
  obtain c1 where c1: "updateSpentCoins E c txs = Some c1" "spending E c c1 (inputs_of txs)"
    using updateSpentCoins_ok [OF wf] cached by blast
  note u1 = spending_utxo [OF c1(2) cached]
  have "map_of (mainCache c1) cl = None \<and> db_coins E c1 cl = None" if "cl_ReferenceTransactionHash cl \<in> ?H" for cl
    using fresh [OF that] spendingD [OF c1(2), of cl] c1(2) db_coins_cong [of c1 c E]
    by (simp add: spending_def)
  moreover have "cached_outputs c1 cl = ?K cl" for cl
    using spendingD [OF c1(2), of cl]
    by (cases "map_of (mainCache c) cl") (simp_all add: cached_outputs_def)
  then have "cached_outputs c1 = ?K" ..
  ultimately have "caching E ?K ?H UNIV (utxo E c1) c1 Map.empty"
    using c1(2) spending_cached_at [OF c1(2) ca] by (simp add: caching_def spending_def)
  from store_outputs_ok [OF this new] obtain c2 c3
    where c3: "storeTransactionsInMainCache E c1 txs = Some c2" "storeTransactionsInDB E c2 txs = Some c3"
      "coindb_wf E c3" "\<And>cl. cached_at E c3 cl" "cached_outputs c3 \<subseteq>\<^sub>m ?K ++ new_coins E txs"
    and u3: "utxo E c3 = (\<lambda>cl. if cl_ReferenceTransactionHash cl \<in> ?H then new_coins E txs cl else utxo E c1 cl)"
    by blast
  have "utxo E c3 cl = apply_block E (utxo E c) txs cl" for cl
    using u3 u1 fresh(3) [of cl] new_coins_hash [of cl E txs]
    by (auto simp: apply_block_def map_add_def restrict_map_def split: option.splits)
  then show ?thesis using c1(1) c3 by (auto simp: CoinDatabase_StoreBlock_def coindb_ok_def)
qed

text \<open>
  Inputs that are not cached are not marked: \<open>updateSpentCoins\<close> looks for the record of the
  spending transaction instead of the record of the coin.
\<close>

lemma updateSpentCoins_uncached:
  assumes "\<And>cl. cl \<in> inputs_of txs \<Longrightarrow> map_of (mainCache c) cl = None"
    and "\<And>tx. tx \<in> set txs \<Longrightarrow> getCoinRecordFromDB E c (Transaction_Hash E tx) = Some None"
  shows "updateSpentCoins E c txs = Some c"
proof -
  have "fold_opt (spend_input E tx) c txis = Some c" if "tx \<in> set txs" "set txis \<subseteq> set (Inputs tx)" for tx txis
    using that(2)
  proof (induction txis)
    case (Cons txi txis)
    then have "makeCoinLocator txi \<in> inputs_of txs" using that(1) by (auto simp: inputs_of_def)
    then show ?case
      using Cons assms(1) assms(2) [OF that(1)] by (simp add: spend_input_def removeCoinFromDB_def Let_def)
  qed simp
  then have "fold_opt (\<lambda>c tx. fold_opt (spend_input E tx) c (Inputs tx)) c txs' = Some c"
    if "set txs' \<subseteq> set txs" for txs'
    using that by (induction txs') auto
  then show ?thesis by (simp add: updateSpentCoins_def)
qed

lemma StoreBlock_uncached:
  assumes wf: "coindb_wf E c" and new: "new_block E (known_hashes c) txs"
    and unc: "\<And>cl. cl \<in> inputs_of txs \<Longrightarrow> map_of (mainCache c) cl = None"
    and nr: "\<And>tx. tx \<in> set txs \<Longrightarrow> getCoinRecordFromDB E c (Transaction_Hash E tx) = Some None"
  shows "\<exists>c'. CoinDatabase_StoreBlock E c txs = Some c' \<and> coindb_wf E c' \<and>
    utxo E c' = utxo E c ++ new_coins E txs"
proof -
  let ?H = "Transaction_Hash E ` set txs"
  have none: "map_of (mainCache c) cl = None \<and> db_coins E c cl = None" if h: "cl_ReferenceTransactionHash cl \<in> ?H" for cl
  proof -
    obtain tx where tx: "tx \<in> set txs" "cl_ReferenceTransactionHash cl = Transaction_Hash E tx" using h by auto
    have "map_of (mainCache c) cl = None"
      using new tx by (force simp: new_block_def known_hashes_def cached_outputs_def)
    then show ?thesis using nr tx by (simp add: db_coins_def)
  qed
  then have "caching E (cached_outputs c) ?H {} (utxo E c) c Map.empty"
    using wf by (simp add: caching_def)
  from store_outputs_ok [OF this new] updateSpentCoins_uncached [OF unc nr] obtain c'
    where c': "CoinDatabase_StoreBlock E c txs = Some c'" "coindb_wf E c'"
      "utxo E c' = (\<lambda>cl. if cl_ReferenceTransactionHash cl \<in> ?H then new_coins E txs cl else utxo E c cl)"
    by (auto simp: CoinDatabase_StoreBlock_def)
  have "utxo E c' cl = (utxo E c ++ new_coins E txs) cl" for cl
    using c'(3) none [of cl] new_coins_hash [of cl E txs]
    by (auto simp: map_add_def utxo_def split: option.splits)
  with c' show ?thesis by (auto simp: fun_eq_iff)
qed

end
