(* ===== verification/Coin_Store.thy ===== *)
theory Coin_Store
  imports Coin_Utxo
begin

text \<open>
  The contract between the block chain and its coin database, the properties of
  \<open>src/pkg/blockchain/coindatabase\<close> that follow from it, and the two operations outside it:
  reverting a block and reading a balance.

  The locale \<open>coin_store\<close> is the interface a block chain uses: validation decides whether the
  inputs are spendable, and storing a valid block applies it to the abstract ledger. Inside the
  locale a whole chain of blocks is shown to be accepted exactly when the abstract ledger
  accepts it. The interpretation \<open>coin_db\<close> provides the contract for the code.
\<close>

section \<open>The interface\<close>

definition tx_hashes :: "('db, 'z) ext_scheme \<Rightarrow> Transaction list list \<Rightarrow> string list" where
  "tx_hashes E bs = map (Transaction_Hash E) (concat bs)"

text \<open>The abstract ledger accepts a chain when every block spends coins that exist.\<close>

fun valid_chain ::
  "('db, 'z) ext_scheme \<Rightarrow> (CoinLocator \<rightharpoonup> TransactionOutput) \<Rightarrow> Transaction list list \<Rightarrow> bool" where
  "valid_chain E U [] = True"
| "valid_chain E U (txs # bs) = (inputs_of txs \<subseteq> dom U \<and> valid_chain E (apply_block E U txs) bs)"

text \<open>Validate and store one block after the other, as \<open>HandleBlock\<close> does on the active chain.\<close>

fun accept_chain ::
  "('s \<Rightarrow> Transaction list \<Rightarrow> bool option) \<Rightarrow> ('s \<Rightarrow> Transaction list \<Rightarrow> 's option) \<Rightarrow> 's \<Rightarrow>
   Transaction list list \<Rightarrow> 's option" where
  "accept_chain validate store s [] = Some s"
| "accept_chain validate store s (txs # bs) =
     (case validate s txs of
        Some True \<Rightarrow> (case store s txs of None \<Rightarrow> None | Some s' \<Rightarrow> accept_chain validate store s' bs)
      | _ \<Rightarrow> None)"

locale coin_store =
  fixes E :: "('db, 'z) ext_scheme"
    and ok :: "'s \<Rightarrow> bool" and coins :: "'s \<Rightarrow> CoinLocator \<rightharpoonup> TransactionOutput"
    and known :: "'s \<Rightarrow> string set"
    and validate :: "'s \<Rightarrow> Transaction list \<Rightarrow> bool option"
    and store :: "'s \<Rightarrow> Transaction list \<Rightarrow> 's option"
  assumes validate_coins: "ok s \<Longrightarrow> validate s txs = Some (inputs_of txs \<subseteq> dom (coins s))"
    and store_coins: "ok s \<Longrightarrow> new_block E (known s) txs \<Longrightarrow> inputs_of txs \<subseteq> dom (coins s) \<Longrightarrow>
      \<exists>s'. store s txs = Some s' \<and> ok s' \<and> coins s' = apply_block E (coins s) txs \<and>
        known s' \<subseteq> known s \<union> Transaction_Hash E ` set txs"
begin

text \<open>A chain is accepted exactly when the abstract ledger accepts it, with the same coins.\<close>

lemma accept_chain_refines:
  assumes "ok s" and "distinct (tx_hashes E bs)" and "set (tx_hashes E bs) \<inter> known s = {}"
    and "\<And>tx. tx \<in> set (concat bs) \<Longrightarrow> length (Outputs tx) < 2 ^ 32"
  shows "if valid_chain E (coins s) bs
    then \<exists>s'. accept_chain validate store s bs = Some s' \<and> ok s' \<and> coins s' = foldl (apply_block E) (coins s) bs
    else accept_chain validate store s bs = None"
  using assms
proof (induction bs arbitrary: s)
  case (Cons txs bs)
  show ?case
  proof (cases "inputs_of txs \<subseteq> dom (coins s)")
    case False
    then show ?thesis using validate_coins [OF Cons.prems(1), of txs] by simp
  next
    case True
    have "new_block E (known s) txs"
      using Cons.prems(2-4) by (auto simp: new_block_def tx_hashes_def)
    then obtain s' where s': "store s txs = Some s'" "ok s'" "coins s' = apply_block E (coins s) txs"
      "known s' \<subseteq> known s \<union> Transaction_Hash E ` set txs"
      using store_coins [OF Cons.prems(1) _ True] by blast
    have split: "tx_hashes E (txs # bs) = map (Transaction_Hash E) txs @ tx_hashes E bs"
      by (simp add: tx_hashes_def)
    have "set (tx_hashes E bs) \<inter> known s' = {}" "distinct (tx_hashes E bs)"
      using s'(4) Cons.prems(2,3) unfolding split distinct_append set_append set_map by blast+
    then have "if valid_chain E (coins s') bs
      then \<exists>s''. accept_chain validate store s' bs = Some s'' \<and> ok s'' \<and>
        coins s'' = foldl (apply_block E) (coins s') bs
      else accept_chain validate store s' bs = None"
      using Cons.prems(4) by (intro Cons.IH [OF s'(2)]) auto
    then show ?thesis
      using True s' validate_coins [OF Cons.prems(1), of txs] by (auto split: if_splits)
  qed
qed simp

end

lemma known_hashes_step:
  assumes "cached_outputs c' \<subseteq>\<^sub>m cached_outputs c ++ new_coins E txs"
  shows "known_hashes c' \<subseteq> known_hashes c \<union> Transaction_Hash E ` set txs"
proof
  fix h
  assume "h \<in> known_hashes c'"
  then obtain cl where h: "h = cl_ReferenceTransactionHash cl" and cl: "cl \<in> dom (cached_outputs c')"
    by (auto simp: known_hashes_def)
  have "cl \<in> dom (cached_outputs c) \<or> cl \<in> dom (new_coins E txs)"
    using cl map_le_implies_dom_le [OF assms] by auto
  then show "h \<in> known_hashes c \<union> Transaction_Hash E ` set txs"
    using h new_coins_hash [of cl E txs] by (auto simp: known_hashes_def)
qed

lemma inputs_of_subset:
  "inputs_of txs \<subseteq> D \<longleftrightarrow> (\<forall>tx \<in> set txs. \<forall>txi \<in> set (Inputs tx). makeCoinLocator txi \<in> D)"
  by (auto simp: inputs_of_def)

lemma ValidateBlock_eq:
  "coindb_wf E c \<Longrightarrow> ValidateBlock E c txs = Some (inputs_of txs \<subseteq> dom (utxo E c))"
  using ValidateBlock_iff [of E c txs] unfolding inputs_of_subset by auto

interpretation coin_db: coin_store E "coindb_ok E" "utxo E" known_hashes "ValidateBlock E"
  "CoinDatabase_StoreBlock E"
proof
  fix s :: "'a CoinDatabase" and txs
  assume ok: "coindb_ok E s"
  then show "ValidateBlock E s txs = Some (inputs_of txs \<subseteq> dom (utxo E s))"
    by (intro ValidateBlock_eq) (simp add: coindb_ok_def)
  assume "new_block E (known_hashes s) txs" and "inputs_of txs \<subseteq> dom (utxo E s)"
  then show "\<exists>s'. CoinDatabase_StoreBlock E s txs = Some s' \<and> coindb_ok E s' \<and>
      utxo E s' = apply_block E (utxo E s) txs \<and>
      known_hashes s' \<subseteq> known_hashes s \<union> Transaction_Hash E ` set txs"
    using StoreBlock_refines [OF ok] known_hashes_step by metis
qed

lemma coindb_ok_record:
  assumes "coindb_ok E c" and "utxo E c cl = Some txo"
  shows "db_coins E c cl = Some txo"
proof (cases "map_of (mainCache c) cl")
  case None
  then show ?thesis using assms(2) by (simp add: utxo_def)
next
  case (Some coin)
  then have "\<not> IsSpent coin" "c_TransactionOutput coin = txo"
    using assms(2) by (auto simp: utxo_def unspent_def split: if_splits)
  then show ?thesis using Some assms(1) cached_at_Some [OF Some, of E] by (auto simp: coindb_ok_def)
qed

section \<open>A new node\<close>

lemma coindb_wf_New:
  assumes "leveldb_laws E" and "proto_laws E"
  shows "coindb_wf E (CoinDatabase_New (leveldb_empty E) config)"
  using assms by (auto simp: coindb_wf_def CoinDatabase_New_def record_at_def getCoinRecordFromDB_def
      leveldb_simps intro: exI [of _ None])

lemma coindb_ok_New:
  assumes "leveldb_laws E" and "proto_laws E"
  shows "coindb_ok E (CoinDatabase_New (leveldb_empty E) config)"
    "utxo E (CoinDatabase_New (leveldb_empty E) config) = Map.empty"
    "known_hashes (CoinDatabase_New (leveldb_empty E) config) = {}"
proof -
  let ?c = "CoinDatabase_New (leveldb_empty E) config"
  have "db_coins E ?c = Map.empty"
    using assms by (simp add: fun_eq_iff db_coins_def CoinDatabase_New_def getCoinRecordFromDB_def leveldb_simps)
  moreover have "mainCache ?c = []" by (simp add: CoinDatabase_New_def)
  ultimately show "coindb_ok E ?c" "utxo E ?c = Map.empty" "known_hashes ?c = {}"
    using coindb_wf_New [OF assms]
    by (simp_all add: coindb_ok_def cached_at_def utxo_def fun_eq_iff known_hashes_def cached_outputs_def dom_def)
qed

text \<open>
  C2: A coin database that starts empty and handles the blocks of a chain one after the other
  accepts the chain exactly when every block spends only coins that exist at that point, and
  its coins are then those of the abstract ledger, in which a block removes its inputs and
  adds its outputs. The cache, its flushes and the levelDB records are invisible. The
  hypotheses are the laws of the libraries, that transaction hashes do not collide, and that a
  transaction has fewer than \<open>2^32\<close> outputs.
\<close>

theorem coin_chain_refines_ledger:
  assumes "leveldb_laws E" and "proto_laws E" and "distinct (tx_hashes E bs)"
    and "\<And>tx. tx \<in> set (concat bs) \<Longrightarrow> length (Outputs tx) < 2 ^ 32"
  shows "if valid_chain E Map.empty bs
    then \<exists>c. accept_chain (ValidateBlock E) (CoinDatabase_StoreBlock E)
        (CoinDatabase_New (leveldb_empty E) config) bs = Some c \<and>
      utxo E c = foldl (apply_block E) Map.empty bs
    else accept_chain (ValidateBlock E) (CoinDatabase_StoreBlock E)
        (CoinDatabase_New (leveldb_empty E) config) bs = None"
  using coin_db.accept_chain_refines [OF coindb_ok_New(1) [OF assms(1,2), of config] assms(3) _ assms(4)]
    coindb_ok_New(2,3) [OF assms(1,2), of config]
  by (auto split: if_splits)

text \<open>
  \<open>ValidateBlock\<close> returns true exactly when every input of every transaction names an
  unspent coin. It does not look for an input that occurs twice, so a block that spends the
  same coin in two transactions is valid when it is valid without the second one.
\<close>

theorem ValidateBlock_sound_complete:
  assumes "coindb_wf E c"
  shows "ValidateBlock E c txs = Some (inputs_of txs \<subseteq> dom (utxo E c)) \<and>
    (ValidateBlock E c (txs @ txs) = ValidateBlock E c txs)"
  unfolding ValidateBlock_eq [OF assms] by (auto simp: inputs_of_def)

text \<open>
  C22: Flushing the cache never panics on a well-formed database, removes every spent coin from
  the cache and from its record, and changes no unspent coin.
\<close>

theorem flush_keeps_coins:
  assumes "coindb_wf E c"
  shows "\<exists>c'. FlushMainCache E c = Some c' \<and> coindb_wf E c' \<and> utxo E c' = utxo E c \<and>
    (\<forall>(cl, coin) \<in> set (mainCache c'). \<not> IsSpent coin) \<and>
    (\<forall>cl \<in> spent_keys (mainCache c). db_coins E c' cl = None)"
proof -
  obtain c' where c': "FlushMainCache E c = Some c'" "coindb_wf E c'"
    "mainCache c' = filter (\<lambda>e. \<not> IsSpent (snd e)) (mainCache c)"
    "db_coins E c' = (\<lambda>cl. if cl \<in> spent_keys (mainCache c) then None else db_coins E c cl)"
    using FlushMainCache_ok [OF assms] by blast
  then show ?thesis using FlushMainCache_utxo [OF assms c'(1)] by auto
qed

text \<open>The order in which Go iterates over the cache does not matter.\<close>

lemma flush_order_irrelevant:
  assumes "coindb_wf E c" and "mset cache = mset (mainCache c)"
    and "FlushMainCache E c = Some c1" and "FlushMainCache E (c\<lparr>mainCache := cache\<rparr>) = Some c2"
  shows "db_coins E c2 = db_coins E c1 \<and> mset (mainCache c2) = mset (mainCache c1)"
proof -
  have "distinct (map fst cache)"
    using coindb_wf_distinct [OF assms(1)] assms(2)
    by (metis mset_map distinct_count_atmost_1 set_mset_mset mset_eq_setD mset_eq_imp_distinct_iff)
  then have "coindb_wf E (c\<lparr>mainCache := cache\<rparr>)" by (intro coindb_wf_cong [OF _ assms(1)]) simp_all
  from FlushMainCache_ok [OF this] FlushMainCache_ok [OF assms(1)] assms(3,4)
  have "mainCache c2 = filter (\<lambda>e. \<not> IsSpent (snd e)) cache"
    "mainCache c1 = filter (\<lambda>e. \<not> IsSpent (snd e)) (mainCache c)"
    "db_coins E c2 = (\<lambda>cl. if cl \<in> spent_keys cache then None else db_coins E (c\<lparr>mainCache := cache\<rparr>) cl)"
    "db_coins E c1 = (\<lambda>cl. if cl \<in> spent_keys (mainCache c) then None else db_coins E c cl)" by auto
  moreover have "db_coins E (c\<lparr>mainCache := cache\<rparr>) = db_coins E c" by (rule db_coins_cong) simp
  moreover have "spent_keys cache = spent_keys (mainCache c)"
    using mset_eq_setD [OF assms(2)] by (simp add: spent_keys_def)
  ultimately show ?thesis using assms(2) by (simp add: fun_eq_iff)
qed

text \<open>
  C29: A coin that is not cached stays spendable after it was spent: when the inputs of a block
  are only in the levelDB, as they are after a restart, \<open>StoreBlock\<close> adds the outputs and
  removes nothing, because \<open>updateSpentCoins\<close> looks up the record of the spending transaction.
\<close>

theorem uncached_inputs_stay_spendable:
  assumes "coindb_wf E c" and "new_block E (known_hashes c) txs"
    and "\<And>cl. cl \<in> inputs_of txs \<Longrightarrow> map_of (mainCache c) cl = None"
    and "\<And>tx. tx \<in> set txs \<Longrightarrow> getCoinRecordFromDB E c (Transaction_Hash E tx) = Some None"
  shows "\<exists>c'. CoinDatabase_StoreBlock E c txs = Some c' \<and> coindb_wf E c' \<and>
    utxo E c' = utxo E c ++ new_coins E txs"
  using assms by (rule StoreBlock_uncached)

end
