(* ===== verification/Coin_Undo.thy ===== *)
theory Coin_Undo
  imports Coin_Store
begin

text \<open>
  Reverting blocks in \<open>src/pkg/blockchain/coindatabase\<close>: \<open>UndoCoins\<close> erases what a block
  created and makes its inputs usable again. The theory shows when this restores the coins
  exactly, and what goes wrong when a coin record was used up in between.
\<close>

section \<open>Erasing what a block created\<close>

definition erase_output :: "('db, 'z) ext_scheme \<Rightarrow> Transaction \<Rightarrow> 'db CoinDatabase \<Rightarrow> nat \<Rightarrow> 'db CoinDatabase" where
  "erase_output E tx c j =
     c\<lparr>mainCache := AList.delete (locator (Transaction_Hash E tx) (word_of_nat j)) (mainCache c),
       mainCacheSize := mainCacheSize c - 1\<rparr>"

lemma erase_transaction_alt:
  "erase_transaction E c tx =
     deleteRecord E (foldl (erase_output E tx) c [0..<length (Outputs tx)]) (Transaction_Hash E tx)"
  by (simp add: erase_transaction_def erase_output_def [abs_def] locator_fold Let_def)

lemma erase_outputs:
  assumes "coindb_wf E c" and "n \<le> 2 ^ 32"
  shows "coindb_wf E (foldl (erase_output E tx) c [0..<n]) \<and>
    cdb (foldl (erase_output E tx) c [0..<n]) = cdb c \<and>
    (\<forall>cl. map_of (mainCache (foldl (erase_output E tx) c [0..<n])) cl =
      (if cl_ReferenceTransactionHash cl = Transaction_Hash E tx \<and> unat (cl_OutputIndex cl) < n then None
       else map_of (mainCache c) cl))"
  using assms(2)
proof (induction n)
  case (Suc n)
  then have "unat (word_of_nat n :: u32) = n" by (intro u32_of_nat_less) simp
  then have "cl_OutputIndex cl = word_of_nat n \<longleftrightarrow> unat (cl_OutputIndex cl) = n" for cl
    by (auto simp: word_unat_eq_iff)
  then show ?case
    using Suc coindb_wf_update(3)
    by (auto simp: erase_output_def delete_conv' less_Suc_eq)
qed (use assms(1) in simp)

lemma erase_transaction_ok:
  assumes "coindb_wf E c" and "length (Outputs tx) < 2 ^ 32"
  shows "coindb_wf E (erase_transaction E c tx)"
    "map_of (mainCache (erase_transaction E c tx)) cl =
      (if outputs_of E tx cl \<noteq> None then None else map_of (mainCache c) cl)"
    "db_coins E (erase_transaction E c tx) cl =
      (if cl_ReferenceTransactionHash cl = Transaction_Hash E tx then None else db_coins E c cl)"
    "h \<noteq> Transaction_Hash E tx \<Longrightarrow>
      getCoinRecordFromDB E (erase_transaction E c tx) h = getCoinRecordFromDB E c h"
proof -
  let ?c = "foldl (erase_output E tx) c [0..<length (Outputs tx)]"
  have wf: "coindb_wf E ?c" and cdb: "cdb ?c = cdb c" and cache: "map_of (mainCache ?c) cl =
      (if cl_ReferenceTransactionHash cl = Transaction_Hash E tx \<and> unat (cl_OutputIndex cl) < length (Outputs tx)
       then None else map_of (mainCache c) cl)"
    using erase_outputs [OF assms(1), of "length (Outputs tx)" tx] assms(2) by auto
  show "coindb_wf E (erase_transaction E c tx)"
    using deleteRecord_ok(1) [OF wf] by (simp add: erase_transaction_alt)
  show "map_of (mainCache (erase_transaction E c tx)) cl =
      (if outputs_of E tx cl \<noteq> None then None else map_of (mainCache c) cl)"
    using cache deleteRecord_ok(2) [OF wf] by (simp add: erase_transaction_alt outputs_of_def)
  show "db_coins E (erase_transaction E c tx) cl =
      (if cl_ReferenceTransactionHash cl = Transaction_Hash E tx then None else db_coins E c cl)"
    using deleteRecord_ok(5) [OF wf] db_coins_cong [OF cdb, of E] by (simp add: erase_transaction_alt)
  show "getCoinRecordFromDB E (erase_transaction E c tx) h = getCoinRecordFromDB E c h"
    if "h \<noteq> Transaction_Hash E tx"
    using that cdb wf
    by (simp add: erase_transaction_alt deleteRecord_def getCoinRecordFromDB_def coindb_wf_def leveldb_simps)
qed

lemma erase_block_ok:
  assumes "coindb_wf E c" and "\<And>tx. tx \<in> set txs \<Longrightarrow> length (Outputs tx) < 2 ^ 32"
  shows "coindb_wf E (foldl (erase_transaction E) c txs) \<and>
    (\<forall>cl. map_of (mainCache (foldl (erase_transaction E) c txs)) cl =
      (if \<exists>tx \<in> set txs. outputs_of E tx cl \<noteq> None then None else map_of (mainCache c) cl)) \<and>
    (\<forall>cl. db_coins E (foldl (erase_transaction E) c txs) cl =
      (if cl_ReferenceTransactionHash cl \<in> Transaction_Hash E ` set txs then None else db_coins E c cl)) \<and>
    (\<forall>h. h \<notin> Transaction_Hash E ` set txs \<longrightarrow>
      getCoinRecordFromDB E (foldl (erase_transaction E) c txs) h = getCoinRecordFromDB E c h)"
  using assms(2)
proof (induction txs rule: rev_induct)
  case (snoc tx txs)
  let ?c = "foldl (erase_transaction E) c txs"
  have "coindb_wf E ?c" "length (Outputs tx) < 2 ^ 32" using snoc by auto
  note e = erase_transaction_ok [OF this]
  show ?case using snoc e by (simp add: erase_transaction_ok)
qed (use assms(1) in simp)

section \<open>Making the inputs usable again\<close>

definition undo_loc :: "UndoBlock \<Rightarrow> nat \<Rightarrow> CoinLocator" where
  "undo_loc ub j = locator (TransactionInputHashes ub ! j) (OutputIndexes ub ! j)"

definition undo_txo :: "UndoBlock \<Rightarrow> nat \<Rightarrow> TransactionOutput" where
  "undo_txo ub j = mk_txo (Amounts ub ! j) (LockingScripts ub ! j)"

text \<open>The undo block lists exactly the spent inputs, with their outputs in \<open>U\<close>.\<close>

definition undo_for :: "UndoBlock \<Rightarrow> (CoinLocator \<rightharpoonup> TransactionOutput) \<Rightarrow> CoinLocator set \<Rightarrow> bool" where
  "undo_for ub U D \<longleftrightarrow> wf_UndoBlock ub \<and>
     undo_loc ub ` {0..<length (TransactionInputHashes ub)} = D \<and>
     (\<forall>j < length (TransactionInputHashes ub). U (undo_loc ub j) = Some (undo_txo ub j))"

text \<open>
  While inputs are restored a record may hold an index twice, so only the lengths of a record's
  slices are kept. \<open>U\<close> are the coins to restore.
\<close>

definition agrees :: "('db, 'z) ext_scheme \<Rightarrow> (CoinLocator \<rightharpoonup> TransactionOutput) \<Rightarrow> 'db CoinDatabase \<Rightarrow> bool" where
  "agrees E U c \<longleftrightarrow> (\<forall>cl txo. U cl = Some txo \<longrightarrow>
     (\<forall>t. cached_outputs c cl = Some t \<longrightarrow> t = txo) \<and> (\<forall>t. db_coins E c cl = Some t \<longrightarrow> t = txo))"

definition restoring ::
  "('db, 'z) ext_scheme \<Rightarrow> UndoBlock \<Rightarrow> (CoinLocator \<rightharpoonup> TransactionOutput) \<Rightarrow> 'db CoinDatabase \<Rightarrow>
   (CoinLocator \<rightharpoonup> TransactionOutput) \<Rightarrow> bool" where
  "restoring E ub U c V \<longleftrightarrow> leveldb_laws E \<and> proto_laws E \<and>
     (\<forall>h. \<exists>r. getCoinRecordFromDB E c h = Some r \<and> (case r of None \<Rightarrow> True | Some cr \<Rightarrow> wf_lengths cr)) \<and>
     (\<forall>h \<in> set (TransactionInputHashes ub). getCoinRecordFromDB E c h \<noteq> Some None) \<and>
     agrees E U c \<and> utxo E c = V"

lemma addCoinToRecord_ok:
  assumes "wf_UndoBlock ub" and "j < length (TransactionInputHashes ub)" and "wf_lengths cr"
  shows "\<exists>cr'. addCoinToRecord cr ub j = Some cr' \<and> wf_lengths cr' \<and>
    record_coins cr' = [OutputIndexes ub ! j \<mapsto> undo_txo ub j] ++ record_coins cr"
  using assms by (auto simp: addCoinToRecord_def wf_UndoBlock_def wf_lengths_def slice_get_def
      record_coins_def record_entries_def undo_txo_def)

definition mark_unspent :: "CoinLocator \<Rightarrow> 'db CoinDatabase \<Rightarrow> 'db CoinDatabase" where
  "mark_unspent cl c =
     (case map_of (mainCache c) cl of
        Some coin \<Rightarrow> c\<lparr>mainCache := AList.update cl (coin\<lparr>IsSpent := False\<rparr>) (mainCache c)\<rparr>
      | None \<Rightarrow> c)"

lemma mark_unspent_simps [simp]:
  "cdb (mark_unspent cl c) = cdb c"
  "map_of (mainCache (mark_unspent cl c)) cl' =
     (if cl' = cl then map_option (\<lambda>coin. coin\<lparr>IsSpent := False\<rparr>) (map_of (mainCache c) cl)
      else map_of (mainCache c) cl')"
  by (auto simp: mark_unspent_def update_conv' split: option.splits)

lemma restore_input_alt:
  assumes "wf_UndoBlock ub" and j: "j < length (TransactionInputHashes ub)"
    and "getCoinRecordFromDB E c (TransactionInputHashes ub ! j) = Some (Some cr)"
    and "addCoinToRecord cr ub j = Some cr'"
  shows "restore_input E ub c j =
    putRecordInDB E (mark_unspent (undo_loc ub j) c) (TransactionInputHashes ub ! j) cr'"
proof -
  have "getCoinRecordFromDB E (mark_unspent (undo_loc ub j) c) = getCoinRecordFromDB E c"
    by (rule getCoinRecord_cong) simp
  then show ?thesis
    using assms by (simp add: restore_input_def slice_get_def wf_UndoBlock_def undo_loc_def
        mark_unspent_def [symmetric] locator_fold Let_def)
qed

lemma restore_input_ok:
  assumes wf: "wf_UndoBlock ub" and j: "j < length (TransactionInputHashes ub)"
    and U: "U (undo_loc ub j) = Some (undo_txo ub j)" and r: "restoring E ub U c V"
  shows "\<exists>c'. restore_input E ub c j = Some c' \<and> restoring E ub U c' (V(undo_loc ub j \<mapsto> undo_txo ub j))"
proof -
  let ?h = "TransactionInputHashes ub ! j" and ?cl = "undo_loc ub j" and ?txo = "undo_txo ub j"
  let ?c1 = "mark_unspent ?cl c"
  have laws: "leveldb_laws E" "proto_laws E" and agr: "agrees E U c" and V: "utxo E c = V"
    and recs: "\<And>h. \<exists>r. getCoinRecordFromDB E c h = Some r \<and> (case r of None \<Rightarrow> True | Some cr \<Rightarrow> wf_lengths cr)"
    and some: "\<And>h. h \<in> set (TransactionInputHashes ub) \<Longrightarrow> getCoinRecordFromDB E c h \<noteq> Some None"
    using r by (auto simp: restoring_def)
  obtain cr where cr: "getCoinRecordFromDB E c ?h = Some (Some cr)" "wf_lengths cr"
    using recs [of ?h] some [of ?h] j by (auto split: option.splits)
  obtain cr' where cr': "addCoinToRecord cr ub j = Some cr'" "wf_lengths cr'"
    "record_coins cr' = [OutputIndexes ub ! j \<mapsto> ?txo] ++ record_coins cr"
    using addCoinToRecord_ok [OF wf j cr(2)] by blast
  have g1: "getCoinRecordFromDB E ?c1 = getCoinRecordFromDB E c" by (rule getCoinRecord_cong) simp
  obtain c2 where c2: "putRecordInDB E ?c1 ?h cr' = Some c2" "mainCache c2 = mainCache ?c1"
    and g2: "\<And>h'. getCoinRecordFromDB E c2 h' = (if h' = ?h then Some (Some cr') else getCoinRecordFromDB E c h')"
    using getCoinRecord_put [OF laws cr'(2), of ?c1 ?h] g1 by auto
  have outs: "cached_outputs c2 = cached_outputs c"
    using c2(2) by (auto simp: cached_outputs_def fun_eq_iff option.map_comp comp_def)
  have db: "db_coins E c2 cl = (case db_coins E c cl of Some t \<Rightarrow> Some t
      | None \<Rightarrow> if cl = ?cl then Some ?txo else None)" for cl
    using g2 cr(1) cr'(3) by (auto simp: db_coins_def map_add_def undo_loc_def split: option.splits)
  have "agrees E U c2"
    using agr U outs db by (auto simp: agrees_def split: option.splits if_splits)
  moreover have "utxo E c2 cl = (V(?cl \<mapsto> ?txo)) cl" for cl
  proof (cases "cl = ?cl")
    case True
    show ?thesis
    proof (cases "map_of (mainCache c) ?cl")
      case None
      then show ?thesis using True c2(2) db [of ?cl] agr U
        by (auto simp: utxo_def agrees_def split: option.splits)
    next
      case (Some coin)
      then have "c_TransactionOutput coin = ?txo" using agr U by (simp add: agrees_def cached_outputs_def)
      then show ?thesis using True Some c2(2) by (simp add: utxo_def unspent_def)
    qed
  next
    case False
    then show ?thesis using V c2(2) db [of cl] by (auto simp: utxo_def split: option.splits)
  qed
  then have "utxo E c2 = V(?cl \<mapsto> ?txo)" ..
  moreover have "restore_input E ub c j = Some c2"
    using restore_input_alt [OF wf j cr(1) cr'(1)] c2(1) by simp
  ultimately show ?thesis
    using laws recs some g2 cr'(2) by (simp add: restoring_def)
qed

lemma foldl_upd_all:
  "foldl (\<lambda>V j. V(l j \<mapsto> x j)) V js cl =
     (if cl \<in> l ` set js then Some (x (last (filter (\<lambda>j. l j = cl) js))) else V cl)"
  by (induction js rule: rev_induct) auto

lemma restore_inputs_ok:
  assumes u: "undo_for ub U D" and r: "restoring E ub U c V"
  shows "\<exists>c'. fold_opt (restore_input E ub) c [0..<length (TransactionInputHashes ub)] = Some c' \<and>
    utxo E c' = (\<lambda>cl. if cl \<in> D then U cl else V cl)"
proof -
  let ?n = "length (TransactionInputHashes ub)"
  let ?g = "\<lambda>V j. V(undo_loc ub j \<mapsto> undo_txo ub j)"
  have "\<exists>c'. fold_opt (restore_input E ub) c [0..<?n] = Some c' \<and> restoring E ub U c' (foldl ?g V [0..<?n])"
    using u by (intro fold_opt_refine [where R = "restoring E ub U", OF r] restore_input_ok)
      (auto simp: undo_for_def)
  then obtain c' where c': "fold_opt (restore_input E ub) c [0..<?n] = Some c'" "utxo E c' = foldl ?g V [0..<?n]"
    by (auto simp: restoring_def)
  have "foldl ?g V [0..<?n] cl = (if cl \<in> D then U cl else V cl)" for cl
  proof (cases "cl \<in> D")
    case True
    let ?js = "filter (\<lambda>j. undo_loc ub j = cl) [0..<?n]"
    from True u obtain j where "j < ?n" "undo_loc ub j = cl" by (auto simp: undo_for_def)
    then have "?js \<noteq> []" by (auto simp: filter_empty_conv)
    then have "last ?js \<in> set ?js" by (rule last_in_set)
    then have "U cl = Some (undo_txo ub (last ?js))" using u by (auto simp: undo_for_def)
    then show ?thesis using True u by (simp add: foldl_upd_all undo_for_def)
  next
    case False
    then show ?thesis using u by (simp add: foldl_upd_all undo_for_def)
  qed
  with c' show ?thesis by auto
qed

section \<open>Undo restores the coins\<close>

lemma new_coins_Some:
  "new_coins E txs cl \<noteq> None \<Longrightarrow> \<exists>tx \<in> set txs. outputs_of E tx cl \<noteq> None"
  by (induction txs rule: rev_induct) (auto simp: new_coins_def map_add_def split: option.splits)

lemma outputs_of_hash: "outputs_of E tx cl \<noteq> None \<Longrightarrow> cl_ReferenceTransactionHash cl = Transaction_Hash E tx"
  by (auto simp: outputs_of_def split: if_splits)

lemma StoreBlock_frame:
  assumes ok: "coindb_ok E c" and new: "new_block E (known_hashes c) txs"
    and inp: "inputs_of txs \<subseteq> dom (utxo E c)" and st: "CoinDatabase_StoreBlock E c txs = Some c'"
    and h: "cl_ReferenceTransactionHash cl \<notin> Transaction_Hash E ` set txs" and U: "utxo E c cl = Some txo"
  shows "cached_outputs c' cl = Some t \<Longrightarrow> t = txo" "db_coins E c' cl = Some t \<Longrightarrow> t = txo"
proof -
  have ok': "coindb_ok E c'" and le: "cached_outputs c' \<subseteq>\<^sub>m cached_outputs c ++ new_coins E txs"
    using StoreBlock_refines [OF ok new inp] st by auto
  have ca: "cached_at E c cl" "cached_at E c' cl" using ok ok' by (auto simp: coindb_ok_def)
  have "cached_outputs c cl = Some txo"
    using U ca(1) by (auto simp: utxo_def cached_outputs_def cached_at_None unspent_def
        split: option.splits if_splits)
  then have "(cached_outputs c ++ new_coins E txs) cl = Some txo"
    using new_coins_hash [OF h] by (simp add: map_add_def)
  then show c: "cached_outputs c' cl = Some t \<Longrightarrow> t = txo" for t
    using le by (force simp: map_le_def dom_def)
  show "db_coins E c' cl = Some t \<Longrightarrow> t = txo"
    using ca(2) c by (auto simp: cached_at_def cached_outputs_def)
qed

text \<open>Erasing the transactions of the block that was stored last leaves the old coins less the inputs.\<close>

lemma erase_after_store:
  assumes ok: "coindb_ok E c" and new: "new_block E (known_hashes c) txs"
    and inp: "inputs_of txs \<subseteq> dom (utxo E c)" and st: "CoinDatabase_StoreBlock E c txs = Some c'"
  defines "ce \<equiv> foldl (erase_transaction E) c' txs"
  shows "coindb_wf E ce" "utxo E ce = utxo E c |` (- inputs_of txs)" "agrees E (utxo E c) ce"
    "h \<notin> Transaction_Hash E ` set txs \<Longrightarrow> getCoinRecordFromDB E ce h = getCoinRecordFromDB E c' h"
proof -
  let ?H = "Transaction_Hash E ` set txs"
  have ok': "coindb_ok E c'" and u': "utxo E c' = apply_block E (utxo E c) txs"
    and le: "cached_outputs c' \<subseteq>\<^sub>m cached_outputs c ++ new_coins E txs"
    using StoreBlock_refines [OF ok new inp] st by auto
  have H: "cached_outputs c cl = None \<and> utxo E c cl = None" if "cl_ReferenceTransactionHash cl \<in> ?H" for cl
    using new_block_hashes [OF new _ that] ok by (simp add: coindb_ok_def cached_outputs_def)
  have e: "coindb_wf E ce" "\<And>cl. map_of (mainCache ce) cl =
      (if \<exists>tx \<in> set txs. outputs_of E tx cl \<noteq> None then None else map_of (mainCache c') cl)"
    "\<And>cl. db_coins E ce cl = (if cl_ReferenceTransactionHash cl \<in> ?H then None else db_coins E c' cl)"
    "\<And>h. h \<notin> ?H \<Longrightarrow> getCoinRecordFromDB E ce h = getCoinRecordFromDB E c' h"
    using erase_block_ok [of E c' txs] ok' new by (auto simp: new_block_def coindb_ok_def ce_def)
  show "coindb_wf E ce" "h \<notin> ?H \<Longrightarrow> getCoinRecordFromDB E ce h = getCoinRecordFromDB E c' h"
    using e(1,4) by auto
  have gone: "map_of (mainCache ce) cl = None" if "cl_ReferenceTransactionHash cl \<in> ?H" for cl
  proof (cases "map_of (mainCache c') cl")
    case (Some coin)
    then have "new_coins E txs cl \<noteq> None"
      using le H [OF that] by (force simp: map_le_def dom_def cached_outputs_def map_add_def split: option.splits)
    then show ?thesis using e(2) new_coins_Some [of E txs cl] by simp
  qed (use e(2) in simp)
  have keep: "map_of (mainCache ce) cl = map_of (mainCache c') cl" "db_coins E ce cl = db_coins E c' cl"
    if "cl_ReferenceTransactionHash cl \<notin> ?H" for cl
  proof -
    have "\<not> (\<exists>tx \<in> set txs. outputs_of E tx cl \<noteq> None)" using that outputs_of_hash by fast
    then show "map_of (mainCache ce) cl = map_of (mainCache c') cl" unfolding e(2) by (rule if_not_P)
  qed (use that e(3) in simp)
  have "utxo E ce cl = (utxo E c |` (- inputs_of txs)) cl" for cl
  proof (cases "cl_ReferenceTransactionHash cl \<in> ?H")
    case True
    then show ?thesis using gone e(3) H by (simp add: utxo_def restrict_map_def)
  next
    case False
    then have "utxo E ce cl = utxo E c' cl" using keep [OF False] by (simp add: utxo_def split: option.split)
    then show ?thesis using u' new_coins_hash [OF False] by (simp add: apply_block_def map_add_def)
  qed
  then show "utxo E ce = utxo E c |` (- inputs_of txs)" ..
  have "(\<forall>t. cached_outputs ce cl = Some t \<longrightarrow> t = txo) \<and> (\<forall>t. db_coins E ce cl = Some t \<longrightarrow> t = txo)"
    if U: "utxo E c cl = Some txo" for cl txo
  proof -
    have h: "cl_ReferenceTransactionHash cl \<notin> ?H" using U H by force
    show ?thesis using StoreBlock_frame [OF ok new inp st h U] keep [OF h] by (simp add: cached_outputs_def)
  qed
  then show "agrees E (utxo E c) ce" by (simp add: agrees_def)
qed

text \<open>
  C7: Reverting the block that was stored last restores the coins exactly: the outputs of the
  block disappear and its inputs are spendable again with their amounts and scripts, provided
  that no record of a spent coin was deleted in between (that is, some other output of the same
  transaction is still unspent, or the spent coin was not flushed yet).
\<close>

theorem undo_restores_coins:
  assumes ok: "coindb_ok E c" and new: "new_block E (known_hashes c) (Transactions b)"
    and inp: "inputs_of (Transactions b) \<subseteq> dom (utxo E c)"
    and st: "CoinDatabase_StoreBlock E c (Transactions b) = Some c'"
    and ub: "undo_for ub (utxo E c) (inputs_of (Transactions b))"
    and rec: "\<And>h. h \<in> set (TransactionInputHashes ub) \<Longrightarrow> getCoinRecordFromDB E c' h \<noteq> Some None"
  shows "\<exists>c''. UndoCoins E c' [b] [ub] = Some c'' \<and> utxo E c'' = utxo E c"
proof -
  let ?txs = "Transactions b" and ?H = "Transaction_Hash E ` set (Transactions b)"
  let ?ce = "foldl (erase_transaction E) c' (Transactions b)"
  note e = erase_after_store [OF ok new inp st]
  have hs: "h \<notin> ?H" if "h \<in> set (TransactionInputHashes ub)" for h
  proof
    assume "h \<in> ?H"
    from that obtain j where "j < length (TransactionInputHashes ub)" "h = TransactionInputHashes ub ! j"
      by (auto simp: in_set_conv_nth)
    then have "utxo E c (undo_loc ub j) \<noteq> None" "cl_ReferenceTransactionHash (undo_loc ub j) = h"
      using ub by (auto simp: undo_for_def undo_loc_def)
    then show False
      using new_block_hashes(3) [OF new, of "undo_loc ub j"] ok \<open>h \<in> ?H\<close> by (simp add: coindb_ok_def)
  qed
  have "\<exists>r. getCoinRecordFromDB E ?ce h = Some r \<and> (case r of None \<Rightarrow> True | Some cr \<Rightarrow> wf_lengths cr)" for h
    using e(1) by (cases rule: coindb_wfE [where h = h]) (auto simp: wf_CoinRecord_def)
  then have "restoring E ub (utxo E c) ?ce (utxo E ?ce)"
    using e(1,3) e(4) [OF hs] rec by (simp add: restoring_def coindb_wf_def)
  from restore_inputs_ok [OF ub this] obtain c'' where
    "undo_one E c' b ub = Some c''" "utxo E c'' = (\<lambda>cl. if cl \<in> inputs_of ?txs then utxo E c cl else utxo E ?ce cl)"
    by (auto simp: undo_one_def)
  moreover have "UndoCoins E c' [b] [ub] = undo_one E c' b ub"
    by (simp add: UndoCoins_def slice_get_def split: option.split)
  ultimately show ?thesis using e(2) by (auto simp: fun_eq_iff restrict_map_def)
qed

text \<open>
  When the record of a spent coin is gone, \<open>UndoCoins\<close> writes a record with all entries of
  the undo block under its hash: every output index of every input of the reverted block
  becomes spendable for that hash, whether or not the transaction has such an output.
\<close>

theorem undo_forges_coins:
  assumes "leveldb_laws E" and "proto_laws E" and wf: "wf_UndoBlock ub"
    and j: "j < length (TransactionInputHashes ub)" and k: "k < length (TransactionInputHashes ub)"
    and none: "getCoinRecordFromDB E c (TransactionInputHashes ub ! j) = Some None"
    and unc: "\<And>i. map_of (mainCache c) (locator (TransactionInputHashes ub ! j) i) = None"
  shows "\<exists>c'. restore_input E ub c j = Some c' \<and>
    locator (TransactionInputHashes ub ! j) (OutputIndexes ub ! k) \<in> dom (utxo E c')"
proof -
  let ?h = "TransactionInputHashes ub ! j"
  let ?cr = "\<lparr>cr_Version = 0, cr_OutputIndexes = OutputIndexes ub, cr_Amounts = Amounts ub,
    cr_LockingScripts = LockingScripts ub\<rparr>"
  have len: "wf_lengths ?cr" using wf by (simp add: wf_lengths_def wf_UndoBlock_def)
  have idx: "OutputIndexes ub ! k \<in> set (OutputIndexes ub)" using wf k by (simp add: wf_UndoBlock_def)
  obtain c' where c': "putRecordInDB E c ?h ?cr = Some c'" "mainCache c' = mainCache c"
    "getCoinRecordFromDB E c' ?h = Some (Some ?cr)"
    using getCoinRecord_put [OF assms(1,2) len, of c ?h] by auto
  have "restore_input E ub c j = Some c'"
    using wf j none unc [of "OutputIndexes ub ! j"] c'(1)
    by (simp add: restore_input_def slice_get_def wf_UndoBlock_def locator_fold Let_def)
  moreover have "record_coins ?cr (OutputIndexes ub ! k) \<noteq> None"
    using record_coins_None_iff [OF len] idx by simp
  ultimately show ?thesis
    using c' unc [of "OutputIndexes ub ! k"] by (auto simp: utxo_def db_coins_def)
qed

end
