(* ===== verification/Coin_Balance.thy ===== *)
theory Coin_Balance
  imports Coin_Undo
begin

text \<open>
  \<open>GetBalance\<close> of the coin database, and the instances that show that the hypotheses of the
  properties of \<open>src/pkg/blockchain/coindatabase\<close> can be met: a coinbase with two outputs and
  a transaction that spends the first one, on the reference libraries of \<open>Ext_Instance\<close>.
\<close>

section \<open>Summing records\<close>

lemma add_balances:
  assumes "length amounts = length scripts" and "n + length scripts \<le> length (cr_Amounts cr)"
    and "\<And>i. i < length amounts \<Longrightarrow> cr_Amounts cr ! (n + i) = amounts ! i"
  shows "fold_opt (add_balance pk cr) bal (List.enumerate n scripts) =
    Some (bal + sum_list (map fst (filter (\<lambda>e. snd e = pk) (zip amounts scripts))))"
  using assms
proof (induction amounts scripts arbitrary: n bal rule: list_induct2)
  case (Cons a as s ss)
  have a: "slice_get (cr_Amounts cr) n = Some a"
    using Cons.prems(1) Cons.prems(2) [of 0] by simp
  have "fold_opt (add_balance pk cr) bal' (List.enumerate (Suc n) ss) =
    Some (bal' + sum_list (map fst (filter (\<lambda>e. snd e = pk) (zip as ss))))" for bal'
    using Cons.prems(1) Cons.prems(2) [of "Suc i" for i] by (intro Cons.IH) auto
  moreover have "add_balance pk cr bal (n, s) = Some (if s = pk then bal + a else bal)"
    unfolding add_balance.simps a by simp
  ultimately show ?case by (simp add: add.assoc del: add_balance.simps)
qed simp

definition locked :: "bytes \<Rightarrow> (CoinLocator \<times> TransactionOutput) \<Rightarrow> bool" where
  "locked pk e \<longleftrightarrow> LockingScript (snd e) = pk"

definition entry_coins :: "('db, 'z) ext_scheme \<Rightarrow> bytes \<times> bytes \<Rightarrow> (CoinLocator \<times> TransactionOutput) list" where
  "entry_coins E e =
     (case DecodeCoinRecord (fst (unmarshal_CoinRecord E (snd e))) of
        None \<Rightarrow> []
      | Some cr \<Rightarrow> map (\<lambda>(i, txo). (locator (string_of (fst e)) i, txo)) (record_entries cr))"

lemma record_amounts:
  assumes "wf_lengths cr"
  shows "map (\<lambda>e. Amount (snd e)) (filter (locked pk) (map (\<lambda>(i, txo). (locator h i, txo)) (record_entries cr))) =
    map fst (filter (\<lambda>e. snd e = pk) (zip (cr_Amounts cr) (cr_LockingScripts cr)))"
  using assms
proof -
  have "map (\<lambda>e. Amount (snd e)) (filter (locked pk) (map (\<lambda>(i, txo). (locator h i, txo)) (zip is (map2 mk_txo as ls)))) =
    map fst (filter (\<lambda>e. snd e = pk) (zip as ls))" if "length as = length is" "length ls = length is" for "is" as ls
    using that
  proof (induction "is" arbitrary: as ls)
    case (Cons i "is")
    then show ?case by (cases as; cases ls) (auto simp: locked_def mk_txo_def)
  qed simp
  then show ?thesis using assms by (simp add: record_entries_def wf_lengths_def)
qed

lemma record_balance_ok:
  assumes "DecodeCoinRecord (fst (unmarshal_CoinRecord E (snd e))) = Some cr" and "wf_lengths cr"
  shows "record_balance E pk bal e =
    Some (bal + sum_list (map (\<lambda>e. Amount (snd e)) (filter (locked pk) (entry_coins E e))))"
  using assms add_balances [of "cr_Amounts cr" "cr_LockingScripts cr" 0 cr pk bal]
  by (simp add: record_balance_def entry_coins_def record_amounts wf_lengths_def)

section \<open>The entries of the levelDB are the coins of the records\<close>

lemma bytes_of_string_of [simp]: "bytes_of (string_of bs) = bs"
proof -
  have "of_char (char_of (unat b) :: char) = b" for b :: byte
  proof -
    have "(of_char (char_of (unat b) :: char) :: nat) = unat b"
      using unat_byte_less [of b] by simp
    then have "unat (of_char (char_of (unat b) :: char) :: byte) = unat b" by simp
    then show ?thesis by (simp add: word_unat_eq_iff)
  qed
  then show ?thesis by (simp add: bytes_of_def string_of_def comp_def map_idI)
qed

lemma entry_record:
  assumes wf: "coindb_wf E c" and e: "e \<in> set (leveldb_entries E (cdb c))"
  shows "\<exists>cr. getCoinRecordFromDB E c (string_of (fst e)) = Some (Some cr) \<and> wf_CoinRecord cr \<and>
    DecodeCoinRecord (fst (unmarshal_CoinRecord E (snd e))) = Some cr"
proof -
  have "leveldb_laws E" using wf by (simp add: coindb_wf_def)
  note entries = leveldb_entries_map [OF this, of "cdb c"]
  then have "leveldb_Get E (cdb c) (bytes_of (string_of (fst e))) = Some (snd e)"
    using e by (metis bytes_of_string_of map_of_eq_Some_iff prod.collapse)
  with wf show ?thesis
    by (cases rule: coindb_wfE [where h = "string_of (fst e)"])
      (auto simp: getCoinRecordFromDB_def split: option.splits)
qed

definition all_coins :: "('db, 'z) ext_scheme \<Rightarrow> 'db CoinDatabase \<Rightarrow> (CoinLocator \<times> TransactionOutput) list" where
  "all_coins E c = concat (map (entry_coins E) (leveldb_entries E (cdb c)))"

lemma entry_coins_keys:
  assumes "x \<in> set (entry_coins E e)"
  shows "cl_ReferenceTransactionHash (fst x) = string_of (fst e)"
  using assms by (auto simp: entry_coins_def split: option.splits)

lemma entry_coins_mem:
  assumes wf: "coindb_wf E c" and e: "e \<in> set (leveldb_entries E (cdb c))"
  shows "(cl, txo) \<in> set (entry_coins E e) \<longleftrightarrow>
    cl_ReferenceTransactionHash cl = string_of (fst e) \<and> db_coins E c cl = Some txo"
proof -
  obtain cr where cr: "getCoinRecordFromDB E c (string_of (fst e)) = Some (Some cr)" "wf_CoinRecord cr"
    "DecodeCoinRecord (fst (unmarshal_CoinRecord E (snd e))) = Some cr"
    using entry_record [OF wf e] by blast
  then show ?thesis
    using wf_CoinRecord_distinct [OF cr(2)]
    by (force simp: entry_coins_def db_coins_def record_coins_def)
qed

lemma all_coins_distinct:
  assumes wf: "coindb_wf E c"
  shows "distinct (all_coins E c)"
proof -
  have laws: "leveldb_laws E" using wf by (simp add: coindb_wf_def)
  have single: "distinct (entry_coins E e)" if e: "e \<in> set (leveldb_entries E (cdb c))" for e
  proof -
    obtain cr where cr: "wf_CoinRecord cr" "DecodeCoinRecord (fst (unmarshal_CoinRecord E (snd e))) = Some cr"
      using entry_record [OF wf e] by blast
    have "distinct (record_entries cr)" using wf_CoinRecord_distinct [OF cr(1)] by (simp add: distinct_map)
    then show ?thesis using cr(2) by (auto simp: entry_coins_def distinct_map inj_on_def)
  qed
  have disj: "set (entry_coins E e) \<inter> set (entry_coins E e') = {}" if "fst e \<noteq> fst e'" for e e'
    using that entry_coins_keys [of _ E e] entry_coins_keys [of _ E e'] bytes_of_string_of by (metis disjoint_iff)
  have "distinct (concat (map (entry_coins E) es))"
    if "distinct (map fst es)" "set es \<subseteq> set (leveldb_entries E (cdb c))" for es
    using that
  proof (induction es)
    case (Cons e es)
    have "fst e \<noteq> fst e'" if "e' \<in> set es" for e' using Cons.prems(1) that by force
    then have "\<forall>e' \<in> set es. set (entry_coins E e) \<inter> set (entry_coins E e') = {}" using disj by blast
    then have "set (entry_coins E e) \<inter> set (concat (map (entry_coins E) es)) = {}"
      unfolding set_concat set_map by blast
    then show ?case using Cons single [of e] by simp
  qed simp
  then show ?thesis using leveldb_entries_map [OF laws, of "cdb c"] by (simp add: all_coins_def)
qed

lemma all_coins_set:
  assumes wf: "coindb_wf E c"
  shows "set (all_coins E c) = {(cl, txo). db_coins E c cl = Some txo}"
proof -
  have laws: "leveldb_laws E" using wf by (simp add: coindb_wf_def)
  have "\<exists>e \<in> set (leveldb_entries E (cdb c)). cl_ReferenceTransactionHash cl = string_of (fst e)"
    if "db_coins E c cl = Some txo" for cl txo
  proof -
    from that obtain v where "leveldb_Get E (cdb c) (bytes_of (cl_ReferenceTransactionHash cl)) = Some v"
      by (auto simp: db_coins_def getCoinRecordFromDB_def split: option.splits)
    then have "(bytes_of (cl_ReferenceTransactionHash cl), v) \<in> set (leveldb_entries E (cdb c))"
      using leveldb_entries_map [OF laws, of "cdb c"] by (metis map_of_SomeD)
    then show ?thesis by force
  qed
  then show ?thesis using entry_coins_mem [OF wf] by (fastforce simp: all_coins_def)
qed

lemma balance_loop:
  assumes "\<And>e. e \<in> set es \<Longrightarrow> \<exists>cr. DecodeCoinRecord (fst (unmarshal_CoinRecord E (snd e))) = Some cr \<and> wf_lengths cr"
  shows "fold_opt (record_balance E pk) bal es =
    Some (bal + sum_list (map (\<lambda>e. Amount (snd e)) (filter (locked pk) (concat (map (entry_coins E) es)))))"
  using assms
proof (induction es arbitrary: bal)
  case (Cons e es)
  obtain cr where "DecodeCoinRecord (fst (unmarshal_CoinRecord E (snd e))) = Some cr" "wf_lengths cr"
    using Cons.prems [of e] by auto
  moreover have "fold_opt (record_balance E pk) bal' es = Some (bal' + sum_list
      (map (\<lambda>e. Amount (snd e)) (filter (locked pk) (concat (map (entry_coins E) es)))))" for bal'
    using Cons.prems by (intro Cons.IH) simp
  ultimately show ?case by (simp add: record_balance_ok add.assoc)
qed simp

section \<open>The balance\<close>

lemma flushed_db_coins:
  assumes ok: "coindb_ok E c" and fl: "FlushMainCache E c = Some c'"
  shows "coindb_wf E c'" "db_coins E c' = utxo E c"
proof -
  have wf: "coindb_wf E c" and ca: "\<And>cl. cached_at E c cl" using ok by (auto simp: coindb_ok_def)
  show "coindb_wf E c'" using FlushMainCache_ok [OF wf] fl by auto
  have "db_coins E c' cl = utxo E c' cl" for cl
    using FlushMainCache_cached_at [OF wf fl ca, of cl] FlushMainCache_ok [OF wf] fl
    by (cases "map_of (mainCache c') cl")
      (auto simp: utxo_def cached_at_Some unspent_def dest: map_of_SomeD)
  then show "db_coins E c' = utxo E c" using FlushMainCache_utxo [OF wf fl] by auto
qed

lemma sum_list_filter_set:
  "distinct xs \<Longrightarrow> sum_list (map f (filter P xs)) = (\<Sum>x \<in> {x \<in> set xs. P x}. f x :: nat)"
  by (simp add: sum_list_distinct_conv_sum_set)

text \<open>
  C28: \<open>GetBalance\<close> returns the sum of the amounts of all unspent coins locked by the given
  script, modulo \<open>2^32\<close>; it flushes the cache first, which changes no coin.
\<close>

theorem balance_is_sum_of_coins:
  assumes "coindb_ok E c"
  shows "\<exists>bal c'. GetBalance E c pk = Some (bal, c') \<and> utxo E c' = utxo E c \<and>
    unat bal = (\<Sum>(cl, txo) \<in> {(cl, txo). utxo E c cl = Some txo \<and> LockingScript txo = pk}. unat (Amount txo)) mod 2 ^ 32"
proof -
  have wf: "coindb_wf E c" using assms by (simp add: coindb_ok_def)
  obtain c' where fl: "FlushMainCache E c = Some c'" using FlushMainCache_ok [OF wf] by blast
  note c' = flushed_db_coins [OF assms fl]
  let ?xs = "filter (locked pk) (all_coins E c')"
  let ?bal = "sum_list (map (\<lambda>e. Amount (snd e)) ?xs)"
  have "fold_opt (record_balance E pk) 0 (leveldb_entries E (cdb c')) = Some ?bal"
    using balance_loop [of "leveldb_entries E (cdb c')" E pk 0] entry_record [OF c'(1)]
    by (auto simp: all_coins_def wf_CoinRecord_def)
  then have "GetBalance E c pk = Some (?bal, c')" using fl by (simp add: GetBalance_def)
  moreover have "{x \<in> set (all_coins E c'). locked pk x} =
      {(cl, txo). utxo E c cl = Some txo \<and> LockingScript txo = pk}"
    using all_coins_set [OF c'(1)] c'(2) by (auto simp: locked_def)
  then have "unat ?bal = (\<Sum>(cl, txo) \<in> {(cl, txo). utxo E c cl = Some txo \<and> LockingScript txo = pk}.
      unat (Amount txo)) mod 2 ^ 32"
    using sum_list_filter_set [OF all_coins_distinct [OF c'(1)], of "\<lambda>e. unat (Amount (snd e))" "locked pk"]
    by (simp add: unat_sum_list_mod comp_def case_prod_beta)
  ultimately show ?thesis using FlushMainCache_utxo [OF wf fl] by blast
qed

section \<open>Instances\<close>

definition sample_cb :: Transaction where
  "sample_cb = \<lparr>Segwit = False, t_Version = 0, Inputs = [],
     Outputs = [\<lparr>Amount = 5, LockingScript = [1]\<rparr>, \<lparr>Amount = 7, LockingScript = [2]\<rparr>],
     Witnesses = [], LockTime = 0\<rparr>"

definition sample_spend :: Transaction where
  "sample_spend = \<lparr>Segwit = False, t_Version = 0,
     Inputs = [\<lparr>ReferenceTransactionHash = Transaction_Hash ref_ext sample_cb, OutputIndex = 0,
                UnlockingScript = []\<rparr>],
     Outputs = [\<lparr>Amount = 5, LockingScript = [3]\<rparr>], Witnesses = [], LockTime = 0\<rparr>"

abbreviation cb_hash :: string where "cb_hash \<equiv> Transaction_Hash ref_ext sample_cb"
abbreviation spend_hash :: string where "spend_hash \<equiv> Transaction_Hash ref_ext sample_spend"

definition sample_db0 :: "(bytes \<times> bytes) list CoinDatabase" where
  "sample_db0 = CoinDatabase_New (leveldb_empty ref_ext) cdb_DefaultConfig"

lemma sample_hashes [simp]: "cb_hash \<noteq> spend_hash" "spend_hash \<noteq> cb_hash"
  by (simp_all add: ref_Transaction_Hash_eq) (simp_all add: sample_cb_def sample_spend_def)

lemma sample_inputs [simp]: "inputs_of [sample_cb] = {}" "inputs_of [sample_spend] = {locator cb_hash 0}"
  by (auto simp: inputs_of_def sample_cb_def sample_spend_def makeCoinLocator_locator)

lemma sample_outputs [simp]: "length (Outputs sample_cb) = 2" "length (Outputs sample_spend) = 1"
  by (simp_all add: sample_cb_def sample_spend_def)

lemma new_coins_single: "new_coins E [tx] = outputs_of E tx"
  by (simp add: new_coins_def)

lemma sample_coins:
  "outputs_of ref_ext sample_cb (locator cb_hash 0) = Some \<lparr>Amount = 5, LockingScript = [1]\<rparr>"
  "outputs_of ref_ext sample_cb (locator cb_hash 1) = Some \<lparr>Amount = 7, LockingScript = [2]\<rparr>"
  "outputs_of ref_ext sample_cb (locator spend_hash i) = None"
  by (simp_all add: outputs_of_def) (simp_all add: sample_cb_def)

lemma sample_db0_ok: "coindb_ok ref_ext sample_db0" "utxo ref_ext sample_db0 = Map.empty" "known_hashes sample_db0 = {}"
  unfolding sample_db0_def by (intro coindb_ok_New ref_ext_laws)+

text \<open>After the coinbase is stored, its two outputs are the coins.\<close>

lemma sample_state:
  obtains c where "CoinDatabase_StoreBlock ref_ext sample_db0 [sample_cb] = Some c" "coindb_ok ref_ext c"
    "utxo ref_ext c = outputs_of ref_ext sample_cb" "known_hashes c \<subseteq> {cb_hash}"
proof -
  have "new_block ref_ext (known_hashes sample_db0) [sample_cb]"
    by (simp add: new_block_def sample_db0_ok)
  from StoreBlock_refines [OF sample_db0_ok(1) this] obtain c
    where c: "CoinDatabase_StoreBlock ref_ext sample_db0 [sample_cb] = Some c" "coindb_ok ref_ext c"
      "utxo ref_ext c = apply_block ref_ext Map.empty [sample_cb]"
      "cached_outputs c \<subseteq>\<^sub>m cached_outputs sample_db0 ++ new_coins ref_ext [sample_cb]"
    by (auto simp: sample_db0_ok)
  have "known_hashes c \<subseteq> {cb_hash}" using known_hashes_step [OF c(4)] by (simp add: sample_db0_ok)
  with c that show ?thesis by (simp add: apply_block_def new_coins_single)
qed

theorem coin_chain_refines_ledger_witness:
  "\<exists>c. accept_chain (ValidateBlock ref_ext) (CoinDatabase_StoreBlock ref_ext)
      (CoinDatabase_New (leveldb_empty ref_ext) cdb_DefaultConfig) [[sample_cb], [sample_spend]] = Some c \<and>
    utxo ref_ext c (locator cb_hash 0) = None \<and>
    utxo ref_ext c (locator cb_hash 1) = Some \<lparr>Amount = 7, LockingScript = [2]\<rparr>"
proof -
  let ?bs = "[[sample_cb], [sample_spend]]"
  have d: "distinct (tx_hashes ref_ext ?bs)" by (simp add: tx_hashes_def)
  have l: "length (Outputs tx) < 2 ^ 32" if "tx \<in> set (concat ?bs)" for tx using that by auto
  have v: "valid_chain ref_ext Map.empty ?bs"
    using sample_coins(1) by (simp add: apply_block_def new_coins_single dom_def)
  have "outputs_of ref_ext sample_spend (locator cb_hash i) = None" for i by (simp add: outputs_of_def)
  then have "foldl (apply_block ref_ext) Map.empty ?bs (locator cb_hash 0) = None"
    "foldl (apply_block ref_ext) Map.empty ?bs (locator cb_hash 1) = Some \<lparr>Amount = 7, LockingScript = [2]\<rparr>"
    using sample_coins by (simp_all add: apply_block_def new_coins_single map_add_def restrict_map_def)
  with v coin_chain_refines_ledger [OF ref_ext_leveldb ref_ext_proto d l] show ?thesis by fastforce
qed

theorem ValidateBlock_sound_complete_witness:
  "ValidateBlock ref_ext sample_db0 [sample_spend] = Some False \<and>
   ValidateBlock ref_ext sample_db0 [sample_cb] = Some True"
  using ValidateBlock_sound_complete [of ref_ext sample_db0 "[sample_spend]"]
    ValidateBlock_sound_complete [of ref_ext sample_db0 "[sample_cb]"] sample_db0_ok
  by (simp add: coindb_ok_def)

theorem flush_keeps_coins_witness:
  "\<exists>c c'. utxo ref_ext c (locator cb_hash 0) \<noteq> None \<and> FlushMainCache ref_ext c = Some c' \<and>
     utxo ref_ext c' = utxo ref_ext c"
proof -
  obtain c where c: "coindb_ok ref_ext c" "utxo ref_ext c = outputs_of ref_ext sample_cb"
    by (rule sample_state)
  then have "coindb_wf ref_ext c" by (simp add: coindb_ok_def)
  from flush_keeps_coins [OF this] c show ?thesis using sample_coins(1) by force
qed

theorem balance_is_sum_of_coins_witness:
  "\<exists>c bal c'. GetBalance ref_ext c [1] = Some (bal, c') \<and> unat bal = 5"
proof -
  obtain c where c: "coindb_ok ref_ext c" "utxo ref_ext c = outputs_of ref_ext sample_cb"
    by (rule sample_state)
  have "{(cl, txo). utxo ref_ext c cl = Some txo \<and> LockingScript txo = [1]} =
      {(locator cb_hash 0, \<lparr>Amount = 5, LockingScript = [1]\<rparr>)}"
  proof -
    have "i = 0" if "unat i < 2" "LockingScript (Outputs sample_cb ! unat i) = [1]" for i :: u32
      using that by (cases "unat i") (auto simp: sample_cb_def word_unat_eq_iff)
    then have "cl_OutputIndex cl = 0" if "outputs_of ref_ext sample_cb cl = Some txo" "LockingScript txo = [1]" for cl txo
      using that by (auto simp: outputs_of_def split: if_splits)
    moreover have "cl_ReferenceTransactionHash cl = cb_hash" if "outputs_of ref_ext sample_cb cl = Some txo" for cl txo
      using that by (auto simp: outputs_of_def split: if_splits)
    ultimately have "cl = locator cb_hash 0" if "outputs_of ref_ext sample_cb cl = Some txo" "LockingScript txo = [1]" for cl txo
      using that by simp
    then show ?thesis using sample_coins(1) unfolding c(2) by fastforce
  qed
  then show ?thesis using balance_is_sum_of_coins [OF c(1), of "[1]"] by force
qed

definition sample_block2 :: Block where
  "sample_block2 = sample_block\<lparr>Transactions := [sample_spend]\<rparr>"

definition sample_undo2 :: UndoBlock where
  "sample_undo2 = \<lparr>TransactionInputHashes = [cb_hash], OutputIndexes = [0], Amounts = [5], LockingScripts = [[1]]\<rparr>"

theorem undo_restores_coins_witness:
  "\<exists>c c' c''. CoinDatabase_StoreBlock ref_ext c [sample_spend] = Some c' \<and>
     UndoCoins ref_ext c' [sample_block2] [sample_undo2] = Some c'' \<and>
     utxo ref_ext c' (locator cb_hash 0) = None \<and>
     utxo ref_ext c'' (locator cb_hash 0) = Some \<lparr>Amount = 5, LockingScript = [1]\<rparr>"
proof -
  obtain c where c: "coindb_ok ref_ext c" "utxo ref_ext c = outputs_of ref_ext sample_cb" "known_hashes c \<subseteq> {cb_hash}"
    by (rule sample_state)
  have txs: "Transactions sample_block2 = [sample_spend]" by (simp add: sample_block2_def)
  have new: "new_block ref_ext (known_hashes c) [sample_spend]" using c(3) by (auto simp: new_block_def)
  have inp: "inputs_of [sample_spend] \<subseteq> dom (utxo ref_ext c)" using c(2) sample_coins(1) by auto
  obtain c' where c': "CoinDatabase_StoreBlock ref_ext c [sample_spend] = Some c'" "coindb_ok ref_ext c'"
    "utxo ref_ext c' = apply_block ref_ext (utxo ref_ext c) [sample_spend]"
    using StoreBlock_refines [OF c(1) new inp] by blast
  have o: "outputs_of ref_ext sample_spend (locator cb_hash i) = None" for i by (simp add: outputs_of_def)
  have u0: "utxo ref_ext c' (locator cb_hash 0) = None"
    and u1: "utxo ref_ext c' (locator cb_hash 1) = Some \<lparr>Amount = 7, LockingScript = [2]\<rparr>"
    using c'(3) c(2) o sample_coins by (simp_all add: apply_block_def new_coins_single map_add_def restrict_map_def)
  have "db_coins ref_ext c' (locator cb_hash 1) \<noteq> None"
    using coindb_ok_record [OF c'(2) u1] by simp
  then have "getCoinRecordFromDB ref_ext c' cb_hash \<noteq> Some None" by (auto simp: db_coins_def)
  moreover have "undo_for sample_undo2 (utxo ref_ext c) {locator cb_hash 0}"
    using c(2) sample_coins(1)
    by (simp add: undo_for_def wf_UndoBlock_def sample_undo2_def undo_loc_def undo_txo_def mk_txo_def)
  ultimately have "\<exists>c''. UndoCoins ref_ext c' [sample_block2] [sample_undo2] = Some c'' \<and>
      utxo ref_ext c'' = utxo ref_ext c"
    using new inp c'(1) by (intro undo_restores_coins [OF c(1)]) (simp_all add: txs sample_undo2_def)
  then show ?thesis using c'(1) u0 c(2) sample_coins(1) by metis
qed

definition sample_undo3 :: UndoBlock where
  "sample_undo3 = \<lparr>TransactionInputHashes = [''a'', ''b''], OutputIndexes = [0, 9], Amounts = [5, 6],
     LockingScripts = [[1], [2]]\<rparr>"

theorem undo_forges_coins_witness:
  "\<exists>c'. restore_input ref_ext sample_undo3 sample_db0 0 = Some c' \<and> locator ''a'' 9 \<in> dom (utxo ref_ext c')"
proof -
  have "getCoinRecordFromDB ref_ext sample_db0 h = Some None" for h
    by (simp add: sample_db0_def CoinDatabase_New_def getCoinRecordFromDB_def leveldb_simps ref_ext_leveldb)
  then show ?thesis
    using undo_forges_coins [OF ref_ext_leveldb ref_ext_proto, of sample_undo3 0 1 sample_db0]
    by (simp add: sample_undo3_def wf_UndoBlock_def sample_db0_def CoinDatabase_New_def)
qed

theorem uncached_inputs_stay_spendable_witness:
  "\<exists>c c'. CoinDatabase_StoreBlock ref_ext c [sample_spend] = Some c' \<and>
     ValidateBlock ref_ext c' [sample_spend] = Some True"
proof -
  have wf0: "coindb_wf ref_ext sample_db0" using sample_db0_ok(1) by (simp add: coindb_ok_def)
  have cr: "wf_CoinRecord (createCoinRecord sample_cb)" by (rule createCoinRecord_wf) simp
  have none: "getCoinRecordFromDB ref_ext sample_db0 h = Some None" for h
    by (simp add: sample_db0_def CoinDatabase_New_def getCoinRecordFromDB_def leveldb_simps ref_ext_leveldb)
  obtain c where put: "putRecordInDB ref_ext sample_db0 cb_hash (createCoinRecord sample_cb) = Some c"
    and c: "coindb_wf ref_ext c" "mainCache c = mainCache sample_db0"
    and db: "db_coins ref_ext c (locator cb_hash 0) = record_coins (createCoinRecord sample_cb) 0"
    using putRecordInDB_ok [OF wf0 cr, of cb_hash] by auto
  have cache: "mainCache c = []" using c(2) by (simp add: sample_db0_def CoinDatabase_New_def)
  have rec: "getCoinRecordFromDB ref_ext c spend_hash = Some None"
    using getCoinRecord_put [OF ref_ext_leveldb ref_ext_proto, of "createCoinRecord sample_cb" sample_db0 cb_hash]
      put cr none by (auto simp: wf_CoinRecord_def)
  have u: "locator cb_hash 0 \<in> dom (utxo ref_ext c)"
    using db createCoinRecord_coins [of sample_cb 0] cache by (simp add: utxo_def dom_def)
  have new: "new_block ref_ext (known_hashes c) [sample_spend]"
    by (simp add: new_block_def known_hashes_def cached_outputs_def dom_def cache)
  obtain c' where c': "CoinDatabase_StoreBlock ref_ext c [sample_spend] = Some c'" "coindb_wf ref_ext c'"
    "utxo ref_ext c' = utxo ref_ext c ++ new_coins ref_ext [sample_spend]"
    using uncached_inputs_stay_spendable [OF c(1) new] cache rec by auto
  have "ValidateBlock ref_ext c' [sample_spend] = Some True"
    unfolding ValidateBlock_eq [OF c'(2)] c'(3) using u by simp
  with c'(1) show ?thesis by blast
qed

end
