(* ===== verification/Block_Chain.thy ===== *)
theory Block_Chain
  imports Coin_Balance
begin

text \<open>
  Package \<open>src/pkg/blockchain\<close>: the block chain itself, which keeps the active chain, stores
  blocks and undo blocks through the chain writer, their records in the block info database and
  the coins in the coin database, and reorganises when a fork becomes longer.

  The state is the record \<open>BlockChain\<close> together with the disk. The invariant \<open>represents\<close>
  says that the state stands for a list of blocks, from the genesis block to the last one:
  every block of the list can be read back by its hash, the blocks are linked by their previous
  hashes, and the fields of the record agree with the list. The channel \<open>ConfirmBlock\<close> of the
  struct is never created or sent to by the package and is left out.
\<close>

section \<open>State\<close>

record 'db BlockChain =
  bc_Address :: string
  Length :: u32
  LastBlock :: Block
  LastHash :: string
  UnsafeHashes :: "string list"
  maxHashes :: int
  BlockInfoDB :: "'db BlockInfoDatabase"
  bc_ChainWriter :: ChainWriter
  CoinDB :: "'db CoinDatabase"

record bc_Config =
  GenesisPublicKey :: bytes
  bcc_InitialSubsidy :: u32
  HasChain :: bool
  BlockInfoDBPath :: string
  ChainWriterDBPath :: string
  CoinDBPath :: string

definition GENPK :: string where
  "GENPK = ''3059301306072a8648ce3d020106082a8648ce3d030107034200042418a20458559ae13a0d4bb6ac284c66a5cebb5689563d4cf573473d8c6d5abfa9a21a65dbb3ba2f2d930be7f763f940f9864abaf199a0f0d8d14bedda2dcad9''"

definition bc_DefaultConfig :: bc_Config where
  "bc_DefaultConfig =
     \<lparr>GenesisPublicKey = hex_DecodeString GENPK, bcc_InitialSubsidy = 0, HasChain = True,
      BlockInfoDBPath = ''blockinfodata'', ChainWriterDBPath = cwc_DataDirectory cw_DefaultConfig,
      CoinDBPath = cdbc_DatabasePath cdb_DefaultConfig\<rparr>"

definition GenesisBlock :: "bc_Config \<Rightarrow> Block" where
  "GenesisBlock config =
     (let txo = \<lparr>Amount = bcc_InitialSubsidy config, LockingScript = GenesisPublicKey config\<rparr>;
          genTx = \<lparr>Segwit = False, t_Version = 0, Inputs = [], Outputs = [txo], Witnesses = [], LockTime = 0\<rparr>
      in \<lparr>b_Header = \<lparr>h_Version = 0, h_PreviousHash = '''', h_MerkleRoot = '''', h_DifficultyTarget = '''',
            h_Nonce = 0, h_Timestamp = 0\<rparr>,
          Transactions = [genTx]\<rparr>)"

text \<open>The contents of the two levelDBs, the disk at the start and the outcome of \<open>os.Mkdir\<close> are arguments.\<close>

definition BlockChain_New ::
  "('db, 'z) ext_scheme \<Rightarrow> (string \<Rightarrow> bool) \<Rightarrow> 'db \<Rightarrow> 'db \<Rightarrow> disk \<Rightarrow> bc_Config \<Rightarrow> ('db BlockChain \<times> disk) option" where
  "BlockChain_New E mkdir infoDB coinDB disk config =
     (let genBlock = GenesisBlock config;
          hash = Block_Hash E genBlock;
          chainWriterConfig = cw_DefaultConfig\<lparr>cwc_DataDirectory := ChainWriterDBPath config\<rparr>;
          coinDBConfig = cdb_DefaultConfig\<lparr>cdbc_DatabasePath := CoinDBPath config\<rparr>
      in do { cw \<leftarrow> ChainWriter_New mkdir chainWriterConfig;
              let bc = \<lparr>bc_Address = '''', Length = 1, LastBlock = genBlock, LastHash = hash, UnsafeHashes = [hash],
                maxHashes = 6, BlockInfoDB = BlockInfoDatabase_New infoDB, bc_ChainWriter = cw,
                CoinDB = CoinDatabase_New coinDB coinDBConfig\<rparr>;
              c \<leftarrow> CoinDatabase_StoreBlock E (CoinDB bc) (Transactions genBlock);
              (br, cw, disk) \<leftarrow> ChainWriter_StoreBlock E (bc_ChainWriter bc) disk genBlock empty_UndoBlock 1;
              Some (bc\<lparr>CoinDB := c, bc_ChainWriter := cw,
                       BlockInfoDB := StoreBlockRecord E (BlockInfoDB bc) hash br\<rparr>, disk) })"

section \<open>Operations\<close>

definition appendsToActiveChain :: "('db, 'z) ext_scheme \<Rightarrow> 'db BlockChain \<Rightarrow> Block \<Rightarrow> bool" where
  "appendsToActiveChain E bc b \<longleftrightarrow> Block_Hash E (LastBlock bc) = h_PreviousHash (b_Header b)"

text \<open>The loops of \<open>makeUndoBlock\<close>; the inner \<^const>\<open>None\<close> is the early return on a missing coin.\<close>

fun undo_inputs ::
  "('db, 'z) ext_scheme \<Rightarrow> 'db CoinDatabase \<Rightarrow> TransactionInput list \<Rightarrow> UndoBlock \<Rightarrow> UndoBlock option option" where
  "undo_inputs E c [] ub = Some (Some ub)"
| "undo_inputs E c (txi # txis) ub =
     (case GetCoin E c \<lparr>cl_ReferenceTransactionHash = ReferenceTransactionHash txi,
                        cl_OutputIndex = OutputIndex txi\<rparr> of
        None \<Rightarrow> None
      | Some None \<Rightarrow> Some None
      | Some (Some coin) \<Rightarrow>
          undo_inputs E c txis
            \<lparr>TransactionInputHashes = TransactionInputHashes ub @ [ReferenceTransactionHash txi],
             OutputIndexes = OutputIndexes ub @ [OutputIndex txi],
             Amounts = Amounts ub @ [Amount (c_TransactionOutput coin)],
             LockingScripts = LockingScripts ub @ [LockingScript (c_TransactionOutput coin)]\<rparr>)"

definition makeUndoBlock ::
  "('db, 'z) ext_scheme \<Rightarrow> 'db BlockChain \<Rightarrow> Transaction list \<Rightarrow> UndoBlock option" where
  "makeUndoBlock E bc txs =
     (case undo_inputs E (CoinDB bc) (concat (map Inputs txs)) empty_UndoBlock of
        None \<Rightarrow> None
      | Some None \<Rightarrow> Some empty_UndoBlock
      | Some (Some ub) \<Rightarrow> Some ub)"

definition GetBlock :: "('db, 'z) ext_scheme \<Rightarrow> 'db BlockChain \<Rightarrow> disk \<Rightarrow> string \<Rightarrow> Block option" where
  "GetBlock E bc disk blockHash =
     (let br = GetBlockRecord E (BlockInfoDB bc) blockHash;
          fi = \<lparr>FileName = br_BlockFile br, StartOffset = br_BlockStartOffset br, EndOffset = br_BlockEndOffset br\<rparr>
      in ReadBlock E disk fi)"

definition getUndoBlock :: "('db, 'z) ext_scheme \<Rightarrow> 'db BlockChain \<Rightarrow> disk \<Rightarrow> string \<Rightarrow> UndoBlock option" where
  "getUndoBlock E bc disk blockHash =
     (let br = GetBlockRecord E (BlockInfoDB bc) blockHash;
          fi = \<lparr>FileName = br_UndoFile br, StartOffset = br_UndoStartOffset br, EndOffset = br_UndoEndOffset br\<rparr>
      in ReadUndoBlock E disk fi)"

text \<open>
  The loops of \<open>GetBlocks\<close> and \<open>GetHashes\<close> count an unsigned height down while it is at least
  \<open>start\<close>; with \<open>start = 0\<close> the condition always holds.
\<close>

partial_function (option) get_blocks_loop ::
  "('db, 'z) ext_scheme \<Rightarrow> 'db BlockChain \<Rightarrow> disk \<Rightarrow> u32 \<Rightarrow> u32 \<Rightarrow> u32 \<Rightarrow> string \<Rightarrow> Block list \<Rightarrow> Block list option" where
  "get_blocks_loop E bc disk start end' currentHeight nextHash blocks =
     (if currentHeight \<ge> start
      then let br = GetBlockRecord E (BlockInfoDB bc) nextHash;
               fi = \<lparr>FileName = br_BlockFile br, StartOffset = br_BlockStartOffset br, EndOffset = br_BlockEndOffset br\<rparr>
           in if currentHeight \<le> end'
              then (case ReadBlock E disk fi of
                      None \<Rightarrow> None
                    | Some b \<Rightarrow> get_blocks_loop E bc disk start end' (currentHeight - 1)
                                  (h_PreviousHash (br_Header br)) (blocks @ [b]))
              else get_blocks_loop E bc disk start end' (currentHeight - 1) (h_PreviousHash (br_Header br)) blocks
      else Some blocks)"

partial_function (option) get_hashes_loop ::
  "('db, 'z) ext_scheme \<Rightarrow> 'db BlockChain \<Rightarrow> u32 \<Rightarrow> u32 \<Rightarrow> u32 \<Rightarrow> string \<Rightarrow> string list \<Rightarrow> string list option" where
  "get_hashes_loop E bc start end' currentHeight nextHash hashes =
     (if currentHeight \<ge> start
      then let br = GetBlockRecord E (BlockInfoDB bc) nextHash
           in get_hashes_loop E bc start end' (currentHeight - 1) (h_PreviousHash (br_Header br))
                (if currentHeight \<le> end' then hashes @ [nextHash] else hashes)
      else Some hashes)"

text \<open>The in-place reversal: swap the ends and move inwards.\<close>

function reverse_loop :: "'a list \<Rightarrow> nat \<Rightarrow> nat \<Rightarrow> 'a list" where
  "reverse_loop s i j = (if i < j then reverse_loop (swap s i j) (i + 1) (j - 1) else s)"
  by pat_completeness auto
termination
  by (relation "measure (\<lambda>(s, i, j). j - i)") auto

declare reverse_loop.simps [simp del]

definition reverseBlocks :: "Block list \<Rightarrow> Block list" where
  "reverseBlocks s = reverse_loop s 0 (length s - 1)"

definition reverseHashes :: "string list \<Rightarrow> string list" where
  "reverseHashes s = reverse_loop s 0 (length s - 1)"

definition GetBlocks ::
  "('db, 'z) ext_scheme \<Rightarrow> 'db BlockChain \<Rightarrow> disk \<Rightarrow> u32 \<Rightarrow> u32 \<Rightarrow> Block list option" where
  "GetBlocks E bc disk start end' =
     map_option reverseBlocks
       (get_blocks_loop E bc disk start end' (Length bc) (Block_Hash E (LastBlock bc)) [])"

definition GetHashes ::
  "('db, 'z) ext_scheme \<Rightarrow> 'db BlockChain \<Rightarrow> u32 \<Rightarrow> u32 \<Rightarrow> string list option" where
  "GetHashes E bc start end' =
     map_option reverseHashes
       (get_hashes_loop E bc start end' (Length bc) (Block_Hash E (LastBlock bc)) [])"

definition BlockChain_List :: "('db, 'z) ext_scheme \<Rightarrow> 'db BlockChain \<Rightarrow> disk \<Rightarrow> Block list option" where
  "BlockChain_List E bc disk = GetBlocks E bc disk 1 (Length bc)"

definition SetAddress :: "'db BlockChain \<Rightarrow> string \<Rightarrow> 'db BlockChain" where
  "SetAddress bc address = bc\<lparr>bc_Address := address\<rparr>"

definition BlockChain_GetBalance ::
  "('db, 'z) ext_scheme \<Rightarrow> 'db BlockChain \<Rightarrow> bytes \<Rightarrow> (u32 \<times> 'db BlockChain) option" where
  "BlockChain_GetBalance E bc pk =
     map_option (\<lambda>(bal, c). (bal, bc\<lparr>CoinDB := c\<rparr>)) (GetBalance E (CoinDB bc) pk)"

definition add_input ::
  "('db, 'z) ext_scheme \<Rightarrow> 'db BlockChain \<Rightarrow> u32 \<Rightarrow> TransactionInput \<Rightarrow> u32 option" where
  "add_input E bc acc txi =
     (case GetCoin E (CoinDB bc) \<lparr>cl_ReferenceTransactionHash = ReferenceTransactionHash txi,
                                  cl_OutputIndex = OutputIndex txi\<rparr> of
        None \<Rightarrow> None
      | Some None \<Rightarrow> Some acc
      | Some (Some coin) \<Rightarrow> Some (acc + Amount (c_TransactionOutput coin)))"

definition GetInputSums ::
  "('db, 'z) ext_scheme \<Rightarrow> 'db BlockChain \<Rightarrow> Transaction list \<Rightarrow> u32 list option" where
  "GetInputSums E bc txs = those (map (\<lambda>tx. fold_opt (add_input E bc) 0 (Inputs tx)) txs)"

subsection \<open>Forks\<close>

fun fork_loop ::
  "('db, 'z) ext_scheme \<Rightarrow> 'db BlockChain \<Rightarrow> nat \<Rightarrow> string \<Rightarrow> nat \<Rightarrow> int \<times> string" where
  "fork_loop E bc 0 nextHash forkLength = (-1, '''')"
| "fork_loop E bc (Suc k) nextHash forkLength =
     (if nextHash \<in> set (UnsafeHashes bc) then (int forkLength, nextHash)
      else fork_loop E bc k (h_PreviousHash (br_Header (GetBlockRecord E (BlockInfoDB bc) nextHash)))
             (forkLength + 1))"

definition getForkLengthAndAncestor :: "('db, 'z) ext_scheme \<Rightarrow> 'db BlockChain \<Rightarrow> string \<Rightarrow> int \<times> string" where
  "getForkLengthAndAncestor E bc startHash = fork_loop E bc (length (UnsafeHashes bc) + 1) startHash 0"

fun getBlocksAndUndoBlocks ::
  "('db, 'z) ext_scheme \<Rightarrow> 'db BlockChain \<Rightarrow> disk \<Rightarrow> nat \<Rightarrow> string \<Rightarrow> (Block list \<times> UndoBlock list) option" where
  "getBlocksAndUndoBlocks E bc disk 0 nextHash = Some ([], [])"
| "getBlocksAndUndoBlocks E bc disk (Suc n) nextHash =
     do { b \<leftarrow> GetBlock E bc disk nextHash;
          ub \<leftarrow> getUndoBlock E bc disk nextHash;
          (bs, ubs) \<leftarrow> getBlocksAndUndoBlocks E bc disk n (h_PreviousHash (b_Header b));
          Some (b # bs, ub # ubs) }"

text \<open>The loop that removes unsafe hashes down to the ancestor; its index starts at \<open>min - 1\<close>.\<close>

fun trim_unsafe :: "nat \<Rightarrow> string \<Rightarrow> string list \<Rightarrow> string list option" where
  "trim_unsafe 0 ancestorHash hs = Some hs"
| "trim_unsafe (Suc i) ancestorHash hs =
     (case slice_get hs (Suc i) of
        None \<Rightarrow> None
      | Some h \<Rightarrow> if h = ancestorHash then Some hs else trim_unsafe i ancestorHash (butlast hs))"

definition handleFork ::
  "('db, 'z) ext_scheme \<Rightarrow> 'db BlockChain \<Rightarrow> disk \<Rightarrow> Block \<Rightarrow> u32 \<Rightarrow> 'db BlockChain option" where
  "handleFork E bc disk b height =
     (let (forkLength, ancestorHash) = getForkLengthAndAncestor E bc (Block_Hash E b) in
      if forkLength < 0 then Some bc
      else
        do { (blocks, undoBlocks) \<leftarrow> getBlocksAndUndoBlocks E bc disk (nat forkLength) (LastHash bc);
             hs \<leftarrow> trim_unsafe (min 6 (nat forkLength) - 1) ancestorHash (UnsafeHashes bc);
             let hs = hs @ map (Block_Hash E) (rev blocks);
             c \<leftarrow> UndoCoins E (CoinDB bc) blocks undoBlocks;
             c \<leftarrow> fold_opt (\<lambda>c bl. case ValidateBlock E c (Transactions bl) of
                    None \<Rightarrow> None | Some valid \<Rightarrow> CoinDatabase_StoreBlock E c (Transactions bl)) c blocks;
             Some (bc\<lparr>UnsafeHashes := hs, CoinDB := c, LastBlock := b, LastHash := Block_Hash E b,
                      Length := height\<rparr>) })"

subsection \<open>Handling a block\<close>

definition append_block :: "('db, 'z) ext_scheme \<Rightarrow> 'db BlockChain \<Rightarrow> Block \<Rightarrow> 'db BlockChain option" where
  "append_block E bc b =
     (case CoinDatabase_StoreBlock E (CoinDB bc) (Transactions b) of
        None \<Rightarrow> None
      | Some c \<Rightarrow>
          let hs = (if length (UnsafeHashes bc) \<ge> 6 then tl (UnsafeHashes bc) else UnsafeHashes bc)
          in Some (bc\<lparr>CoinDB := c, Length := Length bc + 1, LastBlock := b, LastHash := Block_Hash E b,
                      UnsafeHashes := hs @ [Block_Hash E b]\<rparr>))"

definition store_block ::
  "('db, 'z) ext_scheme \<Rightarrow> 'db BlockChain \<Rightarrow> disk \<Rightarrow> Block \<Rightarrow> (u32 \<times> 'db BlockChain \<times> disk) option" where
  "store_block E bc disk b =
     do { ub \<leftarrow> makeUndoBlock E bc (Transactions b);
          let previousBr = GetBlockRecord E (BlockInfoDB bc) (h_PreviousHash (b_Header b));
          let height = br_Height previousBr + 1;
          (br, cw, disk) \<leftarrow> ChainWriter_StoreBlock E (bc_ChainWriter bc) disk b ub height;
          Some (height, bc\<lparr>bc_ChainWriter := cw,
                  BlockInfoDB := StoreBlockRecord E (BlockInfoDB bc) (Block_Hash E b) br\<rparr>, disk) }"

definition HandleBlock ::
  "('db, 'z) ext_scheme \<Rightarrow> 'db BlockChain \<Rightarrow> disk \<Rightarrow> Block \<Rightarrow> ('db BlockChain \<times> disk) option" where
  "HandleBlock E bc disk b =
     (let appends = appendsToActiveChain E bc b in
      do { valid \<leftarrow> (if appends then ValidateBlock E (CoinDB bc) (Transactions b) else Some True);
           if \<not> valid then Some (bc, disk)
           else do { (height, bc, disk) \<leftarrow> store_block E bc disk b;
                     bc \<leftarrow> (if appends then append_block E bc b
                            else if height > Length bc then handleFork E bc disk b height
                            else Some bc);
                     Some (bc, disk) } })"

end
