(* ===== verification/Coin_Log.thy ===== *)
theory Coin_Log
  imports Coin_Block
begin

text \<open>
  The strings the program prints to its log: \<open>src/pkg/utils/logging.go\<close> and the name tags of blocks and transactions.

  Whether the log is on or not, Go evaluates the arguments of a print, so a formatting function that panics stops the
  program. \<^const>\<open>None\<close> is the panic. \<open>ParseInt\<close> and \<open>Split\<close> are those of the standard library;
  the error of \<open>ParseInt\<close> is dropped by all callers. \<open>SetDebug\<close> and the initialisation of the loggers only choose where
  the output goes and are left out.
\<close>

section \<open>The standard library\<close>

text \<open>\<open>strings.Split\<close> with a separator of one character.\<close>

fun strings_Split :: "char \<Rightarrow> string \<Rightarrow> string list" where
  "strings_Split sep [] = [[]]"
| "strings_Split sep (c # s) =
     (if c = sep then [] # strings_Split sep s
      else case strings_Split sep s of [] \<Rightarrow> [[c]] | p # ps \<Rightarrow> (c # p) # ps)"

definition digit_value :: "char \<Rightarrow> nat option" where
  "digit_value c =
     (let n = (of_char c :: nat) in
      if 48 \<le> n \<and> n \<le> 57 then Some (n - 48)
      else if 97 \<le> n \<and> n \<le> 122 then Some (n - 87)
      else if 65 \<le> n \<and> n \<le> 90 then Some (n - 55)
      else None)"

datatype parse_error = ErrSyntax | ErrRange

text \<open>The loop of \<open>ParseUint\<close> with 64 bits: the value so far and the rest of the text.\<close>

fun uint_loop :: "nat \<Rightarrow> nat \<Rightarrow> string \<Rightarrow> parse_error + nat" where
  "uint_loop base n [] = Inr n"
| "uint_loop base n (c # s) =
     (case digit_value c of
        None \<Rightarrow> Inl ErrSyntax
      | Some d \<Rightarrow>
          if d \<ge> base then Inl ErrSyntax
          else if n * base + d \<ge> 2 ^ 64 then Inl ErrRange
          else uint_loop base (n * base + d) s)"

definition ParseUint :: "string \<Rightarrow> nat \<Rightarrow> parse_error + nat" where
  "ParseUint s base = (if s = [] then Inl ErrSyntax else uint_loop base 0 s)"

text \<open>The value \<open>ParseInt\<close> returns; out of range it is the nearest 64-bit number, on a syntax error it is 0.\<close>

definition ParseInt :: "string \<Rightarrow> nat \<Rightarrow> int" where
  "ParseInt s base =
     (let neg = (s \<noteq> [] \<and> hd s = CHR ''-'');
          body = (if s \<noteq> [] \<and> (hd s = CHR ''-'' \<or> hd s = CHR ''+'') then tl s else s)
      in case ParseUint body base of
           Inl ErrSyntax \<Rightarrow> 0
         | Inl ErrRange \<Rightarrow> if neg then - (2 ^ 63) else 2 ^ 63 - 1
         | Inr un \<Rightarrow> if neg then - int (min un (2 ^ 63)) else int (min un (2 ^ 63 - 1)))"

text \<open>Go's remainder has the sign of the dividend.\<close>

definition go_rem :: "int \<Rightarrow> int \<Rightarrow> int" where
  "go_rem a b = (if a < 0 then - ((- a) mod b) else a mod b)"

definition esc :: string where "esc = [CHR 0x1B]"

section \<open>Addresses (\<open>utils/logging.go\<close>)\<close>

definition colors :: "string list" where
  "colors = map (\<lambda>c. esc @ ''['' @ c @ ''m'') [''41'', ''42'', ''43'', ''44'', ''45'', ''46'', ''47'']"

definition FmtAddr :: "string \<Rightarrow> string option" where
  "FmtAddr addr =
     (if addr = [] then Some []
      else case slice_get (strings_Split (CHR '':'') addr) 1 of
             None \<Rightarrow> None
           | Some p \<Rightarrow>
               let i = go_rem (ParseInt p 10) 7 in
               if i < 0 then None
               else Some (colors ! nat i @ esc @ ''[97m['' @ addr @ '']'' @ esc @ ''[0m''))"

definition Colorize :: "string \<Rightarrow> int \<Rightarrow> string" where
  "Colorize s seed = esc @ ''[38;5;'' @ string_of_int (go_rem seed (226 - 104) + 104) @ ''m'' @ s @ esc @ ''[0m''"

section \<open>Name tags (\<open>block/block.go\<close>, \<open>block/transaction.go\<close>)\<close>

definition go_prefix :: "string \<Rightarrow> nat \<Rightarrow> string option" where
  "go_prefix s n = (if n \<le> length s then Some (take n s) else None)"

definition Block_NameTag :: "('db, 'z) ext_scheme \<Rightarrow> Block \<Rightarrow> string option" where
  "Block_NameTag E b =
     do { p \<leftarrow> go_prefix (Block_Hash E b) 10;
          q \<leftarrow> go_prefix (Block_Hash E b) 8;
          Some (Colorize (''block-'' @ q) (ParseInt p 16)) }"

definition Transaction_NameTag :: "('db, 'z) ext_scheme \<Rightarrow> Transaction \<Rightarrow> string option" where
  "Transaction_NameTag E tx =
     do { p \<leftarrow> go_prefix (Transaction_Hash E tx) 10;
          q \<leftarrow> go_prefix (Transaction_Hash E tx) 6;
          Some (Colorize (''tx-'' @ q) (ParseInt p 16)) }"

fun strings_Join :: "string list \<Rightarrow> string \<Rightarrow> string" where
  "strings_Join [] sep = []"
| "strings_Join [s] sep = s"
| "strings_Join (s # t # ts) sep = s @ sep @ strings_Join (t # ts) sep"

definition Summarize :: "('db, 'z) ext_scheme \<Rightarrow> Block \<Rightarrow> string option" where
  "Summarize E b =
     do { txs \<leftarrow> those (map (Transaction_NameTag E) (Transactions b));
          p \<leftarrow> go_prefix (h_PreviousHash (b_Header b)) 10;
          q \<leftarrow> go_prefix (h_PreviousHash (b_Header b)) 6;
          let prevNameTag = Colorize (''block-'' @ q) (ParseInt p 16);
          Some (''{prev: '' @ prevNameTag @ '', txs: ['' @ strings_Join txs '', '' @ '']}'') }"

section \<open>When formatting panics\<close>

lemma Split_not_Nil [simp]: "strings_Split sep s \<noteq> []"
  by (induction s) (auto split: list.splits)

lemma Split_no_sep: "sep \<notin> set s \<Longrightarrow> strings_Split sep s = [s]"
  by (induction s) auto

lemma Split_sep: "sep \<notin> set s \<Longrightarrow> strings_Split sep (s @ sep # t) = s # strings_Split sep t"
  by (induction s) auto

lemma Split_second: "slice_get (strings_Split sep s) 1 = None \<longleftrightarrow> sep \<notin> set s"
proof
  assume "sep \<notin> set s"
  then show "slice_get (strings_Split sep s) 1 = None" by (simp add: Split_no_sep slice_get_def)
next
  assume none: "slice_get (strings_Split sep s) 1 = None"
  show "sep \<notin> set s"
  proof
    assume "sep \<in> set s"
    then obtain xs ys where "s = xs @ sep # ys" "sep \<notin> set xs" by (metis split_list_first)
    then show False using none by (cases "strings_Split sep ys") (simp_all add: Split_sep slice_get_def)
  qed
qed

lemma FmtAddr_panics: "addr \<noteq> [] \<Longrightarrow> CHR '':'' \<notin> set addr \<Longrightarrow> FmtAddr addr = None"
  by (simp add: FmtAddr_def Split_no_sep slice_get_def)

lemma ParseUint_head: "digit_value c = None \<Longrightarrow> ParseUint (c # s) base = Inl ErrSyntax"
  by (simp add: ParseUint_def)

lemma ParseInt_nonneg: "s = [] \<or> hd s \<noteq> CHR ''-'' \<Longrightarrow> 0 \<le> ParseInt s base"
  by (auto simp: ParseInt_def Let_def split: sum.split parse_error.split)

lemma go_rem_nonneg: "0 \<le> a \<Longrightarrow> 0 < b \<Longrightarrow> 0 \<le> go_rem a b"
  by (simp add: go_rem_def)

text \<open>An address of the form \<open>host:port\<close> is printed, so a node can print its own.\<close>

lemma FmtAddr_host_port:
  assumes "CHR '':'' \<notin> set host" and "port = [] \<or> hd port \<noteq> CHR ''-''" and "CHR '':'' \<notin> set port"
  shows "FmtAddr (host @ '':'' @ port) \<noteq> None"
  using assms Split_sep [OF assms(1), of port] go_rem_nonneg [OF ParseInt_nonneg [OF assms(2)], of 7 10]
  by (auto simp: FmtAddr_def Split_no_sep slice_get_def Let_def not_less)

lemma NameTag_defined:
  "sha256_length E \<Longrightarrow> Block_NameTag E b \<noteq> None" "sha256_length E \<Longrightarrow> Transaction_NameTag E tx \<noteq> None"
  by (simp_all add: Block_NameTag_def Transaction_NameTag_def go_prefix_def Block_Hash_def Transaction_Hash_def Let_def sha256_length_def)

text \<open>
  \<open>FmtAddr\<close> panics exactly on a non-empty address without a colon, or whose text between the first and the second colon
  reads as a negative number that is not a multiple of 7; the colour index would be missing or negative.
\<close>

theorem fmt_addr_panics_iff:
  "FmtAddr addr = None \<longleftrightarrow> addr \<noteq> [] \<and>
     (CHR '':'' \<notin> set addr \<or>
      (\<exists>port. slice_get (strings_Split (CHR '':'') addr) 1 = Some port \<and> ParseInt port 10 < 0 \<and> \<not> 7 dvd ParseInt port 10))"
proof -
  have rem: "go_rem a 7 < 0 \<longleftrightarrow> a < 0 \<and> \<not> 7 dvd a" for a
  proof (cases "a < 0")
    case True
    have "go_rem a 7 < 0 \<longleftrightarrow> (- a) mod 7 \<noteq> 0"
      using True pos_mod_sign [of 7 "- a"] by (auto simp: go_rem_def)
    then show ?thesis using True by (simp add: dvd_eq_mod_eq_0 [symmetric])
  qed (simp add: go_rem_def not_less)
  show ?thesis
    using Split_second [of "CHR '':''" addr]
    by (cases "slice_get (strings_Split (CHR '':'') addr) 1") (auto simp: FmtAddr_def Let_def rem simp del: slice_get_None_iff slice_get_Some_iff One_nat_def)
qed

end
