(* ===== verification/Miner.thy ===== *)
theory Miner
  imports Tx_Pool Block_Chain Coin_Log
begin

text \<open>
  The miner (\<open>src/pkg/miner/miner.go\<close> and \<open>mine.go\<close>).

  The atomic fields are plain fields. A send on a channel is an event, and an operation returns
  the events in the order of the sends; a send on a closed channel panics, so the state records
  whether \<open>Kill\<close> has closed \<open>PoolUpdated\<close> and \<open>SendBlock\<close>. The reply of the node to a
  request on \<open>GetInputSums\<close> is an argument, \<^const>\<open>None\<close> for the timeout. The context that
  cancels the search for a nonce is an argument too: whether it is done when round \<open>i\<close> looks.
  \<open>math.Pow(2, h)\<close> converted to \<open>uint32\<close> is exact below 32; above, Go leaves the value to
  the implementation, and it is the argument \<open>oor\<close>.
\<close>

section \<open>State\<close>

record Miner =
  m_Config :: miner_Config
  m_Id :: SimpleID
  m_TxPool :: TxPool
  MiningPool :: "Transaction list"
  m_PreviousHash :: string
  m_Address :: string
  ChainLength :: u32
  DifficultyTarget :: bytes
  Active :: bool
  Mining :: bool
  channels_closed :: bool

datatype miner_event = PoolUpdated | SendBlock Block | RequestInputSums "Transaction list"

definition Miner_New :: "('db, 'z) ext_scheme \<Rightarrow> miner_Config \<Rightarrow> SimpleID \<Rightarrow> Miner option" where
  "Miner_New E c i =
     (if \<not> HasMiner c then None
      else Some \<lparr>m_Config = c, m_Id = i, m_TxPool = NewTxPool c, MiningPool = [],
                 m_PreviousHash = Block_Hash E (GenesisBlock bc_DefaultConfig), m_Address = '''',
                 ChainLength = 1, DifficultyTarget = InitialPOWDifficulty c, Active = False,
                 Mining = False, channels_closed = False\<rparr>)"

section \<open>Operations of \<open>miner.go\<close>\<close>

definition Miner_SetAddress :: "Miner \<Rightarrow> string \<Rightarrow> Miner" where
  "Miner_SetAddress m a = m\<lparr>m_Address := a\<rparr>"

definition StartMiner :: "Miner \<Rightarrow> Miner" where
  "StartMiner m = m\<lparr>Active := True\<rparr>"

definition SetChainLength :: "Miner \<Rightarrow> u32 \<Rightarrow> Miner" where
  "SetChainLength m l = m\<lparr>ChainLength := l\<rparr>"

definition IncrementChainLength :: "Miner \<Rightarrow> Miner" where
  "IncrementChainLength m = m\<lparr>ChainLength := ChainLength m + 1\<rparr>"

definition send_PoolUpdated :: "Miner \<Rightarrow> (Miner \<times> miner_event list) option" where
  "send_PoolUpdated m = (if channels_closed m then None else Some (m, [PoolUpdated]))"

text \<open>The transactions of a block are nil exactly when there are none.\<close>

definition UpdateTXPool ::
  "('db, 'z) ext_scheme \<Rightarrow> Miner \<Rightarrow> Transaction list \<Rightarrow> (Miner \<times> miner_event list) option" where
  "UpdateTXPool E m txs =
     (if txs = [] then Some (m, [])
      else let m = m\<lparr>m_TxPool := CheckTransactions E (m_TxPool m) (map Some txs)\<rparr> in
           if Active m then send_PoolUpdated m else Some (m, []))"

definition Miner_HandleBlock ::
  "('db, 'z) ext_scheme \<Rightarrow> Miner \<Rightarrow> Block option \<Rightarrow> (Miner \<times> miner_event list) option" where
  "Miner_HandleBlock E m b =
     (case b of
        None \<Rightarrow> Some (m, [])
      | Some b \<Rightarrow> UpdateTXPool E (IncrementChainLength m) (Transactions b))"

text \<open>On a timeout \<open>getInputSums\<close> returns the slice \<open>[0]\<close> with an error, which callers only log.\<close>

definition getInputSums :: "u32 list option \<Rightarrow> u32 list" where
  "getInputSums reply = (case reply of None \<Rightarrow> [0] | Some sums \<Rightarrow> sums)"

definition HandleTransaction ::
  "Miner \<Rightarrow> u32 list option \<Rightarrow> Transaction option \<Rightarrow> (Miner \<times> miner_event list) option" where
  "HandleTransaction m reply t =
     (case t of
        None \<Rightarrow> Some (m, [])
      | Some tx \<Rightarrow>
          do { s \<leftarrow> slice_get (getInputSums reply) 0;
               tp \<leftarrow> TxPool_Add (m_TxPool m) t s;
               let m = m\<lparr>m_TxPool := tp\<rparr>;
               (m, ev) \<leftarrow> (if Active m then send_PoolUpdated m else Some (m, []));
               Some (m, RequestInputSums [tx] # ev) })"

text \<open>The log line comes after the send and panics with \<open>FmtAddr\<close>.\<close>

definition Pause :: "Miner \<Rightarrow> (Miner \<times> miner_event list) option" where
  "Pause m = do { (m, ev) \<leftarrow> send_PoolUpdated (m\<lparr>Active := False\<rparr>); _ \<leftarrow> FmtAddr (m_Address m); Some (m, ev) }"

definition Resume :: "Miner \<Rightarrow> (Miner \<times> miner_event list) option" where
  "Resume m = do { (m, ev) \<leftarrow> send_PoolUpdated (m\<lparr>Active := True\<rparr>); _ \<leftarrow> FmtAddr (m_Address m); Some (m, ev) }"

text \<open>Closing a closed channel panics.\<close>

definition Miner_Kill :: "Miner \<Rightarrow> Miner option" where
  "Miner_Kill m = (if channels_closed m then None else Some (m\<lparr>Active := False, channels_closed := True\<rparr>))"

section \<open>Operations of \<open>mine.go\<close>\<close>

text \<open>The nonce is written into the header of the block, and stays there when the search fails.\<close>

function nonce_loop ::
  "('db, 'z) ext_scheme \<Rightarrow> bytes \<Rightarrow> u32 \<Rightarrow> (u32 \<Rightarrow> bool) \<Rightarrow> u32 \<Rightarrow> Block \<Rightarrow> bool \<times> Block" where
  "nonce_loop E target limit ctx_done i b =
     (if i < limit
      then if ctx_done i then (False, b)
           else let b = b\<lparr>b_Header := (b_Header b)\<lparr>h_Nonce := i\<rparr>\<rparr> in
                if bytes_less (bytes_of (Block_Hash E b)) target then (True, b)
                else nonce_loop E target limit ctx_done (i + 1) b
      else (False, b))"
  by pat_completeness auto
termination
proof (relation "measure (\<lambda>(E, target, limit, ctx_done, i, b). unat limit - unat i)")
  fix limit i :: u32
  assume "i < limit"
  then have "unat limit - unat (i + 1) < unat limit - unat i"
    by (simp add: word_less_nat_alt u32_Suc_less)
  then show "((E, target, limit, ctx_done, i + 1, x), E, target, limit, ctx_done, i, b)
      \<in> measure (\<lambda>(E, target, limit, ctx_done, i, b). unat limit - unat i)" for E target ctx_done x b
    by simp
qed simp

declare nonce_loop.simps [simp del]

definition CalculateNonce ::
  "('db, 'z) ext_scheme \<Rightarrow> Miner \<Rightarrow> (u32 \<Rightarrow> bool) \<Rightarrow> Block \<Rightarrow> bool \<times> Block" where
  "CalculateNonce E m ctx_done b = nonce_loop E (DifficultyTarget m) (NonceLimit (m_Config m)) ctx_done 0 b"

definition CalculateFees :: "u32 list option \<Rightarrow> Transaction list \<Rightarrow> u32" where
  "CalculateFees reply txs =
     (let inSum = foldl (+) 0 (getInputSums reply);
          outSum = foldl (\<lambda>acc t. acc + SumOutputs t) 0 txs
      in if inSum > outSum then inSum - outSum else 0)"

definition pow2_uint32 :: "u32 \<Rightarrow> nat \<Rightarrow> u32" where
  "pow2_uint32 oor h = (if h < 32 then 2 ^ h else oor)"

definition CalculateMintingReward :: "u32 \<Rightarrow> Miner \<Rightarrow> u32 option" where
  "CalculateMintingReward oor m =
     (let c = m_Config m; chainLength = ChainLength m in
      if chainLength \<ge> SubsidyHalvingRate c * MaxHalvings c then Some 0
      else if SubsidyHalvingRate c = 0 then None
      else let halvings = chainLength div SubsidyHalvingRate c;
               d = pow2_uint32 oor (unat halvings)
           in if d = 0 then None else Some (mc_InitialSubsidy c div d))"

definition GenerateCoinbaseTransaction ::
  "u32 \<Rightarrow> Miner \<Rightarrow> u32 list option \<Rightarrow> Transaction list \<Rightarrow> Transaction option" where
  "GenerateCoinbaseTransaction oor m reply txs =
     (let feeRwd = CalculateFees reply txs in
      case CalculateMintingReward oor m of
        None \<Rightarrow> None
      | Some mntRwd \<Rightarrow>
          let txo = \<lparr>Amount = feeRwd + mntRwd, LockingScript = PublicKeyBytes (m_Id m)\<rparr>
          in Some \<lparr>Segwit = False, t_Version = 0, Inputs = [], Outputs = [txo], Witnesses = [], LockTime = 0\<rparr>)"

text \<open>A found block is printed before it is sent; the arguments of the print may panic.\<close>

definition mined_log :: "('db, 'z) ext_scheme \<Rightarrow> Miner \<Rightarrow> Block \<Rightarrow> string list option" where
  "mined_log E m b = do { a \<leftarrow> FmtAddr (m_Address m); t \<leftarrow> Block_NameTag E b; s \<leftarrow> Summarize E b; Some [a, t, s] }"

definition Mine ::
  "('db, 'z) ext_scheme \<Rightarrow> u32 \<Rightarrow> Miner \<Rightarrow> u32 list option \<Rightarrow> (u32 \<Rightarrow> bool) \<Rightarrow>
   (Block option \<times> Miner \<times> miner_event list) option" where
  "Mine E oor m reply ctx_done =
     (if \<not> PriorityMet (m_TxPool m) then Some (None, m, [])
      else
        let pool = NewMiningPool (m_Config m) (m_TxPool m);
            m = m\<lparr>Mining := True, MiningPool := pool\<rparr>
        in do { coinbase \<leftarrow> GenerateCoinbaseTransaction oor m reply pool;
                b \<leftarrow> Block_New E (m_PreviousHash m) (coinbase # pool) (string_of (DifficultyTarget m));
                let (result, b) = CalculateNonce E m ctx_done b;
                let m = m\<lparr>Mining := False\<rparr>;
                if \<not> result then Some (None, m, [RequestInputSums pool])
                else if mined_log E m b = None \<or> channels_closed m then None
                else do { (m, ev) \<leftarrow> Miner_HandleBlock E m (Some b);
                          Some (Some b, m, [RequestInputSums pool, SendBlock b] @ ev) } })"

section \<open>The life of a miner\<close>

text \<open>Every state a miner can be brought into by its exported operations.\<close>

inductive miner_reaches :: "('db, 'z) ext_scheme \<Rightarrow> miner_Config \<Rightarrow> Miner \<Rightarrow> bool"
  for E :: "('db, 'z) ext_scheme" and c :: miner_Config where
  "Miner_New E c i = Some m \<Longrightarrow> miner_reaches E c m"
| "miner_reaches E c m \<Longrightarrow> miner_reaches E c (Miner_SetAddress m a)"
| "miner_reaches E c m \<Longrightarrow> miner_reaches E c (StartMiner m)"
| "miner_reaches E c m \<Longrightarrow> miner_reaches E c (SetChainLength m l)"
| "miner_reaches E c m \<Longrightarrow> miner_reaches E c (IncrementChainLength m)"
| "miner_reaches E c m \<Longrightarrow> UpdateTXPool E m txs = Some (m', ev) \<Longrightarrow> miner_reaches E c m'"
| "miner_reaches E c m \<Longrightarrow> Miner_HandleBlock E m b = Some (m', ev) \<Longrightarrow> miner_reaches E c m'"
| "miner_reaches E c m \<Longrightarrow> HandleTransaction m reply t = Some (m', ev) \<Longrightarrow> miner_reaches E c m'"
| "miner_reaches E c m \<Longrightarrow> Pause m = Some (m', ev) \<Longrightarrow> miner_reaches E c m'"
| "miner_reaches E c m \<Longrightarrow> Resume m = Some (m', ev) \<Longrightarrow> miner_reaches E c m'"
| "miner_reaches E c m \<Longrightarrow> Miner_Kill m = Some m' \<Longrightarrow> miner_reaches E c m'"
| "miner_reaches E c m \<Longrightarrow> Mine E oor m reply ctx = Some (r, m', ev) \<Longrightarrow> miner_reaches E c m'"

end
