(* ===== verification/Wallet.thy ===== *)
theory Wallet
  imports Coin_Keys Coin_Log
begin

text \<open>
  Package \<open>src/pkg/wallet\<close>.

  The key type \<open>CoinInfo\<close> of the wallet's maps holds a pointer to an output, and Go compares
  pointers by address. A pointer is therefore modelled as an address together with the output it
  points to (outputs are never written to after they are made), and a transaction in memory
  carries the addresses of its outputs. Maps are association lists with distinct keys. Where the
  result depends on the iteration order of a map, the order is an argument. The coins used by a
  request are signed with the random bits \<open>rnd\<close>.
\<close>

section \<open>State\<close>

record txo_ptr =
  ptr_addr :: nat
  ptr_obj :: TransactionOutput

record MemTx =
  mt_tx :: Transaction
  mt_addr :: "nat \<Rightarrow> nat"

record CoinInfo =
  ci_ReferenceTransactionHash :: string
  ci_OutputIndex :: u32
  ci_TransactionOutput :: txo_ptr

record wallet_Config =
  HasWallet :: bool
  TransactionReplayThreshold :: u32
  SafeBlockAmount :: u32
  TransactionVersion :: u32
  DefaultLockTime :: u32
  DefaultFee :: u32

definition wallet_DefaultConfig :: wallet_Config where
  "wallet_DefaultConfig =
     \<lparr>HasWallet = True, TransactionReplayThreshold = 3, SafeBlockAmount = 5, TransactionVersion = 0,
      DefaultLockTime = 0, DefaultFee = 5\<rparr>"

record Wallet =
  w_Config :: wallet_Config
  w_Id :: SimpleID
  w_Address :: string
  Balance :: u32
  CoinCollection :: "(CoinInfo \<times> bool) list"
  UnseenSpentCoins :: "(string \<times> CoinInfo list) list"
  UnconfirmedSpentCoins :: "(CoinInfo \<times> u32) list"
  UnconfirmedReceivedCoins :: "(CoinInfo \<times> u32) list"

definition Wallet_SetAddress :: "Wallet \<Rightarrow> string \<Rightarrow> Wallet" where
  "Wallet_SetAddress w a = w\<lparr>w_Address := a\<rparr>"

definition Wallet_New :: "wallet_Config \<Rightarrow> SimpleID \<Rightarrow> Wallet option" where
  "Wallet_New config i =
     (if \<not> HasWallet config then None
      else Some \<lparr>w_Config = config, w_Id = i, w_Address = '''', Balance = 0, CoinCollection = [],
                 UnseenSpentCoins = [], UnconfirmedSpentCoins = [], UnconfirmedReceivedCoins = []\<rparr>)"

abbreviation coin_amount :: "CoinInfo \<Rightarrow> u32" where
  "coin_amount ci \<equiv> Amount (ptr_obj (ci_TransactionOutput ci))"

section \<open>Spending\<close>

text \<open>
  The loop over the coins: it stops as soon as the running total reaches the amount and the fee.
  Signing with a nil private key panics.
\<close>

fun inputs_loop ::
  "('db, 'z) ext_scheme \<Rightarrow> PrivateKey option \<Rightarrow> (CoinInfo \<Rightarrow> nat) \<Rightarrow> u32 \<Rightarrow> CoinInfo list \<Rightarrow> u32 \<Rightarrow>
   TransactionInput list \<Rightarrow> CoinInfo list \<Rightarrow> (u32 \<times> TransactionInput list \<times> CoinInfo list) option" where
  "inputs_loop E key rnd need [] tot inputs coinInfos = Some (tot, inputs, coinInfos)"
| "inputs_loop E key rnd need (ci # cis) tot inputs coinInfos =
     (if tot \<ge> need then Some (tot, inputs, coinInfos)
      else case key of
             None \<Rightarrow> None
           | Some sk \<Rightarrow>
               let txi = \<lparr>ReferenceTransactionHash = ci_ReferenceTransactionHash ci,
                          OutputIndex = ci_OutputIndex ci,
                          UnlockingScript = MakeSignature E (rnd ci) (ptr_obj (ci_TransactionOutput ci)) sk\<rparr>
               in inputs_loop E key rnd need cis (tot + coin_amount ci) (inputs @ [txi]) (coinInfos @ [ci]))"

definition generateTransactionInputs ::
  "('db, 'z) ext_scheme \<Rightarrow> (CoinInfo \<Rightarrow> nat) \<Rightarrow> CoinInfo list \<Rightarrow> Wallet \<Rightarrow> u32 \<Rightarrow> u32 \<Rightarrow>
   (u32 \<times> TransactionInput list \<times> CoinInfo list) option" where
  "generateTransactionInputs E rnd order w amount fee =
     map_option (\<lambda>(tot, inputs, coinInfos). (tot - (amount + fee), inputs, coinInfos))
       (inputs_loop E (id_PrivateKey (w_Id w)) rnd (amount + fee) order 0 [] [])"

definition marshal_or_empty :: "bytes \<times> bool \<Rightarrow> bytes" where
  "marshal_or_empty r = (if snd r then fst r else [])"

definition generateTransactionOutputs ::
  "('db, 'z) ext_scheme \<Rightarrow> Wallet \<Rightarrow> u32 \<Rightarrow> bytes \<Rightarrow> u32 \<Rightarrow> TransactionOutput list" where
  "generateTransactionOutputs E w amount receiverPK change =
     (if receiverPK = [] then []
      else
        let myScriptB = marshal_or_empty (marshal_PayToPublicKey E
              \<lparr>p2pk_ScriptType = ScriptType_P2PK, p2pk_PublicKey = PublicKeyBytes (w_Id w)\<rparr>);
            theirScriptB = marshal_or_empty (marshal_PayToPublicKey E
              \<lparr>p2pk_ScriptType = ScriptType_P2PK, p2pk_PublicKey = receiverPK\<rparr>);
            outputs = [\<lparr>Amount = amount, LockingScript = theirScriptB\<rparr>]
        in if change \<noteq> 0 then outputs @ [\<lparr>Amount = change, LockingScript = myScriptB\<rparr>] else outputs)"

text \<open>
  The returned transaction is also the one sent on \<open>TransactionRequests\<close>. When the balance is too small the wallet prints its address,
  which may panic.
\<close>

definition RequestTransaction ::
  "('db, 'z) ext_scheme \<Rightarrow> (CoinInfo \<Rightarrow> nat) \<Rightarrow> CoinInfo list \<Rightarrow> Wallet \<Rightarrow> u32 \<Rightarrow> u32 \<Rightarrow> bytes \<Rightarrow>
   (Transaction option \<times> Wallet) option" where
  "RequestTransaction E rnd order w amount fee recipientPK =
     (if Balance w < amount + fee then map_option (\<lambda>_. (None, w)) (FmtAddr (w_Address w))
      else case generateTransactionInputs E rnd order w amount fee of
             None \<Rightarrow> None
           | Some (change, inputs, coinInfos) \<Rightarrow>
               if coinInfos = [] then Some (None, w)
               else
                 let outputs = generateTransactionOutputs E w amount recipientPK change;
                     tx = \<lparr>Segwit = False, t_Version = 0, Inputs = inputs, Outputs = outputs,
                           Witnesses = [], LockTime = 0\<rparr>
                 in Some (Some tx,
                      w\<lparr>UnseenSpentCoins := AList.update (Transaction_Hash E tx) coinInfos (UnseenSpentCoins w),
                        CoinCollection := foldl (\<lambda>m ci. AList.delete ci m) (CoinCollection w) coinInfos,
                        Balance := Balance w - (amount + fee + change)\<rparr>))"

section \<open>Blocks\<close>

definition addCoin :: "Wallet \<Rightarrow> string \<Rightarrow> u32 \<Rightarrow> txo_ptr \<Rightarrow> Wallet" where
  "addCoin w hash index output =
     (let coinInfo = \<lparr>ci_ReferenceTransactionHash = hash, ci_OutputIndex = index, ci_TransactionOutput = output\<rparr>
      in w\<lparr>UnconfirmedReceivedCoins := AList.update coinInfo 0 (UnconfirmedReceivedCoins w)\<rparr>)"

definition handleSeenCoins :: "Wallet \<Rightarrow> string \<Rightarrow> Wallet" where
  "handleSeenCoins w hash =
     (let seenCoins = (case map_of (UnseenSpentCoins w) hash of None \<Rightarrow> [] | Some cs \<Rightarrow> cs) in
      w\<lparr>UnseenSpentCoins := AList.delete hash (UnseenSpentCoins w),
        UnconfirmedSpentCoins := foldl (\<lambda>m ci. AList.update ci 0 m) (UnconfirmedSpentCoins w) seenCoins\<rparr>)"

text \<open>
  The loops of \<open>updateConfirmations\<close> visit each key of a map once and change only the entry of
  that key, so the order does not matter.
\<close>

definition confirm_spent :: "Wallet \<Rightarrow> CoinInfo \<times> u32 \<Rightarrow> Wallet" where
  "confirm_spent w e =
     (if snd e = SafeBlockAmount (w_Config w)
      then w\<lparr>CoinCollection := AList.delete (fst e) (CoinCollection w),
             UnconfirmedSpentCoins := AList.delete (fst e) (UnconfirmedSpentCoins w)\<rparr>
      else w\<lparr>UnconfirmedSpentCoins := AList.update (fst e) (snd e + 1) (UnconfirmedSpentCoins w)\<rparr>)"

definition confirm_received :: "Wallet \<Rightarrow> CoinInfo \<times> u32 \<Rightarrow> Wallet" where
  "confirm_received w e =
     (if snd e = SafeBlockAmount (w_Config w)
      then w\<lparr>CoinCollection := AList.update (fst e) True (CoinCollection w),
             Balance := Balance w + coin_amount (fst e),
             UnconfirmedReceivedCoins := AList.delete (fst e) (UnconfirmedReceivedCoins w)\<rparr>
      else w\<lparr>UnconfirmedReceivedCoins := AList.update (fst e) (snd e + 1) (UnconfirmedReceivedCoins w)\<rparr>)"

definition updateConfirmations :: "Wallet \<Rightarrow> Wallet" where
  "updateConfirmations w =
     (let w = foldl confirm_spent w (UnconfirmedSpentCoins w)
      in foldl confirm_received w (UnconfirmedReceivedCoins w))"

definition output_ptr :: "MemTx \<Rightarrow> nat \<Rightarrow> txo_ptr" where
  "output_ptr t i = \<lparr>ptr_addr = mt_addr t i, ptr_obj = Outputs (mt_tx t) ! i\<rparr>"

definition receive_output :: "('db, 'z) ext_scheme \<Rightarrow> MemTx \<Rightarrow> Wallet \<Rightarrow> nat \<Rightarrow> Wallet" where
  "receive_output E t w i =
     (let txo = output_ptr t i;
          (pK, ok) = unmarshal_PayToPublicKey E (LockingScript (ptr_obj txo))
      in if \<not> ok then w
         else if p2pk_PublicKey pK = PublicKeyBytes (w_Id w)
         then addCoin w (Transaction_Hash E (mt_tx t)) (word_of_nat i) txo
         else w)"

definition handle_tx :: "('db, 'z) ext_scheme \<Rightarrow> Wallet \<Rightarrow> MemTx \<Rightarrow> Wallet" where
  "handle_tx E w t =
     (let hash = Transaction_Hash E (mt_tx t);
          w = (if map_of (UnseenSpentCoins w) hash \<noteq> None then handleSeenCoins w hash else w)
      in foldl (receive_output E t) w [0..<length (Outputs (mt_tx t))])"

definition Wallet_HandleBlock :: "('db, 'z) ext_scheme \<Rightarrow> Wallet \<Rightarrow> MemTx list \<Rightarrow> Wallet" where
  "Wallet_HandleBlock E w txs = updateConfirmations (foldl (handle_tx E) w txs)"

section \<open>Forks\<close>

record partialInput =
  pin_ReferenceTransactionHash :: string
  pin_OutputIndex :: u32

definition coin_input :: "CoinInfo \<Rightarrow> partialInput" where
  "coin_input ci = \<lparr>pin_ReferenceTransactionHash = ci_ReferenceTransactionHash ci,
                    pin_OutputIndex = ci_OutputIndex ci\<rparr>"

definition fork_txis :: "CoinInfo list \<Rightarrow> (partialInput \<times> CoinInfo) list" where
  "fork_txis order = foldl (\<lambda>m ci. AList.update (coin_input ci) ci m) [] order"

text \<open>The local map \<open>unseen\<close> has at most one key, the hash of the transaction at hand.\<close>

definition unseen_input ::
  "(partialInput \<times> CoinInfo) list \<Rightarrow> Wallet \<times> CoinInfo list \<Rightarrow> TransactionInput \<Rightarrow> Wallet \<times> CoinInfo list" where
  "unseen_input txis s txi =
     (let (w, unseen) = s;
          pin = \<lparr>pin_ReferenceTransactionHash = ReferenceTransactionHash txi, pin_OutputIndex = OutputIndex txi\<rparr>
      in case map_of txis pin of
           None \<Rightarrow> (w, unseen)
         | Some ci \<Rightarrow>
             if (case map_of (UnconfirmedSpentCoins w) ci of None \<Rightarrow> 0 | Some n \<Rightarrow> n) < SafeBlockAmount (w_Config w)
             then (w\<lparr>UnconfirmedSpentCoins := AList.delete ci (UnconfirmedSpentCoins w)\<rparr>, unseen @ [ci])
             else (w, unseen))"

definition RemoveFromUnconfirmed :: "Wallet \<Rightarrow> txo_ptr \<Rightarrow> Wallet" where
  "RemoveFromUnconfirmed w txo =
     w\<lparr>UnconfirmedReceivedCoins :=
         filter (\<lambda>(ci, pri). \<not> (ptr_addr txo = ptr_addr (ci_TransactionOutput ci) \<and> pri < SafeBlockAmount (w_Config w)))
           (UnconfirmedReceivedCoins w)\<rparr>"

definition fork_output :: "('db, 'z) ext_scheme \<Rightarrow> MemTx \<Rightarrow> Wallet \<Rightarrow> nat \<Rightarrow> Wallet" where
  "fork_output E t w i =
     (let txo = output_ptr t i;
          (pK, ok) = unmarshal_PayToPublicKey E (LockingScript (ptr_obj txo))
      in if p2pk_PublicKey pK = PublicKeyBytes (w_Id w) then RemoveFromUnconfirmed w txo else w)"

definition fork_tx ::
  "('db, 'z) ext_scheme \<Rightarrow> (partialInput \<times> CoinInfo) list \<Rightarrow> Wallet \<Rightarrow> MemTx \<Rightarrow> Wallet" where
  "fork_tx E txis w t =
     (let (w, unseen) = foldl (unseen_input txis) (w, []) (Inputs (mt_tx t));
          w = (if unseen = [] then w
               else w\<lparr>UnseenSpentCoins := AList.update (Transaction_Hash E (mt_tx t)) unseen (UnseenSpentCoins w)\<rparr>)
      in foldl (fork_output E t) w [0..<length (Outputs (mt_tx t))])"

text \<open>The argument \<open>order\<close> is the iteration order of \<open>UnconfirmedSpentCoins\<close>; a block is the list of its transactions.\<close>

definition HandleFork ::
  "('db, 'z) ext_scheme \<Rightarrow> CoinInfo list \<Rightarrow> Wallet \<Rightarrow> MemTx list list \<Rightarrow> Wallet" where
  "HandleFork E order w blocks = foldl (fork_tx E (fork_txis order)) w (concat blocks)"

section \<open>Channels: revoked outputs and funding transactions\<close>

text \<open>\<open>PkFromSk\<close> panics on an unreadable key.\<close>

definition RevKeySuccessful :: "('db, 'z) ext_scheme \<Rightarrow> bytes \<Rightarrow> bytes \<Rightarrow> int \<Rightarrow> bool option" where
  "RevKeySuccessful E lockingScript secRevKey scriptType =
     (case PkFromSk E secRevKey of
        None \<Rightarrow> None
      | Some pubRevKey \<Rightarrow>
          Some (if scriptType = MULTI
                then (let (s, ok) = unmarshal_MultiParty E lockingScript in ok \<and> pmp_RevocationKey s = pubRevKey)
                else if scriptType = HTLC
                then (let (s, ok) = unmarshal_HashedTimeLock E lockingScript in ok \<and> phl_RevocationKey s = pubRevKey)
                else False))"

definition HandleRevokedOutput ::
  "('db, 'z) ext_scheme \<Rightarrow> nat \<Rightarrow> Wallet \<Rightarrow> string \<Rightarrow> TransactionOutput \<Rightarrow> u32 \<Rightarrow> bytes \<Rightarrow> int \<Rightarrow>
   Transaction option option" where
  "HandleRevokedOutput E rnd w hash txo outIndex secRevKey scriptType =
     (case RevKeySuccessful E (LockingScript txo) secRevKey scriptType of
        None \<Rightarrow> None
      | Some False \<Rightarrow> Some None
      | Some True \<Rightarrow>
          (let txnInput = \<lparr>ReferenceTransactionHash = hash, OutputIndex = outIndex, UnlockingScript = []\<rparr>;
               lockingScript = fst (marshal_PayToPublicKey E
                 \<lparr>p2pk_ScriptType = ScriptType_P2PK, p2pk_PublicKey = PublicKeyBytes (w_Id w)\<rparr>);
               txnOutput = \<lparr>Amount = Amount txo - DefaultFee (w_Config w), LockingScript = lockingScript\<rparr>;
               txn = \<lparr>Segwit = True, t_Version = TransactionVersion (w_Config w), Inputs = [txnInput],
                      Outputs = [txnOutput], Witnesses = [], LockTime = 0\<rparr>
           in case id_PrivateKey (w_Id w) of
                None \<Rightarrow> None
              | Some sk \<Rightarrow>
                  let sigB = (case utils_Sign E rnd sk (bytes_of (Transaction_Hash E txn)) of None \<Rightarrow> [] | Some s \<Rightarrow> s)
                  in Some (Some (txn\<lparr>Witnesses := [sigB]\<rparr>))))"

text \<open>
  The fee is counted twice in the inputs: once for the funding transaction and once for the refund
  transaction, to which it is passed on in the third output. The wallet is not changed.
\<close>

definition GenerateFundingTransaction ::
  "('db, 'z) ext_scheme \<Rightarrow> (CoinInfo \<Rightarrow> nat) \<Rightarrow> CoinInfo list \<Rightarrow> Wallet \<Rightarrow> u32 \<Rightarrow> u32 \<Rightarrow> bytes \<Rightarrow>
   Transaction option option" where
  "GenerateFundingTransaction E rnd order w amount fee counterparty =
     (case generateTransactionInputs E rnd order w (amount + fee) fee of
        None \<Rightarrow> None
      | Some (change, inputs, _) \<Rightarrow>
          let (lockingScript, ok) = marshal_MultiParty E (EncodeMultiParty
                \<lparr>mp_ScriptType = MULTI, mp_MyPublicKey = PublicKeyBytes (w_Id w), mp_TheirPublicKey = counterparty,
                 mp_RevocationKey = [], mp_AdditionalBlocks = 0\<rparr>)
          in if \<not> ok then Some None
             else Some (Some
               \<lparr>Segwit = True, t_Version = TransactionVersion (w_Config w), Inputs = inputs,
                Outputs = [\<lparr>Amount = amount, LockingScript = lockingScript\<rparr>,
                           \<lparr>Amount = 0, LockingScript = lockingScript\<rparr>,
                           \<lparr>Amount = change + fee, LockingScript = lockingScript\<rparr>],
                Witnesses = [], LockTime = DefaultLockTime (w_Config w)\<rparr>))"

end
