(* ===== verification/Peers.thy ===== *)
theory Peers
  imports Coin_Prelude "HOL-Library.AList"
begin

text \<open>
  Addresses and peers: \<open>src/pkg/address/address.go\<close>, \<open>src/pkg/address/addressdb\<close> and
  \<open>src/pkg/peer\<close>, and the handler \<open>Version\<close> that the node (\<open>src/pkg/server.go\<close>) and the
  lightning node (\<open>src/pkg/lightning/server.go\<close>) share.

  An \<open>Address\<close> object is shared between the address database and the peers that point to it,
  and it is written to through both. So addresses live in a store: a list of objects, with the
  position as the pointer. A \<open>Peer\<close> object is never written to; it carries an identity, because
  channels are kept per peer pointer. Clock readings are arguments, in nanoseconds; the zero time
  is \<^const>\<open>None\<close>.
\<close>

section \<open>Addresses\<close>

record Address =
  a_Addr :: string
  a_LastSeen :: u32
  a_SentVer :: "int option"

type_synonym addr_ptr = nat
type_synonym store = "Address list"

record pro_Address =
  pa_Addr :: string
  pa_LastSeen :: u32

definition address_New :: "string \<Rightarrow> u32 \<Rightarrow> Address" where
  "address_New addr lastSeen = \<lparr>a_Addr = addr, a_LastSeen = lastSeen, a_SentVer = None\<rparr>"

definition Address_Serialize :: "Address \<Rightarrow> pro_Address" where
  "Address_Serialize a = \<lparr>pa_Addr = a_Addr a, pa_LastSeen = a_LastSeen a\<rparr>"

definition alloc :: "store \<Rightarrow> Address \<Rightarrow> addr_ptr \<times> store" where
  "alloc s a = (length s, s @ [a])"

definition set_LastSeen :: "store \<Rightarrow> addr_ptr \<Rightarrow> u32 \<Rightarrow> store" where
  "set_LastSeen s p t = s[p := (s ! p)\<lparr>a_LastSeen := t\<rparr>]"

definition set_SentVer :: "store \<Rightarrow> addr_ptr \<Rightarrow> int \<Rightarrow> store" where
  "set_SentVer s p t = s[p := (s ! p)\<lparr>a_SentVer := Some t\<rparr>]"

subsection \<open>The address database\<close>

datatype db_error = AddressExists | AddressListFull | AddressNotFound | PeerNotFound

record EphemeralAddressDb =
  addresses :: "(string \<times> addr_ptr) list"
  adb_limit :: int

definition addressdb_New :: "int \<Rightarrow> EphemeralAddressDb" where
  "addressdb_New limit = \<lparr>addresses = [], adb_limit = limit\<rparr>"

definition adb_Add :: "store \<Rightarrow> EphemeralAddressDb \<Rightarrow> addr_ptr \<Rightarrow> (db_error + unit) \<times> EphemeralAddressDb" where
  "adb_Add s adb a =
     (if map_of (addresses adb) (a_Addr (s ! a)) \<noteq> None then (Inl AddressExists, adb)
      else if int (length (addresses adb)) \<ge> adb_limit adb then (Inl AddressListFull, adb)
      else (Inr (), adb\<lparr>addresses := AList.update (a_Addr (s ! a)) a (addresses adb)\<rparr>))"

definition adb_Get :: "EphemeralAddressDb \<Rightarrow> string \<Rightarrow> addr_ptr option" where
  "adb_Get adb addr = map_of (addresses adb) addr"

definition adb_UpdateLastSeen :: "store \<Rightarrow> EphemeralAddressDb \<Rightarrow> string \<Rightarrow> u32 \<Rightarrow> (db_error + unit) \<times> store" where
  "adb_UpdateLastSeen s adb addr lastSeen =
     (case map_of (addresses adb) addr of
        None \<Rightarrow> (Inl AddressNotFound, s)
      | Some a \<Rightarrow> (Inr (), set_LastSeen s a lastSeen))"

text \<open>Go iterates a map in any order; the lists are given in the order of the association list.\<close>

definition adb_List :: "EphemeralAddressDb \<Rightarrow> addr_ptr list" where
  "adb_List adb = map snd (addresses adb)"

definition adb_Serialize :: "store \<Rightarrow> EphemeralAddressDb \<Rightarrow> pro_Address list" where
  "adb_Serialize s adb = map (\<lambda>e. Address_Serialize (s ! snd e)) (addresses adb)"

section \<open>Peers\<close>

record Peer =
  p_ident :: nat
  p_Addr :: addr_ptr
  p_Version :: u32
  bestHeight :: u32

definition peer_New :: "nat \<Rightarrow> addr_ptr \<Rightarrow> u32 \<Rightarrow> u32 \<Rightarrow> Peer" where
  "peer_New ident addr version best = \<lparr>p_ident = ident, p_Addr = addr, p_Version = version, bestHeight = best\<rparr>"

record EphemeralPeerDb =
  peers :: "(string \<times> Peer) list"
  pdb_limit :: int
  pdb_Addr :: string

definition peer_NewDb :: "int \<Rightarrow> string \<Rightarrow> EphemeralPeerDb" where
  "peer_NewDb limit addr = \<lparr>peers = [], pdb_limit = limit, pdb_Addr = addr\<rparr>"

definition pdb_In :: "EphemeralPeerDb \<Rightarrow> string \<Rightarrow> bool" where
  "pdb_In pdb k \<longleftrightarrow> map_of (peers pdb) k \<noteq> None"

definition pdb_SetAddr :: "EphemeralPeerDb \<Rightarrow> string \<Rightarrow> EphemeralPeerDb" where
  "pdb_SetAddr pdb addr = pdb\<lparr>pdb_Addr := addr\<rparr>"

text \<open>A known peer is replaced only when the time of its last sighting differs.\<close>

definition pdb_Add :: "store \<Rightarrow> EphemeralPeerDb \<Rightarrow> Peer \<Rightarrow> bool \<times> EphemeralPeerDb" where
  "pdb_Add s pdb p =
     (let addr = a_Addr (s ! p_Addr p);
          add = (case map_of (peers pdb) addr of
                   Some oldP \<Rightarrow> a_LastSeen (s ! p_Addr p) \<noteq> a_LastSeen (s ! p_Addr oldP)
                 | None \<Rightarrow> int (length (peers pdb)) < pdb_limit pdb)
      in if add then (True, pdb\<lparr>peers := AList.update addr p (peers pdb)\<rparr>) else (False, pdb))"

definition pdb_Get :: "EphemeralPeerDb \<Rightarrow> string \<Rightarrow> Peer option" where
  "pdb_Get pdb addr = map_of (peers pdb) addr"

definition pdb_UpdateLastSeen :: "store \<Rightarrow> EphemeralPeerDb \<Rightarrow> string \<Rightarrow> u32 \<Rightarrow> (db_error + unit) \<times> store" where
  "pdb_UpdateLastSeen s pdb addr lastSeen =
     (case map_of (peers pdb) addr of
        None \<Rightarrow> (Inl PeerNotFound, s)
      | Some p \<Rightarrow> (Inr (), set_LastSeen s (p_Addr p) lastSeen))"

definition pdb_List :: "EphemeralPeerDb \<Rightarrow> Peer list" where
  "pdb_List pdb = map snd (peers pdb)"

text \<open>
  The shuffle of the keys is an argument. When the exclusion leaves fewer than \<open>n\<close> keys, slicing
  panics, or, if the slice has spare capacity, hands out nil peers that panic at their first use:
  both are \<^const>\<open>None\<close>.
\<close>

definition random_keys :: "EphemeralPeerDb \<Rightarrow> string list \<Rightarrow> string list" where
  "random_keys pdb exclude = filter (\<lambda>k. k \<notin> set exclude) (map fst (peers pdb))"

definition pdb_GetRandom ::
  "(string list \<Rightarrow> string list) \<Rightarrow> EphemeralPeerDb \<Rightarrow> int \<Rightarrow> string list \<Rightarrow> Peer list option" where
  "pdb_GetRandom shuffle pdb n exclude =
     (if n \<ge> int (length (peers pdb)) then Some (pdb_List pdb)
      else let keys = shuffle (random_keys pdb exclude)
           in if n < 0 \<or> n > int (length keys) then None
              else those (map (pdb_Get pdb) (take (nat n) keys)))"

section \<open>The handler \<open>Version\<close>\<close>

record Net =
  addr_store :: store
  AddressDB :: EphemeralAddressDb
  PeerDb :: EphemeralPeerDb
  next_peer :: nat

record pro_VersionRequest =
  pv_Version :: u32
  pv_AddrYou :: string
  pv_AddrMe :: string
  pv_BestHeight :: u32

definition net_New :: Net where
  "net_New = \<lparr>addr_store = [], AddressDB = addressdb_New 1000, PeerDb = peer_NewDb 200 '''', next_peer = 0\<rparr>"

text \<open>
  The address is looked up or added; then a new peer object with the stored address is offered to the
  peer database, and answered unless an answer is pending. The result says whether a \<open>VersionRPC\<close>
  is sent back. \<open>now1\<close>, \<open>now2\<close> and \<open>now3\<close> are the three readings of the clock.
\<close>

definition known_address :: "Net \<Rightarrow> string \<Rightarrow> u32 \<Rightarrow> Net option" where
  "known_address net addr seen =
     (let (p, s) = alloc (addr_store net) (address_New addr seen) in
      if adb_Get (AddressDB net) addr \<noteq> None
      then (case adb_UpdateLastSeen s (AddressDB net) addr seen of
              (Inl _, _) \<Rightarrow> None
            | (Inr _, s) \<Rightarrow> Some (net\<lparr>addr_store := s\<rparr>))
      else (case adb_Add s (AddressDB net) p of
              (Inl _, _) \<Rightarrow> None
            | (Inr _, adb) \<Rightarrow> Some (net\<lparr>addr_store := s, AddressDB := adb\<rparr>)))"

definition pending_version :: "store \<Rightarrow> addr_ptr \<Rightarrow> int \<Rightarrow> int \<Rightarrow> bool" where
  "pending_version s a timeout now =
     (case a_SentVer (s ! a) of None \<Rightarrow> False | Some t \<Rightarrow> t + timeout > now)"

text \<open>
  The common part of the two handlers \<open>Version\<close>, up to the call that replies. \<open>VersionRPC\<close> runs on the address object made for this
  message and writes its \<open>SentVer\<close> after the call. Where the sender was not known before, that object is the stored one, whose time then
  moves from \<open>now3\<close> to the end of the call; this second write is left out.
\<close>

definition accept_version ::
  "int \<Rightarrow> int \<times> int \<times> int \<Rightarrow> Net \<Rightarrow> pro_VersionRequest \<Rightarrow> bool \<times> Net" where
  "accept_version timeout clock net req =
     (let (now1, now2, now3) = clock in
      case known_address net (pv_AddrMe req) (word_of_int now1) of
        None \<Rightarrow> (False, net\<lparr>addr_store := addr_store net @ [address_New (pv_AddrMe req) (word_of_int now1)]\<rparr>)
      | Some net \<Rightarrow>
          (case adb_Get (AddressDB net) (pv_AddrMe req) of
             None \<Rightarrow> (False, net)
           | Some a \<Rightarrow>
               let newPeer = peer_New (next_peer net) a (pv_Version req) (pv_BestHeight req);
                   pendingVer = pending_version (addr_store net) a timeout now2;
                   (added, pdb) = pdb_Add (addr_store net) (PeerDb net) newPeer;
                   net = net\<lparr>PeerDb := pdb, next_peer := next_peer net + 1\<rparr>
               in if added \<and> \<not> pendingVer
                  then (True, net\<lparr>addr_store := set_SentVer (addr_store net) a now3\<rparr>)
                  else (False, net)))"

section \<open>The invariant\<close>

text \<open>
  Every peer points to the address object the address database holds under the same key, and the
  databases stay within their limits.
\<close>

definition net_ok :: "Net \<Rightarrow> bool" where
  "net_ok net \<longleftrightarrow>
     (\<forall>k a. map_of (addresses (AddressDB net)) k = Some a \<longrightarrow>
        a < length (addr_store net) \<and> a_Addr (addr_store net ! a) = k) \<and>
     (\<forall>k p. map_of (peers (PeerDb net)) k = Some p \<longrightarrow>
        map_of (addresses (AddressDB net)) k = Some (p_Addr p) \<and> p_ident p < next_peer net) \<and>
     int (length (addresses (AddressDB net))) \<le> adb_limit (AddressDB net) \<and>
     int (length (peers (PeerDb net))) \<le> pdb_limit (PeerDb net)"

lemma set_LastSeen_simps [simp]:
  "length (set_LastSeen s p t) = length s" "q < length s \<Longrightarrow> a_Addr (set_LastSeen s p t ! q) = a_Addr (s ! q)"
  by (cases "p < length s"; auto simp: set_LastSeen_def nth_list_update)+

lemma set_SentVer_simps [simp]:
  "length (set_SentVer s p t) = length s" "q < length s \<Longrightarrow> a_Addr (set_SentVer s p t ! q) = a_Addr (s ! q)"
  by (cases "p < length s"; auto simp: set_SentVer_def nth_list_update)+

lemma net_ok_store:
  assumes "net_ok net" and "length (addr_store net) \<le> length s"
    and "\<And>q. q < length (addr_store net) \<Longrightarrow> a_Addr (s ! q) = a_Addr (addr_store net ! q)"
  shows "net_ok (net\<lparr>addr_store := s\<rparr>)"
  using assms unfolding net_ok_def by (fastforce dest: order_less_le_trans)

lemma net_ok_set_LastSeen: "net_ok net \<Longrightarrow> net_ok (net\<lparr>addr_store := set_LastSeen (addr_store net) p t\<rparr>)"
  by (rule net_ok_store) simp_all

lemma net_ok_alloc: "net_ok net \<Longrightarrow> net_ok (net\<lparr>addr_store := addr_store net @ [a]\<rparr>)"
  by (rule net_ok_store) (simp_all add: nth_append)

lemma length_AList_update:
  "length (AList.update k v m) = (if map_of m k = None then length m + 1 else length m)"
  by (induction m) auto

lemma known_address_ok:
  assumes ok: "net_ok net" and known: "known_address net addr seen = Some net'"
  shows "net_ok net' \<and> PeerDb net' = PeerDb net \<and> next_peer net' = next_peer net \<and>
    (\<exists>a. map_of (addresses (AddressDB net')) addr = Some a)"
proof (cases "map_of (addresses (AddressDB net)) addr")
  case None
  let ?s = "addr_store net @ [address_New addr seen]"
  have "int (length (addresses (AddressDB net))) < adb_limit (AddressDB net)"
    and net': "net' = net\<lparr>addr_store := ?s, AddressDB := (AddressDB net)
      \<lparr>addresses := AList.update addr (length (addr_store net)) (addresses (AddressDB net))\<rparr>\<rparr>"
    using known None
    by (auto simp: known_address_def alloc_def adb_Get_def adb_Add_def address_New_def split: if_splits)
  moreover have "net_ok (net\<lparr>addr_store := ?s\<rparr>)" by (rule net_ok_alloc [OF ok])
  ultimately show ?thesis
    using None ok
    by (auto simp: net_ok_def update_conv' length_AList_update nth_append address_New_def split: if_splits)
next
  case (Some a)
  then have net': "net' = net\<lparr>addr_store := set_LastSeen (addr_store net @ [address_New addr seen]) a seen\<rparr>"
    using known by (auto simp: known_address_def alloc_def adb_Get_def adb_UpdateLastSeen_def)
  have "net_ok (net\<lparr>addr_store := set_LastSeen (addr_store net @ [address_New addr seen]) a seen\<rparr>)"
    by (rule net_ok_store [OF ok]) (simp_all add: nth_append)
  then show ?thesis using net' Some by simp
qed

lemma accept_version_known:
  assumes "net_ok net" and "known_address net (pv_AddrMe req) seen = Some net1"
    and "map_of (addresses (AddressDB net1)) (pv_AddrMe req) = Some a"
    and "pdb_Add (addr_store net1) (PeerDb net1) (peer_New i a v h) = (added, pdb)"
  shows "if map_of (peers (PeerDb net)) (pv_AddrMe req) = None \<and> int (length (peers (PeerDb net))) < pdb_limit (PeerDb net)
    then added \<and> pdb = (PeerDb net)\<lparr>peers := AList.update (pv_AddrMe req) (peer_New i a v h) (peers (PeerDb net))\<rparr>
    else \<not> added \<and> pdb = PeerDb net"
proof -
  have ok: "net_ok net1" "PeerDb net1 = PeerDb net" using known_address_ok [OF assms(1,2)] by simp_all
  then have addr: "a_Addr (addr_store net1 ! a) = pv_AddrMe req" using assms(3) by (simp add: net_ok_def)
  have "p_Addr p = a" if "map_of (peers (PeerDb net)) (pv_AddrMe req) = Some p" for p
    using ok assms(3) that by (simp add: net_ok_def)
  then show ?thesis
    using assms(4) addr ok(2) by (auto simp: pdb_Add_def peer_New_def Let_def split: option.splits if_splits)
qed

lemma accept_version_ok:
  assumes ok: "net_ok net" and acc: "accept_version timeout clock net req = (reply, net')"
  shows "net_ok net' \<and> (\<forall>k p. pdb_Get (PeerDb net) k = Some p \<longrightarrow> pdb_Get (PeerDb net') k = Some p) \<and>
    (reply \<longrightarrow> pdb_Get (PeerDb net) (pv_AddrMe req) = None \<and> pdb_Get (PeerDb net') (pv_AddrMe req) \<noteq> None)"
proof -
  obtain now1 now2 now3 where clock: "clock = (now1, now2, now3)" by (metis prod_cases3)
  show ?thesis
  proof (cases "known_address net (pv_AddrMe req) (word_of_int now1)")
    case None
    then show ?thesis using acc clock net_ok_alloc [OF ok] by (auto simp: accept_version_def)
  next
    case (Some net1)
    note n1 = known_address_ok [OF ok Some]
    obtain a where a: "map_of (addresses (AddressDB net1)) (pv_AddrMe req) = Some a" using n1 by blast
    obtain added pdb where add: "pdb_Add (addr_store net1) (PeerDb net1)
        (peer_New (next_peer net1) a (pv_Version req) (pv_BestHeight req)) = (added, pdb)" by fastforce
    let ?net2 = "net1\<lparr>PeerDb := pdb, next_peer := next_peer net1 + 1\<rparr>"
    have net2: "net_ok ?net2"
      using accept_version_known [OF ok Some a add] n1 a
      by (auto simp: net_ok_def update_conv' length_AList_update peer_New_def less_Suc_eq split: if_splits)
    have net': "net' = ?net2 \<or> net' = ?net2\<lparr>addr_store := set_SentVer (addr_store ?net2) a now3\<rparr>" "reply \<longrightarrow> added"
      using acc clock Some a add by (auto simp: accept_version_def adb_Get_def Let_def split: if_splits)
    have "net_ok net'" using net'(1) net2 net_ok_store [OF net2, of "set_SentVer (addr_store ?net2) a now3"] by auto
    moreover have "PeerDb net' = pdb" using net'(1) by auto
    ultimately show ?thesis
      using accept_version_known [OF ok Some a add] net'(2)
      by (auto simp: pdb_Get_def update_conv' split: if_splits)
  qed
qed

text \<open>
  A version request keeps the databases consistent and within their limits, never replaces or
  removes a known peer, and is answered only when the sender was not a peer before and is one
  now. A known peer points to the very address object that the request updates, so the comparison
  of sighting times that should replace it always fails.
\<close>

theorem version_keeps_peers:
  assumes "net_ok net" and "accept_version timeout clock net req = (reply, net')"
  shows "net_ok net' \<and> (\<forall>k p. pdb_Get (PeerDb net) k = Some p \<longrightarrow> pdb_Get (PeerDb net') k = Some p) \<and>
    (reply \<longrightarrow> pdb_Get (PeerDb net) (pv_AddrMe req) = None \<and> pdb_Get (PeerDb net') (pv_AddrMe req) \<noteq> None)"
  by (rule accept_version_ok [OF assms])

lemma net_New_ok: "net_ok net_New"
  by (simp add: net_ok_def net_New_def addressdb_New_def peer_NewDb_def)

theorem version_keeps_peers_witness:
  "\<exists>net. accept_version 2 (1, 2, 3) net_New \<lparr>pv_Version = 0, pv_AddrYou = ''b'', pv_AddrMe = ''a'', pv_BestHeight = 1\<rparr> =
     (True, net) \<and> net_ok net \<and> pdb_Get (PeerDb net) ''a'' \<noteq> None"
proof -
  obtain net where v: "accept_version 2 (1, 2, 3) net_New
      \<lparr>pv_Version = 0, pv_AddrYou = ''b'', pv_AddrMe = ''a'', pv_BestHeight = 1\<rparr> = (True, net)"
    by (simp add: accept_version_def known_address_def alloc_def adb_Get_def adb_Add_def net_New_def addressdb_New_def
        peer_NewDb_def address_New_def peer_New_def pdb_Add_def pending_version_def Let_def)
  from version_keeps_peers [OF net_New_ok v] v show ?thesis by auto
qed

end
