(* ===== verification/Lightning.thy ===== *)
theory Lightning
  imports Wallet Peers
begin

text \<open>
  Package \<open>src/pkg/lightning\<close>: payment channels between two nodes, the handlers of the lightning
  server, and the watch tower.

  The channels are kept per peer pointer, so their map is keyed by the identity of the peer. A remote
  call is a function from the request to the response, \<^const>\<open>None\<close> for an error; an operation
  that makes calls takes such functions as arguments. The random bits of a key or a signature are
  arguments. The reply of the wallet to a request on \<open>GetTransactionFromWallet\<close> is an argument,
  \<^const>\<open>None\<close> for the timeout. Starting and stopping the gRPC server is input and output and has
  no effect on the state that is modelled.
\<close>

section \<open>State\<close>

record lightning_Config =
  lc_LockTime :: u32
  lc_AdditionalBlocks :: u32
  lc_Version :: u32
  lc_Port :: int
  lc_VersionTimeout :: int

definition lightning_DefaultConfig :: "int \<Rightarrow> lightning_Config" where
  "lightning_DefaultConfig port =
     \<lparr>lc_LockTime = 10, lc_AdditionalBlocks = 0, lc_Version = 0, lc_Port = port, lc_VersionTimeout = 2000000000\<rparr>"

record RevocationInfo =
  RevKey :: bytes
  ri_TransactionOutput :: TransactionOutput
  ri_OutputIndex :: u32
  TransactionHash :: string
  ri_ScriptType :: int

record Channel =
  Funder :: bool
  FundingTransaction :: Transaction
  ch_State :: int
  CounterPartyPubKey :: bytes
  MyTransactions :: "Transaction list"
  TheirTransactions :: "Transaction list"
  MyRevocationKeys :: "(string \<times> bytes) list"
  TheirRevocationKeys :: "(string \<times> RevocationInfo) list"

record LightningNode =
  ln_Config :: lightning_Config
  ln_Address :: string
  ln_Id :: SimpleID
  BlockHeight :: u32
  Channels :: "(nat \<times> Channel) list"
  ln_net :: Net

record WalletRequest =
  wr_Amount :: u32
  wr_Fee :: u32
  wr_CounterPartyPubKey :: bytes

text \<open>When key generation fails, the code keeps a nil identity, whose first use panics; here it is the error.\<close>

definition lightning_New :: "('db, 'z) ext_scheme \<Rightarrow> nat \<Rightarrow> lightning_Config \<Rightarrow> key_error + LightningNode" where
  "lightning_New E rnd config =
     (case id_New E rnd of
        Inl e \<Rightarrow> Inl e
      | Inr i \<Rightarrow> Inr \<lparr>ln_Config = config, ln_Address = '''', ln_Id = i, BlockHeight = 0, Channels = [], ln_net = net_New\<rparr>)"

definition ln_SetAddress :: "LightningNode \<Rightarrow> string \<Rightarrow> LightningNode" where
  "ln_SetAddress ln address = ln\<lparr>ln_Address := address\<rparr>"

definition ln_Start :: "string \<Rightarrow> LightningNode \<Rightarrow> LightningNode" where
  "ln_Start hostname ln =
     (let addr = hostname @ '':'' @ string_of_int (lc_Port (ln_Config ln)); net = ln_net ln
      in ln\<lparr>ln_Address := addr, ln_net := net\<lparr>PeerDb := pdb_SetAddr (PeerDb net) addr\<rparr>\<rparr>)"

definition IncrementBlockHeight :: "LightningNode \<Rightarrow> LightningNode" where
  "IncrementBlockHeight ln = ln\<lparr>BlockHeight := BlockHeight ln + 1\<rparr>"

definition ln_ConnectToPeer :: "LightningNode \<Rightarrow> string \<Rightarrow> pro_VersionRequest" where
  "ln_ConnectToPeer ln addr =
     \<lparr>pv_Version = lc_Version (ln_Config ln), pv_AddrYou = addr, pv_AddrMe = ln_Address ln, pv_BestHeight = BlockHeight ln\<rparr>"

text \<open>The handler \<open>Version\<close>, with the request it sends back.\<close>

definition ln_Version ::
  "int \<times> int \<times> int \<Rightarrow> LightningNode \<Rightarrow> pro_VersionRequest \<Rightarrow> pro_VersionRequest option \<times> LightningNode" where
  "ln_Version clock ln req =
     (if pv_Version req \<noteq> lc_Version (ln_Config ln) then (None, ln)
      else let (reply, net) = accept_version (lc_VersionTimeout (ln_Config ln)) clock (ln_net ln) req in
           (if reply then Some \<lparr>pv_Version = lc_Version (ln_Config ln), pv_AddrYou = pv_AddrYou req,
                                pv_AddrMe = ln_Address ln, pv_BestHeight = BlockHeight ln\<rparr>
            else None,
            ln\<lparr>ln_net := net\<rparr>))"

section \<open>Signing (\<open>validation.go\<close>)\<close>

definition ln_ValidateTransaction :: "LightningNode \<Rightarrow> Transaction \<Rightarrow> bool" where
  "ln_ValidateTransaction ln tx = True"

datatype ln_error = InvalidTransaction | SignError | UnknownScript

text \<open>Both signers append to the witnesses of the transaction; a nil private key panics.\<close>

definition ValidateAndSign ::
  "('db, 'z) ext_scheme \<Rightarrow> nat \<Rightarrow> LightningNode \<Rightarrow> Transaction \<Rightarrow> (ln_error + Transaction) option" where
  "ValidateAndSign E rnd ln tx =
     (if \<not> ln_ValidateTransaction ln tx then Some (Inl InvalidTransaction)
      else case id_PrivateKey (ln_Id ln) of
             None \<Rightarrow> None
           | Some sk \<Rightarrow>
               (case utils_Sign E rnd sk (bytes_of (Transaction_Hash E tx)) of
                  None \<Rightarrow> Some (Inl SignError)
                | Some signature \<Rightarrow> Some (Inr (tx\<lparr>Witnesses := Witnesses tx @ [signature]\<rparr>))))"

definition SignTransaction ::
  "('db, 'z) ext_scheme \<Rightarrow> nat \<Rightarrow> LightningNode \<Rightarrow> Transaction \<Rightarrow> Transaction option" where
  "SignTransaction E rnd ln tx =
     (case id_PrivateKey (ln_Id ln) of
        None \<Rightarrow> None
      | Some sk \<Rightarrow>
          (case utils_Sign E rnd sk (bytes_of (Transaction_Hash E tx)) of
             None \<Rightarrow> Some tx
           | Some signature \<Rightarrow> Some (tx\<lparr>Witnesses := Witnesses tx @ [signature]\<rparr>)))"

section \<open>Transactions of a channel (\<open>lightningnode.go\<close>, \<open>channel.go\<close>)\<close>

definition GenerateRevocationKey :: "('db, 'z) ext_scheme \<Rightarrow> nat \<Rightarrow> (bytes \<times> bytes) option" where
  "GenerateRevocationKey E rnd =
     (case CreateSimpleID E rnd of
        Inl _ \<Rightarrow> None
      | Inr i \<Rightarrow> Some (PublicKeyBytes i, PrivateKeyBytes i))"

text \<open>The wallet may answer with a nil transaction, and so may the timeout.\<close>

type_synonym wallet_reply = "WalletRequest \<Rightarrow> Transaction option option"

definition getTransactionFromWallet :: "wallet_reply \<Rightarrow> WalletRequest \<Rightarrow> Transaction option" where
  "getTransactionFromWallet wallet request = (case wallet request of None \<Rightarrow> None | Some tx \<Rightarrow> tx)"

definition ln_generateFundingTransaction :: "wallet_reply \<Rightarrow> WalletRequest \<Rightarrow> Transaction option" where
  "ln_generateFundingTransaction wallet request = getTransactionFromWallet wallet request"

text \<open>
  The third output is read whenever there is any output, so a funding transaction with one or two
  outputs panics, and so does one without outputs, at the first.
\<close>

definition generateRefundTransaction ::
  "('db, 'z) ext_scheme \<Rightarrow> nat \<Rightarrow> LightningNode \<Rightarrow> bytes \<Rightarrow> Transaction \<Rightarrow> u32 \<Rightarrow> bytes \<Rightarrow> Transaction option" where
  "generateRefundTransaction E rnd ln theirPubKey fundingTx fee revKey =
     (let input = (\<lambda>i. \<lparr>ReferenceTransactionHash = Transaction_Hash E fundingTx, OutputIndex = i,
                        UnlockingScript = PublicKeyBytes (ln_Id ln)\<rparr>);
          inputs = (if length (Outputs fundingTx) > 2 then [input 0, input 2] else [input 0]);
          scriptB = fst (marshal_MultiParty E
            \<lparr>pmp_ScriptType = ScriptType_MULTI, pmp_MyPublicKey = PublicKeyBytes (ln_Id ln),
             pmp_TheirPublicKey = theirPubKey, pmp_RevocationKey = revKey,
             pmp_AdditionalBlocks = lc_AdditionalBlocks (ln_Config ln)\<rparr>)
      in do { change \<leftarrow> (if length (Outputs fundingTx) > 0
                         then map_option (\<lambda>txo. if Amount txo > fee then Amount txo - fee else 0)
                                (slice_get (Outputs fundingTx) 2)
                         else Some 0);
              first \<leftarrow> slice_get (Outputs fundingTx) 0;
              let refund = \<lparr>Segwit = True, t_Version = t_Version fundingTx, Inputs = inputs,
                            Outputs = [\<lparr>Amount = Amount first + change, LockingScript = scriptB\<rparr>],
                            Witnesses = [], LockTime = BlockHeight ln + lc_LockTime (ln_Config ln)\<rparr>;
              sk \<leftarrow> id_PrivateKey (ln_Id ln);
              Some (refund\<lparr>Witnesses := [Transaction_Sign E rnd refund sk]\<rparr>) })"

text \<open>Our own version of a channel transaction: our output can be revoked, theirs is paid to their key.\<close>

definition generateTransactionWithCorrectScripts ::
  "('db, 'z) ext_scheme \<Rightarrow> LightningNode \<Rightarrow> Channel \<Rightarrow> Transaction \<Rightarrow> bytes \<Rightarrow> Transaction option" where
  "generateTransactionWithCorrectScripts E ln channel theirTx pubRevKey =
     (let myScript = fst (marshal_MultiParty E
            \<lparr>pmp_ScriptType = ScriptType_MULTI, pmp_MyPublicKey = PublicKeyBytes (ln_Id ln),
             pmp_TheirPublicKey = CounterPartyPubKey channel, pmp_RevocationKey = pubRevKey,
             pmp_AdditionalBlocks = lc_AdditionalBlocks (ln_Config ln)\<rparr>);
          theirScript = fst (marshal_PayToPublicKey E
            \<lparr>p2pk_ScriptType = ScriptType_P2PK, p2pk_PublicKey = CounterPartyPubKey channel\<rparr>)
      in do { out0 \<leftarrow> slice_get (Outputs theirTx) 0;
              out1 \<leftarrow> slice_get (Outputs theirTx) 1;
              let outputs = (if Funder channel
                then [\<lparr>Amount = Amount out0, LockingScript = myScript\<rparr>, \<lparr>Amount = Amount out1, LockingScript = theirScript\<rparr>]
                else [\<lparr>Amount = Amount out0, LockingScript = theirScript\<rparr>, \<lparr>Amount = Amount out1, LockingScript = myScript\<rparr>]);
              let outputs = (if length (Outputs theirTx) = 3 then outputs @ [Outputs theirTx ! 2] else outputs);
              Some \<lparr>Segwit = Segwit theirTx, t_Version = t_Version theirTx, Inputs = Inputs theirTx,
                    Outputs = outputs, Witnesses = [], LockTime = LockTime theirTx\<rparr> })"

section \<open>Opening a channel\<close>

text \<open>
  \<open>CreateChannel\<close>: the request it sends, and the node and the transaction to broadcast after the
  response.
\<close>

definition CreateChannel_request ::
  "('db, 'z) ext_scheme \<Rightarrow> nat \<Rightarrow> nat \<Rightarrow> wallet_reply \<Rightarrow> LightningNode \<Rightarrow> bytes \<Rightarrow> u32 \<Rightarrow> u32 \<Rightarrow>
   (pro_OpenChannelRequest \<times> (string \<times> bytes) list) option" where
  "CreateChannel_request E rnd1 rnd2 wallet ln theirPubKey amount fee =
     do { let wr = \<lparr>wr_Amount = amount, wr_Fee = fee, wr_CounterPartyPubKey = theirPubKey\<rparr>;
          (publicKey, privateKey) \<leftarrow> GenerateRevocationKey E rnd1;
          fund \<leftarrow> ln_generateFundingTransaction wallet wr;
          refund \<leftarrow> generateRefundTransaction E rnd2 ln theirPubKey fund fee publicKey;
          Some (\<lparr>pocq_Address = ln_Address ln, pocq_PublicKey = PublicKeyBytes (ln_Id ln),
                 pocq_FundingTransaction = Some (EncodeTransaction fund),
                 pocq_RefundTransaction = Some (EncodeTransaction refund)\<rparr>,
                [(Transaction_Hash E refund, privateKey)]) }"

definition CreateChannel ::
  "('db, 'z) ext_scheme \<Rightarrow> nat \<Rightarrow> nat \<Rightarrow> wallet_reply \<Rightarrow> (pro_OpenChannelRequest \<Rightarrow> pro_OpenChannelResponse option) \<Rightarrow>
   LightningNode \<Rightarrow> Peer \<Rightarrow> bytes \<Rightarrow> u32 \<Rightarrow> u32 \<Rightarrow> (LightningNode \<times> Transaction list) option" where
  "CreateChannel E rnd1 rnd2 wallet rpc ln peer theirPubKey amount fee =
     do { (chanReq, myRevKey) \<leftarrow> CreateChannel_request E rnd1 rnd2 wallet ln theirPubKey amount fee;
          (case rpc chanReq of
             None \<Rightarrow> Some (ln, [])
           | Some res \<Rightarrow>
               let fundTxn = DecodeTransaction (pocr_SignedFundingTransaction res);
                   refundTxn = DecodeTransaction (pocr_SignedRefundTransaction res);
                   channel = \<lparr>Funder = True, FundingTransaction = fundTxn, ch_State = 0,
                              CounterPartyPubKey = theirPubKey, MyTransactions = [refundTxn],
                              TheirTransactions = [refundTxn], MyRevocationKeys = myRevKey,
                              TheirRevocationKeys = []\<rparr>
               in Some (ln\<lparr>Channels := AList.update (p_ident peer) channel (Channels ln)\<rparr>, [fundTxn])) }"

text \<open>\<open>OpenChannel\<close> answers with nil and no error when the sender is no peer or has a channel already.\<close>

definition OpenChannel ::
  "('db, 'z) ext_scheme \<Rightarrow> nat \<times> nat \<times> nat \<Rightarrow> LightningNode \<Rightarrow> pro_OpenChannelRequest \<Rightarrow>
   ((ln_error + pro_OpenChannelResponse option) \<times> LightningNode) option" where
  "OpenChannel E rnds ln req =
     (let (rnd1, rnd2, rnd3) = rnds in
      case pdb_Get (PeerDb (ln_net ln)) (pocq_Address req) of
        None \<Rightarrow> Some (Inr None, ln)
      | Some sender \<Rightarrow>
          if map_of (Channels ln) (p_ident sender) \<noteq> None then Some (Inr None, ln)
          else
            do { errFund \<leftarrow> ValidateAndSign E rnd1 ln (DecodeTransaction (pocq_FundingTransaction req));
                 errRefund \<leftarrow> ValidateAndSign E rnd2 ln (DecodeTransaction (pocq_RefundTransaction req));
                 (case errFund of
                    Inl e \<Rightarrow> Some (Inl e, ln)
                  | Inr fund \<Rightarrow>
                      (case errRefund of
                         Inl e \<Rightarrow> Some (Inl e, ln)
                       | Inr refund \<Rightarrow>
                           do { (publicKey, privateKey) \<leftarrow> GenerateRevocationKey E rnd3;
                                let createdChannel =
                                  \<lparr>Funder = False, FundingTransaction = fund, ch_State = 0,
                                   CounterPartyPubKey = pocq_PublicKey req, MyTransactions = [refund],
                                   TheirTransactions = [refund],
                                   MyRevocationKeys = [(Transaction_Hash E refund, privateKey)],
                                   TheirRevocationKeys = []\<rparr>;
                                Some (Inr (Some \<lparr>pocr_PublicKey = publicKey,
                                                 pocr_SignedFundingTransaction = Some (EncodeTransaction fund),
                                                 pocr_SignedRefundTransaction = Some (EncodeTransaction refund)\<rparr>),
                                      ln\<lparr>Channels := AList.update (p_ident sender) createdChannel (Channels ln)\<rparr>) })) })"

section \<open>Updating a channel\<close>

definition get_channel :: "LightningNode \<Rightarrow> Peer \<Rightarrow> Channel option" where
  "get_channel ln peer = map_of (Channels ln) (p_ident peer)"

definition set_channel :: "LightningNode \<Rightarrow> Peer \<Rightarrow> Channel \<Rightarrow> LightningNode" where
  "set_channel ln peer channel = ln\<lparr>Channels := AList.update (p_ident peer) channel (Channels ln)\<rparr>"

definition GetUpdatedTransactions ::
  "('db, 'z) ext_scheme \<Rightarrow> nat \<Rightarrow> nat \<Rightarrow> LightningNode \<Rightarrow> pro_TransactionWithAddress \<Rightarrow>
   (pro_UpdatedTransactions option \<times> LightningNode) option" where
  "GetUpdatedTransactions E rnd1 rnd2 ln req =
     (case pdb_Get (PeerDb (ln_net ln)) (pta_Address req) of
        None \<Rightarrow> Some (None, ln)
      | Some peer \<Rightarrow>
          do { txn \<leftarrow> SignTransaction E rnd1 ln (DecodeTransaction (pta_Transaction req));
               (publicKey, privateKey) \<leftarrow> GenerateRevocationKey E rnd2;
               channel \<leftarrow> get_channel ln peer;
               newlySignedTxn \<leftarrow> generateTransactionWithCorrectScripts E ln channel txn publicKey;
               let channel = channel\<lparr>TheirTransactions := TheirTransactions channel @ [txn],
                 MyRevocationKeys := AList.update (Transaction_Hash E newlySignedTxn) privateKey (MyRevocationKeys channel)\<rparr>;
               Some (Some \<lparr>put_SignedTransaction = Some (EncodeTransaction txn),
                           put_UnsignedTransaction = Some (EncodeTransaction newlySignedTxn)\<rparr>,
                     set_channel ln peer channel) })"

text \<open>
  \<open>GetRevocationKey\<close> answers with a nil message for an unknown peer, with the error for an unknown
  script; a missing entry of \<open>MyRevocationKeys\<close> is the empty key.
\<close>

definition GetRevocationKey ::
  "('db, 'z) ext_scheme \<Rightarrow> LightningNode \<Rightarrow> pro_SignedTransactionWithKey \<Rightarrow>
   ((ln_error + bytes option) \<times> LightningNode) option" where
  "GetRevocationKey E ln req =
     (case pdb_Get (PeerDb (ln_net ln)) (psk_Address req) of
        None \<Rightarrow> Some (Inr None, ln)
      | Some peer \<Rightarrow>
          do { channel \<leftarrow> get_channel ln peer;
               let txn = DecodeTransaction (psk_SignedTransaction req);
               let channel = channel\<lparr>MyTransactions := MyTransactions channel @ [txn]\<rparr>;
               let theirCoin = (if Funder channel then 0 else 1);
               ptx \<leftarrow> psk_SignedTransaction req;
               pout \<leftarrow> slice_get (pt_Outputs ptx) theirCoin;
               (case DetermineScriptType E (po_LockingScript pout) of
                  (_, False) \<Rightarrow> Some (Inl UnknownScript, set_channel ln peer channel)
                | (scriptType, True) \<Rightarrow>
                    do { txo \<leftarrow> slice_get (Outputs txn) theirCoin;
                         let revInfo = \<lparr>RevKey = psk_RevocationKey req, ri_TransactionOutput = txo,
                                        ri_OutputIndex = word_of_nat theirCoin,
                                        TransactionHash = Transaction_Hash E txn, ri_ScriptType = scriptType\<rparr>;
                         let channel = channel\<lparr>
                           TheirRevocationKeys := AList.update (Transaction_Hash E txn) revInfo (TheirRevocationKeys channel),
                           ch_State := ch_State channel + 1\<rparr>;
                         let myRevKey = (case map_of (MyRevocationKeys channel) (Transaction_Hash E txn) of
                                           None \<Rightarrow> [] | Some k \<Rightarrow> k);
                         Some (Inr (Some myRevKey), set_channel ln peer channel) }) })"

text \<open>
  \<open>UpdateState\<close>: a failed first call, or no channel with the peer, panics; a failed second call leaves
  the channel with the new transactions but in the old state. The second request is returned as well.
\<close>

definition UpdateState ::
  "('db, 'z) ext_scheme \<Rightarrow> nat \<Rightarrow> (pro_TransactionWithAddress \<Rightarrow> pro_UpdatedTransactions option) \<Rightarrow>
   (pro_SignedTransactionWithKey \<Rightarrow> bytes option) \<Rightarrow> LightningNode \<Rightarrow> Peer \<Rightarrow> Transaction \<Rightarrow>
   (LightningNode \<times> pro_SignedTransactionWithKey) option" where
  "UpdateState E rnd rpc1 rpc2 ln peer tx =
     do { updated \<leftarrow> rpc1 (EncodeTransactionWithAddress tx (ln_Address ln));
          let signedtxn = DecodeTransaction (put_SignedTransaction updated);
          let unsignedtxn = DecodeTransaction (put_UnsignedTransaction updated);
          channel \<leftarrow> get_channel ln peer;
          unsignedtxn \<leftarrow> SignTransaction E rnd ln unsignedtxn;
          let channel = channel\<lparr>MyTransactions := MyTransactions channel @ [signedtxn],
                                 TheirTransactions := TheirTransactions channel @ [unsignedtxn]\<rparr>;
          let req = \<lparr>psk_SignedTransaction = Some (EncodeTransaction unsignedtxn),
                     psk_RevocationKey = (case map_of (MyRevocationKeys channel) (Transaction_Hash E tx) of
                                            None \<Rightarrow> [] | Some k \<Rightarrow> k),
                     psk_Address = ln_Address ln\<rparr>;
          (case rpc2 req of
             None \<Rightarrow> Some (set_channel ln peer channel, req)
           | Some theirRevKey \<Rightarrow>
               do { let theirCoin = (if Funder channel then 1 else 0);
                    txo \<leftarrow> slice_get (Outputs unsignedtxn) theirCoin;
                    let revInfo = \<lparr>RevKey = theirRevKey, ri_TransactionOutput = txo,
                                   ri_OutputIndex = word_of_nat theirCoin,
                                   TransactionHash = Transaction_Hash E unsignedtxn,
                                   ri_ScriptType = fst (DetermineScriptType E (LockingScript txo))\<rparr>;
                    Some (set_channel ln peer (channel\<lparr>ch_State := ch_State channel + 1,
                      TheirRevocationKeys := AList.update (Transaction_Hash E tx) revInfo (TheirRevocationKeys channel)\<rparr>), req) }) }"

section \<open>The watch tower\<close>

text \<open>The map of keys is nil when it was never made: reading a nil map finds nothing, writing to it panics.\<close>

record WatchTower =
  wt_Id :: SimpleID
  wt_RevocationKeys :: "(string \<times> RevocationInfo) list option"

definition watched :: "WatchTower \<Rightarrow> string \<Rightarrow> RevocationInfo option" where
  "watched w hash = (case wt_RevocationKeys w of None \<Rightarrow> None | Some m \<Rightarrow> map_of m hash)"

text \<open>The result is also what is sent on \<open>RevokedTransactions\<close>.\<close>

primrec watch_txs :: "('db, 'z) ext_scheme \<Rightarrow> WatchTower \<Rightarrow> Transaction list \<Rightarrow> RevocationInfo option" where
  "watch_txs E w [] = None"
| "watch_txs E w (txn # txs) =
     (case watched w (Transaction_Hash E txn) of
        Some info \<Rightarrow> Some info
      | None \<Rightarrow> watch_txs E w txs)"

definition WatchTower_HandleBlock :: "('db, 'z) ext_scheme \<Rightarrow> WatchTower \<Rightarrow> Block \<Rightarrow> RevocationInfo option" where
  "WatchTower_HandleBlock E w b = watch_txs E w (Transactions b)"

end
