(* ===== verification/Channel_Protocol.thy ===== *)
theory Channel_Protocol
  imports Lightning
begin

text \<open>
  Two lightning nodes at work on one channel: an update is composed from \<open>UpdateState\<close> on one node
  and the handlers \<open>GetUpdatedTransactions\<close> and \<open>GetRevocationKey\<close> on the other, and the
  remote calls deliver requests and responses unchanged.
\<close>

section \<open>The two-party protocol\<close>

definition rpc_revocation_key ::
  "('db, 'z) ext_scheme \<Rightarrow> LightningNode \<Rightarrow> pro_SignedTransactionWithKey \<Rightarrow> bytes option" where
  "rpc_revocation_key E B req =
     (case GetRevocationKey E B req of Some (Inr key, _) \<Rightarrow> key | _ \<Rightarrow> None)"

definition update_round ::
  "('db, 'z) ext_scheme \<Rightarrow> nat \<times> nat \<times> nat \<Rightarrow> LightningNode \<Rightarrow> Peer \<Rightarrow> LightningNode \<Rightarrow> Transaction \<Rightarrow>
   (LightningNode \<times> LightningNode) option" where
  "update_round E rnds A peerB B tx =
     (let (r1, r2, r3) = rnds in
      do { (resp, B) \<leftarrow> GetUpdatedTransactions E r1 r2 B (EncodeTransactionWithAddress tx (ln_Address A));
           (A, req) \<leftarrow> UpdateState E r3 (\<lambda>_. resp) (rpc_revocation_key E B) A peerB tx;
           (_, B) \<leftarrow> GetRevocationKey E B req;
           Some (A, B) })"

definition open_round ::
  "('db, 'z) ext_scheme \<Rightarrow> nat \<times> nat \<Rightarrow> nat \<times> nat \<times> nat \<Rightarrow> wallet_reply \<Rightarrow> LightningNode \<Rightarrow> Peer \<Rightarrow> LightningNode \<Rightarrow> bytes \<Rightarrow>
   u32 \<Rightarrow> u32 \<Rightarrow> (LightningNode \<times> LightningNode) option" where
  "open_round E rA rB wallet A peerB B theirPubKey amount fee =
     do { (req, _) \<leftarrow> CreateChannel_request E (fst rA) (snd rA) wallet A theirPubKey amount fee;
          (resp, B) \<leftarrow> OpenChannel E rB B req;
          (A, _) \<leftarrow> CreateChannel E (fst rA) (snd rA) wallet (\<lambda>_. case resp of Inr r \<Rightarrow> r | Inl _ \<Rightarrow> None) A peerB theirPubKey amount fee;
          Some (A, B) }"

text \<open>Two views of one channel.\<close>

definition mirrored :: "Channel \<Rightarrow> Channel \<Rightarrow> bool" where
  "mirrored a b \<longleftrightarrow>
     MyTransactions a = TheirTransactions b \<and> TheirTransactions a = MyTransactions b \<and> ch_State a = ch_State b \<and>
     FundingTransaction a = FundingTransaction b \<and> Funder a = (\<not> Funder b) \<and>
     int (length (MyTransactions a)) = ch_State a + 1 \<and> int (length (TheirTransactions a)) = ch_State a + 1"

lemma mirrored_sym: "mirrored a b \<Longrightarrow> mirrored b a"
  by (auto simp: mirrored_def)

text \<open>The nodes know each other as peers and have a channel.\<close>

definition linked_nodes :: "LightningNode \<Rightarrow> Peer \<Rightarrow> Channel \<Rightarrow> LightningNode \<Rightarrow> Peer \<Rightarrow> Channel \<Rightarrow> bool" where
  "linked_nodes A peerB cA B peerA cB \<longleftrightarrow>
     pdb_Get (PeerDb (ln_net B)) (ln_Address A) = Some peerA \<and> get_channel A peerB = Some cA \<and>
     pdb_Get (PeerDb (ln_net A)) (ln_Address B) = Some peerB \<and> get_channel B peerA = Some cB \<and>
     id_PrivateKey (ln_Id A) \<noteq> None \<and> id_PrivateKey (ln_Id B) \<noteq> None"

lemma linked_nodes_sym: "linked_nodes A peerB cA B peerA cB \<Longrightarrow> linked_nodes B peerA cB A peerB cA"
  by (auto simp: linked_nodes_def)

section \<open>Steps of an update\<close>

lemma set_channel_simps [simp]:
  "get_channel (set_channel ln p c) p = Some c" "ln_net (set_channel ln p c) = ln_net ln"
  "ln_Address (set_channel ln p c) = ln_Address ln" "ln_Id (set_channel ln p c) = ln_Id ln"
  by (simp_all add: get_channel_def set_channel_def update_conv')

lemma decode_encode_tx [simp]: "DecodeTransaction (Some (EncodeTransaction t)) = t"
  by (rule transaction_wire.decode_encode)

lemma with_address_tx [simp]:
  "pta_Transaction (EncodeTransactionWithAddress t a) = Some (EncodeTransaction t)"
  "pta_Address (EncodeTransactionWithAddress t a) = a"
  by (simp_all add: EncodeTransactionWithAddress_def EncodeTransaction_def Let_def)

lemma encoded_outputs [simp]:
  "pt_Outputs (EncodeTransaction t) = map EncodeTransactionOutput (Outputs t)"
  "po_LockingScript (EncodeTransactionOutput txo) = LockingScript txo"
  by (simp_all add: EncodeTransaction_def EncodeTransactionOutput_def)

lemma hash_witnesses [simp]: "Transaction_Hash E (t\<lparr>Witnesses := ws\<rparr>) = Transaction_Hash E t"
  by (simp add: Transaction_Hash_def)

lemma SignTransaction_witnesses:
  "id_PrivateKey (ln_Id ln) \<noteq> None \<Longrightarrow> \<exists>ws. SignTransaction E r ln t = Some (t\<lparr>Witnesses := ws\<rparr>)"
  by (auto simp: SignTransaction_def split: option.splits intro: exI [of _ "Witnesses t"])

text \<open>The position of a node's own, revocable output, and its script.\<close>

definition own_index :: "Channel \<Rightarrow> nat" where
  "own_index c = (if Funder c then 0 else 1)"

definition own_script :: "('db, 'z) ext_scheme \<Rightarrow> LightningNode \<Rightarrow> Channel \<Rightarrow> bytes \<Rightarrow> bytes" where
  "own_script E ln c pub = fst (marshal_MultiParty E
     \<lparr>pmp_ScriptType = ScriptType_MULTI, pmp_MyPublicKey = PublicKeyBytes (ln_Id ln),
      pmp_TheirPublicKey = CounterPartyPubKey c, pmp_RevocationKey = pub,
      pmp_AdditionalBlocks = lc_AdditionalBlocks (ln_Config ln)\<rparr>)"

lemma correct_scripts:
  assumes "length (Outputs t) = 2 \<or> length (Outputs t) = 3"
  obtains v where "generateTransactionWithCorrectScripts E ln c t pub = Some v"
    "map Amount (Outputs v) = map Amount (Outputs t)" "Inputs v = Inputs t" "LockTime v = LockTime t"
    "own_index c < length (Outputs v)" "LockingScript (Outputs v ! own_index c) = own_script E ln c pub"
proof -
  obtain o0 o1 rest where t: "Outputs t = o0 # o1 # rest" "rest = [] \<or> (\<exists>o2. rest = [o2])"
    using assms by (auto simp: numeral_eq_Suc length_Suc_conv)
  have "\<exists>v. generateTransactionWithCorrectScripts E ln c t pub = Some v \<and>
    map Amount (Outputs v) = map Amount (Outputs t) \<and> Inputs v = Inputs t \<and> LockTime v = LockTime t \<and>
    own_index c < length (Outputs v) \<and> LockingScript (Outputs v ! own_index c) = own_script E ln c pub"
    using t(2)
    by (cases "Funder c") (auto simp: generateTransactionWithCorrectScripts_def slice_get_def own_index_def own_script_def
        t(1) Let_def)
  then show thesis using that by blast
qed

lemma own_script_type:
  "script_laws E \<Longrightarrow> DetermineScriptType E (own_script E ln c pub) = (MULTI, True)"
  unfolding own_script_def by (rule DetermineScriptType_multi) simp_all

lemma GetUpdatedTransactions_step:
  assumes "pdb_Get (PeerDb (ln_net B)) a = Some p" and "get_channel B p = Some c"
    and "SignTransaction E r1 B t = Some u" and "GenerateRevocationKey E r2 = Some (pub, priv)"
    and "generateTransactionWithCorrectScripts E B c u pub = Some v"
  shows "GetUpdatedTransactions E r1 r2 B (EncodeTransactionWithAddress t a) =
    Some (Some \<lparr>put_SignedTransaction = Some (EncodeTransaction u), put_UnsignedTransaction = Some (EncodeTransaction v)\<rparr>,
      set_channel B p (c\<lparr>TheirTransactions := TheirTransactions c @ [u],
        MyRevocationKeys := AList.update (Transaction_Hash E v) priv (MyRevocationKeys c)\<rparr>))"
  using assms by (simp add: GetUpdatedTransactions_def)

lemma GetRevocationKey_step:
  assumes "pdb_Get (PeerDb (ln_net B)) a = Some p" and "get_channel B p = Some c"
    and "own_index c < length (Outputs w)" and "DetermineScriptType E (LockingScript (Outputs w ! own_index c)) = (st, True)"
    and "map_of (MyRevocationKeys c) (Transaction_Hash E w) = Some priv"
  shows "\<exists>ks. GetRevocationKey E B \<lparr>psk_SignedTransaction = Some (EncodeTransaction w), psk_RevocationKey = k, psk_Address = a\<rparr> =
    Some (Inr (Some priv), set_channel B p (c\<lparr>MyTransactions := MyTransactions c @ [w], TheirRevocationKeys := ks,
      ch_State := ch_State c + 1\<rparr>))"
  using assms
  by (cases "Funder c") (auto simp: GetRevocationKey_def own_index_def Let_def slice_get_def)

lemma UpdateState_step:
  assumes "get_channel A p = Some c" and "SignTransaction E r3 A v = Some w"
    and "rpc \<lparr>psk_SignedTransaction = Some (EncodeTransaction w),
      psk_RevocationKey = (case map_of (MyRevocationKeys c) (Transaction_Hash E t) of None \<Rightarrow> [] | Some k \<Rightarrow> k),
      psk_Address = ln_Address A\<rparr> = Some key"
    and "i = (if Funder c then 1 else 0)" and "i < length (Outputs w)"
  shows "UpdateState E r3 (\<lambda>_. Some \<lparr>put_SignedTransaction = Some (EncodeTransaction u),
      put_UnsignedTransaction = Some (EncodeTransaction v)\<rparr>) rpc A p t =
    Some (set_channel A p (c\<lparr>MyTransactions := MyTransactions c @ [u], TheirTransactions := TheirTransactions c @ [w],
        ch_State := ch_State c + 1,
        TheirRevocationKeys := AList.update (Transaction_Hash E t)
          \<lparr>RevKey = key, ri_TransactionOutput = Outputs w ! i, ri_OutputIndex = word_of_nat i,
           TransactionHash = Transaction_Hash E w, ri_ScriptType = fst (DetermineScriptType E (LockingScript (Outputs w ! i)))\<rparr>
          (TheirRevocationKeys c)\<rparr>),
      \<lparr>psk_SignedTransaction = Some (EncodeTransaction w),
       psk_RevocationKey = (case map_of (MyRevocationKeys c) (Transaction_Hash E t) of None \<Rightarrow> [] | Some k \<Rightarrow> k),
       psk_Address = ln_Address A\<rparr>)"
  using assms by (simp add: UpdateState_def Let_def slice_get_def)

section \<open>One update\<close>

text \<open>What an update does to the two channels; \<open>w\<close> is B's new transaction and \<open>u\<close> is A's.\<close>

lemma update_round_channels:
  assumes link: "linked_nodes A peerB cA B peerA cB" and roles: "Funder cA = (\<not> Funder cB)" and laws: "script_laws E"
    and gen: "GenerateRevocationKey E r2 = Some (pub, priv)"
    and len: "length (Outputs tx) = 2 \<or> length (Outputs tx) = 3"
  obtains A' B' u w ks where
    "update_round E (r1, r2, r3) A peerB B tx = Some (A', B')"
    "Transaction_Hash E u = Transaction_Hash E tx" "map Amount (Outputs w) = map Amount (Outputs tx)" "Inputs w = Inputs tx"
    "own_index cB < length (Outputs w)" "LockingScript (Outputs w ! own_index cB) = own_script E B cB pub"
    "linked_nodes A' peerB (cA\<lparr>MyTransactions := MyTransactions cA @ [u], TheirTransactions := TheirTransactions cA @ [w],
       ch_State := ch_State cA + 1, TheirRevocationKeys := AList.update (Transaction_Hash E tx)
         \<lparr>RevKey = priv, ri_TransactionOutput = Outputs w ! own_index cB, ri_OutputIndex = word_of_nat (own_index cB),
          TransactionHash = Transaction_Hash E w, ri_ScriptType = MULTI\<rparr> (TheirRevocationKeys cA)\<rparr>)
     B' peerA (cB\<lparr>TheirTransactions := TheirTransactions cB @ [u], MyTransactions := MyTransactions cB @ [w],
       ch_State := ch_State cB + 1, TheirRevocationKeys := ks,
       MyRevocationKeys := AList.update (Transaction_Hash E w) priv (MyRevocationKeys cB)\<rparr>)"
proof -
  have pA: "pdb_Get (PeerDb (ln_net B)) (ln_Address A) = Some peerA" and pB: "pdb_Get (PeerDb (ln_net A)) (ln_Address B) = Some peerB"
    and gA: "get_channel A peerB = Some cA" and gB: "get_channel B peerA = Some cB"
    and kA: "id_PrivateKey (ln_Id A) \<noteq> None" and kB: "id_PrivateKey (ln_Id B) \<noteq> None"
    using link by (simp_all add: linked_nodes_def)
  obtain ws where sB: "SignTransaction E r1 B tx = Some (tx\<lparr>Witnesses := ws\<rparr>)"
    using SignTransaction_witnesses [OF kB] by blast
  let ?u = "tx\<lparr>Witnesses := ws\<rparr>"
  have "length (Outputs ?u) = 2 \<or> length (Outputs ?u) = 3" using len by simp
  then obtain v where v: "generateTransactionWithCorrectScripts E B cB ?u pub = Some v"
    "map Amount (Outputs v) = map Amount (Outputs ?u)" "Inputs v = Inputs ?u" "LockTime v = LockTime ?u"
    "own_index cB < length (Outputs v)" "LockingScript (Outputs v ! own_index cB) = own_script E B cB pub"
    by (rule correct_scripts)
  let ?c1 = "cB\<lparr>TheirTransactions := TheirTransactions cB @ [?u],
    MyRevocationKeys := AList.update (Transaction_Hash E v) priv (MyRevocationKeys cB)\<rparr>"
  let ?B1 = "set_channel B peerA ?c1"
  note step1 = GetUpdatedTransactions_step [OF pA gB sB gen v(1)]
  obtain ws' where sA: "SignTransaction E r3 A v = Some (v\<lparr>Witnesses := ws'\<rparr>)"
    using SignTransaction_witnesses [OF kA] by blast
  let ?w = "v\<lparr>Witnesses := ws'\<rparr>"
  have out: "own_index ?c1 < length (Outputs ?w)" and scr: "LockingScript (Outputs ?w ! own_index ?c1) = own_script E B cB pub"
    using v(5,6) by (simp_all add: own_index_def)
  have st: "DetermineScriptType E (LockingScript (Outputs ?w ! own_index ?c1)) = (MULTI, True)"
    unfolding scr by (rule own_script_type [OF laws])
  let ?k = "case map_of (MyRevocationKeys cA) (Transaction_Hash E tx) of None \<Rightarrow> [] | Some k \<Rightarrow> k"
  let ?req = "\<lparr>psk_SignedTransaction = Some (EncodeTransaction ?w), psk_RevocationKey = ?k, psk_Address = ln_Address A\<rparr>"
  obtain ks where step3: "GetRevocationKey E ?B1 ?req = Some (Inr (Some priv),
      set_channel ?B1 peerA (?c1\<lparr>MyTransactions := MyTransactions ?c1 @ [?w], TheirRevocationKeys := ks,
        ch_State := ch_State ?c1 + 1\<rparr>))"
    using GetRevocationKey_step [of ?B1 "ln_Address A" peerA ?c1 ?w E MULTI priv ?k] pA out st
    by (auto simp: update_conv')
  have idx: "own_index cB = (if Funder cA then 1 else 0)" using roles by (simp add: own_index_def)
  have "rpc_revocation_key E ?B1 ?req = Some priv" by (simp add: rpc_revocation_key_def step3)
  note step2 = UpdateState_step [where rpc = "rpc_revocation_key E ?B1" and t = tx and u = ?u, OF gA sA this idx]
  have upd: "update_round E (r1, r2, r3) A peerB B tx =
      Some (set_channel A peerB (cA\<lparr>MyTransactions := MyTransactions cA @ [?u], TheirTransactions := TheirTransactions cA @ [?w],
        ch_State := ch_State cA + 1, TheirRevocationKeys := AList.update (Transaction_Hash E tx)
          \<lparr>RevKey = priv, ri_TransactionOutput = Outputs ?w ! own_index cB, ri_OutputIndex = word_of_nat (own_index cB),
           TransactionHash = Transaction_Hash E ?w, ri_ScriptType = MULTI\<rparr> (TheirRevocationKeys cA)\<rparr>),
        set_channel ?B1 peerA (?c1\<lparr>MyTransactions := MyTransactions ?c1 @ [?w], TheirRevocationKeys := ks,
          ch_State := ch_State ?c1 + 1\<rparr>))"
    using step2 out st by (simp add: update_round_def step1 step3 own_index_def)
  show thesis
    by (rule that [where u = ?u and w = ?w and ks = ks, OF upd]) (use v out scr pA pB kA kB in \<open>simp_all add: linked_nodes_def own_index_def\<close>)
qed

section \<open>Properties of the protocol\<close>

text \<open>
  An update runs to its end and keeps the two views mirrored; the new pair of transactions has the
  inputs and the amounts of the proposed one.
\<close>

lemma update_round_mirrored:
  assumes "linked_nodes A peerB cA B peerA cB" and mir: "mirrored cA cB" and "script_laws E"
    and "GenerateRevocationKey E r2 = Some (pub, priv)" and "length (Outputs tx) = 2 \<or> length (Outputs tx) = 3"
  shows "\<exists>A' B' cA' cB'. update_round E (r1, r2, r3) A peerB B tx = Some (A', B') \<and>
    linked_nodes A' peerB cA' B' peerA cB' \<and> mirrored cA' cB' \<and> ch_State cA' = ch_State cA + 1 \<and>
    Transaction_Hash E (last (MyTransactions cA')) = Transaction_Hash E tx \<and>
    map Amount (Outputs (last (MyTransactions cB'))) = map Amount (Outputs tx) \<and>
    Inputs (last (MyTransactions cB')) = Inputs tx"
proof -
  have "Funder cA = (\<not> Funder cB)" using mir by (simp add: mirrored_def)
  from assms(1) this assms(3-5) show ?thesis
  proof (rule update_round_channels [where ?r1.0 = r1 and ?r3.0 = r3])
    fix A' B' u w ks
    let ?cA = "cA\<lparr>MyTransactions := MyTransactions cA @ [u], TheirTransactions := TheirTransactions cA @ [w],
       ch_State := ch_State cA + 1, TheirRevocationKeys := AList.update (Transaction_Hash E tx)
         \<lparr>RevKey = priv, ri_TransactionOutput = Outputs w ! own_index cB, ri_OutputIndex = word_of_nat (own_index cB),
          TransactionHash = Transaction_Hash E w, ri_ScriptType = MULTI\<rparr> (TheirRevocationKeys cA)\<rparr>"
    let ?cB = "cB\<lparr>TheirTransactions := TheirTransactions cB @ [u], MyTransactions := MyTransactions cB @ [w],
       ch_State := ch_State cB + 1, TheirRevocationKeys := ks,
       MyRevocationKeys := AList.update (Transaction_Hash E w) priv (MyRevocationKeys cB)\<rparr>"
    assume "update_round E (r1, r2, r3) A peerB B tx = Some (A', B')" "Transaction_Hash E u = Transaction_Hash E tx"
      "map Amount (Outputs w) = map Amount (Outputs tx)" "Inputs w = Inputs tx" "linked_nodes A' peerB ?cA B' peerA ?cB"
    moreover have "mirrored ?cA ?cB" using mir by (auto simp: mirrored_def)
    ultimately show ?thesis by (intro exI [of _ A'] exI [of _ B'] exI [of _ ?cA] exI [of _ ?cB]) simp
  qed
qed

lemma update_round_needs_key:
  assumes "linked_nodes A peerB cA B peerA cB" and "update_round E (r1, r2, r3) A peerB B tx = Some s"
  obtains pub priv where "GenerateRevocationKey E r2 = Some (pub, priv)"
  using assms
  by (cases "GenerateRevocationKey E r2")
    (auto simp: update_round_def GetUpdatedTransactions_def linked_nodes_def bind_eq_Some_conv)

lemma update_round_keeps:
  assumes "linked_nodes A peerB cA B peerA cB" and "mirrored cA cB" and "script_laws E"
    and "length (Outputs tx) = 2 \<or> length (Outputs tx) = 3" and "update_round E rnds A peerB B tx = Some (A', B')"
  shows "\<exists>cA' cB'. linked_nodes A' peerB cA' B' peerA cB' \<and> mirrored cA' cB' \<and> ch_State cA' = ch_State cA + 1"
proof -
  obtain r1 r2 r3 where r: "rnds = (r1, r2, r3)" by (metis prod_cases3)
  obtain pub priv where "GenerateRevocationKey E r2 = Some (pub, priv)"
    using update_round_needs_key [OF assms(1) assms(5) [unfolded r]] by blast
  from update_round_mirrored [OF assms(1-3) this assms(4), of r1 r3] assms(5) r show ?thesis by auto
qed

section \<open>Opening and running a channel\<close>

lemma refund_transaction_total:
  assumes "3 \<le> length (Outputs fund)" and "id_PrivateKey (ln_Id A) \<noteq> None"
  shows "\<exists>refund. generateRefundTransaction E r A pk fund fee revKey = Some refund"
  using assms by (auto simp: generateRefundTransaction_def slice_get_def Let_def)

text \<open>What both sides rely on: they know each other, can sign and make keys, and the wallet made the funding transaction.\<close>

definition can_open ::
  "('db, 'z) ext_scheme \<Rightarrow> nat \<times> nat \<Rightarrow> nat \<times> nat \<times> nat \<Rightarrow> LightningNode \<Rightarrow> Peer \<Rightarrow> LightningNode \<Rightarrow> Peer \<Rightarrow> Transaction \<Rightarrow> bool" where
  "can_open E rA rB A peerB B peerA fund \<longleftrightarrow>
     pdb_Get (PeerDb (ln_net B)) (ln_Address A) = Some peerA \<and> pdb_Get (PeerDb (ln_net A)) (ln_Address B) = Some peerB \<and>
     get_channel B peerA = None \<and> id_PrivateKey (ln_Id A) \<noteq> None \<and>
     (\<exists>sk. id_PrivateKey (ln_Id B) = Some sk \<and> (\<forall>r h. utils_Sign E r sk h \<noteq> None)) \<and>
     GenerateRevocationKey E (fst rA) \<noteq> None \<and> GenerateRevocationKey E (snd (snd rB)) \<noteq> None \<and>
     3 \<le> length (Outputs fund)"

lemma open_round_mirrored:
  assumes "can_open E rA rB A peerB B peerA fund"
    and wallet: "wallet \<lparr>wr_Amount = amount, wr_Fee = fee, wr_CounterPartyPubKey = pk\<rparr> = Some (Some fund)"
  shows "\<exists>A' B' cA cB. open_round E rA rB wallet A peerB B pk amount fee = Some (A', B') \<and>
    linked_nodes A' peerB cA B' peerA cB \<and> mirrored cA cB \<and> ch_State cA = 0"
proof -
  obtain a1 a2 b1 b2 b3 where r: "rA = (a1, a2)" "rB = (b1, b2, b3)" by (metis prod_cases3 prod.exhaust)
  obtain pubA privA pubB privB where gen: "GenerateRevocationKey E a1 = Some (pubA, privA)"
    "GenerateRevocationKey E b3 = Some (pubB, privB)"
    using assms r by (auto simp: can_open_def)
  obtain refund where refund: "generateRefundTransaction E a2 A pk fund fee pubA = Some refund"
    using refund_transaction_total assms(1) by (metis can_open_def)
  obtain sk where sk: "id_PrivateKey (ln_Id B) = Some sk" "\<forall>r h. utils_Sign E r sk h \<noteq> None"
    using assms by (auto simp: can_open_def)
  have sign: "\<exists>ws. ValidateAndSign E r B t = Some (Inr (t\<lparr>Witnesses := ws\<rparr>))" for r t
  proof -
    obtain sig where "utils_Sign E r sk (bytes_of (Transaction_Hash E t)) = Some sig" using sk(2) by blast
    then show ?thesis using sk(1) by (auto simp: ValidateAndSign_def ln_ValidateTransaction_def)
  qed
  obtain ws1 where s1: "ValidateAndSign E b1 B fund = Some (Inr (fund\<lparr>Witnesses := ws1\<rparr>))" using sign by blast
  obtain ws2 where s2: "ValidateAndSign E b2 B refund = Some (Inr (refund\<lparr>Witnesses := ws2\<rparr>))" using sign by blast
  have none: "map_of (Channels B) (p_ident peerA) = None" using assms by (simp add: can_open_def get_channel_def)
  have pA: "pdb_Get (PeerDb (ln_net B)) (ln_Address A) = Some peerA" using assms by (simp add: can_open_def)
  show ?thesis
    using assms(1) sk(1)
    by (auto simp add: Let_def open_round_def r CreateChannel_request_def CreateChannel_def OpenChannel_def gen refund s1 s2 none pA wallet
        ln_generateFundingTransaction_def getTransactionFromWallet_def linked_nodes_def get_channel_def update_conv'
        mirrored_def can_open_def)
qed

text \<open>Any number of updates after the opening, each started by either side.\<close>

inductive channel_run ::
  "('db, 'z) ext_scheme \<Rightarrow> Peer \<Rightarrow> Peer \<Rightarrow> LightningNode \<times> LightningNode \<Rightarrow> nat \<Rightarrow> LightningNode \<times> LightningNode \<Rightarrow> bool"
  for E :: "('db, 'z) ext_scheme" and peerB :: Peer and peerA :: Peer and s :: "LightningNode \<times> LightningNode" where
  run_start: "channel_run E peerB peerA s 0 s"
| run_A: "channel_run E peerB peerA s n (A, B) \<Longrightarrow> length (Outputs tx) = 2 \<or> length (Outputs tx) = 3 \<Longrightarrow>
    update_round E rnds A peerB B tx = Some (A', B') \<Longrightarrow> channel_run E peerB peerA s (Suc n) (A', B')"
| run_B: "channel_run E peerB peerA s n (A, B) \<Longrightarrow> length (Outputs tx) = 2 \<or> length (Outputs tx) = 3 \<Longrightarrow>
    update_round E rnds B peerA A tx = Some (B', A') \<Longrightarrow> channel_run E peerB peerA s (Suc n) (A', B')"

lemma channel_run_invariant:
  assumes "channel_run E peerB peerA s n s'" and "script_laws E"
    and "\<exists>cA cB. linked_nodes (fst s) peerB cA (snd s) peerA cB \<and> mirrored cA cB \<and> ch_State cA = 0"
  shows "\<exists>cA cB. linked_nodes (fst s') peerB cA (snd s') peerA cB \<and> mirrored cA cB \<and> ch_State cA = int n"
  using assms(1)
proof (induction rule: channel_run.induct)
  case run_start
  then show ?case using assms(3) by simp
next
  case (run_A n A B tx rnds A' B')
  then obtain cA cB where link: "linked_nodes A peerB cA B peerA cB" "mirrored cA cB" "ch_State cA = int n" by auto
  obtain cA' cB' where "linked_nodes A' peerB cA' B' peerA cB'" "mirrored cA' cB'" "ch_State cA' = int n + 1"
    using update_round_keeps [OF link(1,2) assms(2) run_A.hyps(2,3)] link(3) by auto
  then show ?case by (intro exI [of _ cA'] exI [of _ cB']) simp
next
  case (run_B n A B tx rnds B' A')
  then obtain cA cB where ih: "linked_nodes A peerB cA B peerA cB" "mirrored cA cB" "ch_State cA = int n" by auto
  have "ch_State cB = int n" using ih(2,3) by (simp add: mirrored_def)
  then obtain cB' cA' where new: "linked_nodes B' peerA cB' A' peerB cA'" "mirrored cB' cA'" "ch_State cB' = int n + 1"
    using update_round_keeps [OF linked_nodes_sym [OF ih(1)] mirrored_sym [OF ih(2)] assms(2) run_B.hyps(2,3)] by auto
  have "ch_State cA' = int (Suc n)" using new(2,3) by (simp add: mirrored_def)
  with linked_nodes_sym [OF new(1)] mirrored_sym [OF new(2)]
  show ?case by (intro exI [of _ cA'] exI [of _ cB']) simp
qed

text \<open>
  C9: A channel that was opened and then updated \<open>n\<close> times, each time by either side, is in state
  \<open>n\<close> on both nodes, and the views mirror each other: what one node holds as its own transactions,
  the other holds as theirs, one transaction per state.
\<close>

theorem channel_stays_mirrored:
  assumes "can_open E rA rB A peerB B peerA fund" and "script_laws E"
    and "wallet \<lparr>wr_Amount = amount, wr_Fee = fee, wr_CounterPartyPubKey = pk\<rparr> = Some (Some fund)"
    and "open_round E rA rB wallet A peerB B pk amount fee = Some s" and "channel_run E peerB peerA s n (A', B')"
  shows "\<exists>cA cB. get_channel A' peerB = Some cA \<and> get_channel B' peerA = Some cB \<and>
    ch_State cA = int n \<and> ch_State cB = int n \<and> length (MyTransactions cA) = n + 1 \<and>
    MyTransactions cA = TheirTransactions cB \<and> TheirTransactions cA = MyTransactions cB"
proof -
  have "\<exists>cA cB. linked_nodes (fst s) peerB cA (snd s) peerA cB \<and> mirrored cA cB \<and> ch_State cA = 0"
    using open_round_mirrored [where wallet = wallet, OF assms(1,3)] assms(4) by (metis fst_conv option.inject snd_conv)
  from channel_run_invariant [OF assms(5,2) this] show ?thesis by (auto simp: linked_nodes_def mirrored_def)
qed

text \<open>
  C36: The key that an update hands over revokes the transaction of the new state, not of the old one:
  afterwards A holds a key with which its wallet can take B's output of the transaction that B has just
  stored as its latest.
\<close>

theorem update_reveals_current_key:
  assumes "linked_nodes A peerB cA B peerA cB" and "mirrored cA cB" and "script_laws E" and "proto_laws E" and "x509_laws E"
    and gen: "GenerateRevocationKey E r2 = Some (pub, priv)" and "length (Outputs tx) = 2 \<or> length (Outputs tx) = 3"
  shows "\<exists>A' B' cA' cB' info. update_round E (r1, r2, r3) A peerB B tx = Some (A', B') \<and>
    linked_nodes A' peerB cA' B' peerA cB' \<and>
    map_of (TheirRevocationKeys cA') (Transaction_Hash E tx) = Some info \<and>
    TransactionHash info = Transaction_Hash E (last (MyTransactions cB')) \<and>
    ri_TransactionOutput info = Outputs (last (MyTransactions cB')) ! unat (ri_OutputIndex info) \<and>
    RevKeySuccessful E (LockingScript (ri_TransactionOutput info)) (RevKey info) (ri_ScriptType info) = Some True"
proof -
  have pk: "PkFromSk E priv = Some pub"
    using gen PkFromSk_id [OF assms(5)] by (auto simp: GenerateRevocationKey_def split: sum.splits)
  have "Funder cA = (\<not> Funder cB)" using assms(2) by (simp add: mirrored_def)
  from assms(1) this assms(3) gen assms(7) show ?thesis
  proof (rule update_round_channels [where ?r1.0 = r1 and ?r3.0 = r3])
    fix A' B' u w ks
    let ?info = "\<lparr>RevKey = priv, ri_TransactionOutput = Outputs w ! own_index cB, ri_OutputIndex = word_of_nat (own_index cB),
          TransactionHash = Transaction_Hash E w, ri_ScriptType = MULTI\<rparr>"
    let ?cA = "cA\<lparr>MyTransactions := MyTransactions cA @ [u], TheirTransactions := TheirTransactions cA @ [w],
       ch_State := ch_State cA + 1, TheirRevocationKeys := AList.update (Transaction_Hash E tx) ?info (TheirRevocationKeys cA)\<rparr>"
    let ?cB = "cB\<lparr>TheirTransactions := TheirTransactions cB @ [u], MyTransactions := MyTransactions cB @ [w],
       ch_State := ch_State cB + 1, TheirRevocationKeys := ks,
       MyRevocationKeys := AList.update (Transaction_Hash E w) priv (MyRevocationKeys cB)\<rparr>"
    assume facts: "update_round E (r1, r2, r3) A peerB B tx = Some (A', B')" "linked_nodes A' peerB ?cA B' peerA ?cB"
      and scr: "LockingScript (Outputs w ! own_index cB) = own_script E B cB pub"
    have "RevKeySuccessful E (own_script E B cB pub) priv MULTI = Some True"
      by (simp add: RevKeySuccessful_def pk own_script_def unmarshal_marshal_MultiParty [OF assms(4)])
    then show ?thesis
      using facts scr
      by (intro exI [of _ A'] exI [of _ B'] exI [of _ ?cA] exI [of _ ?cB] exI [of _ ?info])
        (simp add: update_conv' own_index_def)
  qed
qed

end
