(* ===== verification/Wallet_Balance.thy ===== *)
theory Wallet_Balance
  imports Wallet
begin

text \<open>
  The bookkeeping of the wallet. \<open>wallet_ok\<close> says that the balance is the sum of the spendable
  coins and that no coin is at the same time spendable, spent and waiting for confirmation. Every
  operation keeps it, provided the outputs of a new block are new objects in memory.
\<close>

section \<open>Coins of a wallet\<close>

definition spendable :: "Wallet \<Rightarrow> CoinInfo list" where
  "spendable w = map fst (CoinCollection w)"

definition pending :: "Wallet \<Rightarrow> CoinInfo list" where
  "pending w = map fst (UnconfirmedReceivedCoins w)"

definition spent_coins :: "Wallet \<Rightarrow> CoinInfo set" where
  "spent_coins w = set (map fst (UnconfirmedSpentCoins w)) \<union> \<Union> (set ` snd ` set (UnseenSpentCoins w))"

definition wallet_ok :: "Wallet \<Rightarrow> bool" where
  "wallet_ok w \<longleftrightarrow>
     distinct (spendable w) \<and> distinct (pending w) \<and>
     Balance w = sum_list (map coin_amount (spendable w)) \<and>
     set (spendable w) \<inter> spent_coins w = {} \<and> set (spendable w) \<inter> set (pending w) = {} \<and>
     set (pending w) \<inter> spent_coins w = {}"

named_theorems wallet_simps \<open>what an operation does to the coins of a wallet\<close>

lemma sum_removeAll:
  "distinct xs \<Longrightarrow> x \<in> set xs \<Longrightarrow> sum_list (map f xs) = f x + sum_list (map f (removeAll x xs))"
  for f :: "'a \<Rightarrow> u32"
proof (induction xs)
  case (Cons y xs)
  then show ?case by (cases "x = y") (auto simp: add.left_commute removeAll_id)
qed simp

lemma sum_filter_notin:
  fixes f :: "'a \<Rightarrow> u32"
  assumes "distinct xs" and "distinct ys" and "set ys \<subseteq> set xs"
  shows "sum_list (map f xs) = sum_list (map f ys) + sum_list (map f (filter (\<lambda>x. x \<notin> set ys) xs))"
proof -
  have "mset (filter (\<lambda>x. x \<in> set ys) xs) = mset ys"
    using assms by (intro set_eq_iff_mset_eq_distinct [THEN iffD1]) auto
  then have "sum_list (map f (filter (\<lambda>x. x \<in> set ys) xs)) = sum_list (map f ys)"
    by (metis mset_map sum_mset_sum_list)
  moreover have "sum_list (map f xs) =
    sum_list (map f (filter (\<lambda>x. x \<in> set ys) xs)) + sum_list (map f (filter (\<lambda>x. x \<notin> set ys) xs))"
    by (induction xs) (simp_all add: add.left_commute add.assoc)
  ultimately show ?thesis by simp
qed

lemma keys_update [simp]: "fst ` set (AList.update k v m) = insert k (fst ` set m)"
  using arg_cong [OF update_keys [of k v m], of set] by (auto simp: insert_absorb simp del: set_map simp: set_map [symmetric])

lemma keys_delete [simp]: "fst ` set (AList.delete k m) = fst ` set m - {k}"
  using arg_cong [OF delete_keys [of k m], of set] by simp

lemma values_update: "set (AList.update k v m) \<subseteq> insert (k, v) (set m)"
  by (induction m) auto

lemma values_update_sets:
  "\<Union> (set ` snd ` set (AList.update k v m)) \<subseteq> set v \<union> \<Union> (set ` snd ` set m)"
proof -
  have "snd ` set (AList.update k v m) \<subseteq> insert v (snd ` set m)"
    using image_mono [OF values_update [of k v m], of snd] by simp
  then show ?thesis by blast
qed

lemma keys_delete_fold:
  "map fst (foldl (\<lambda>m k. AList.delete k m) m ks) = filter (\<lambda>k. k \<notin> set ks) (map fst m)"
proof (induction ks arbitrary: m)
  case (Cons k ks)
  have "filter (\<lambda>k'. k' \<notin> set ks) (removeAll k (map fst m)) = filter (\<lambda>k'. k' \<notin> set (k # ks)) (map fst m)"
    by (auto simp: removeAll_filter_not_eq intro!: filter_cong)
  then show ?case using Cons.IH [of "AList.delete k m"] by (simp add: delete_keys)
qed simp

lemma keys_update_fold [simp]:
  "fst ` set (foldl (\<lambda>m k. AList.update k v m) m ks) = fst ` set m \<union> set ks"
  by (induction ks arbitrary: m) auto

section \<open>The operations keep the bookkeeping\<close>

lemma wallet_ok_mono:
  assumes "wallet_ok w" and "spendable w' = spendable w" and "Balance w' = Balance w"
    and "set (pending w') \<subseteq> set (pending w) \<union> X" and "X \<inter> (set (spendable w) \<union> spent_coins w) = {}"
    and "distinct (pending w')" and "spent_coins w' \<subseteq> spent_coins w"
  shows "wallet_ok w'"
proof -
  have d: "set (pending w) \<inter> set (spendable w) = {}" "set (pending w) \<inter> spent_coins w = {}"
    "set (spendable w) \<inter> spent_coins w = {}"
    using assms(1) by (simp_all add: wallet_ok_def Int_commute)
  have "set (spendable w) \<inter> set (pending w') = {}" using d(1) assms(4,5) by blast
  moreover have "set (pending w') \<inter> spent_coins w' = {}" using d(2) assms(4,5,7) by blast
  moreover have "set (spendable w) \<inter> spent_coins w' = {}" using d(3) assms(7) by blast
  ultimately show ?thesis using assms(1,2,3,6) by (simp add: wallet_ok_def)
qed

lemma confirm_spent_coins [wallet_simps]:
  "spent_coins (confirm_spent w e) \<subseteq> insert (fst e) (spent_coins w)"
  "pending (confirm_spent w e) = pending w" "Balance (confirm_spent w e) = Balance w"
  "fst e \<notin> set (spendable w) \<Longrightarrow> spendable (confirm_spent w e) = spendable w"
proof -
  show "spent_coins (confirm_spent w e) \<subseteq> insert (fst e) (spent_coins w)"
    unfolding confirm_spent_def spent_coins_def by simp blast
qed (simp_all add: confirm_spent_def pending_def spendable_def delete_keys removeAll_id)

lemma confirm_spent_fold:
  assumes "wallet_ok w" and "\<forall>e \<in> set es. fst e \<notin> set (spendable w) \<and> fst e \<notin> set (pending w)"
  shows "wallet_ok (foldl confirm_spent w es)"
  using assms
proof (induction es arbitrary: w)
  case (Cons e es)
  have e: "fst e \<notin> set (spendable w)" "fst e \<notin> set (pending w)" using Cons.prems(2) by simp_all
  then have "wallet_ok (confirm_spent w e)"
    using Cons.prems(1) confirm_spent_coins [where w = w and e = e] unfolding wallet_ok_def by auto
  then show ?case using Cons.IH [of "confirm_spent w e"] Cons.prems(2) e by (simp add: wallet_simps)
qed simp

lemma confirm_received_coins [wallet_simps]:
  assumes "fst e \<in> set (pending w)" and "fst e \<notin> set (spendable w)"
  shows "spent_coins (confirm_received w e) = spent_coins w"
    "snd e = SafeBlockAmount (w_Config w) \<Longrightarrow> spendable (confirm_received w e) = spendable w @ [fst e] \<and>
       pending (confirm_received w e) = removeAll (fst e) (pending w) \<and>
       Balance (confirm_received w e) = Balance w + coin_amount (fst e)"
    "snd e \<noteq> SafeBlockAmount (w_Config w) \<Longrightarrow> spendable (confirm_received w e) = spendable w \<and>
       pending (confirm_received w e) = pending w \<and> Balance (confirm_received w e) = Balance w"
  using assms
  by (simp_all add: confirm_received_def spent_coins_def spendable_def pending_def update_keys delete_keys del: set_map)

lemma confirm_received_ok:
  assumes ok: "wallet_ok w" and e: "fst e \<in> set (pending w)"
  shows "wallet_ok (confirm_received w e)"
    and "set (pending w) - {fst e} \<subseteq> set (pending (confirm_received w e))"
proof -
  have new: "fst e \<notin> set (spendable w)" "fst e \<notin> spent_coins w" using ok e by (auto simp: wallet_ok_def)
  note c = confirm_received_coins [OF e new(1)]
  show "wallet_ok (confirm_received w e)"
  proof (cases "snd e = SafeBlockAmount (w_Config w)")
    case True
    then show ?thesis using ok c(1,2) new unfolding wallet_ok_def by (auto simp: distinct_removeAll)
  next
    case False
    then show ?thesis using ok c(1,3) unfolding wallet_ok_def by simp
  qed
  show "set (pending w) - {fst e} \<subseteq> set (pending (confirm_received w e))"
    using c(2,3) by (cases "snd e = SafeBlockAmount (w_Config w)") simp_all
qed

lemma confirm_received_fold:
  assumes "wallet_ok w" and "distinct (map fst es)" and "fst ` set es \<subseteq> set (pending w)"
  shows "wallet_ok (foldl confirm_received w es)"
  using assms
proof (induction es arbitrary: w)
  case (Cons e es)
  have e: "fst e \<in> set (pending w)" using Cons.prems(3) by simp
  have "fst ` set es \<subseteq> set (pending (confirm_received w e))"
    using Cons.prems(2,3) by (intro order_trans [OF _ confirm_received_ok(2) [OF Cons.prems(1) e]])
      (simp add: subset_Diff_insert)
  then show ?case
    using Cons.IH [of "confirm_received w e"] confirm_received_ok(1) [OF Cons.prems(1) e] Cons.prems(2) by simp
qed simp

lemma updateConfirmations_ok:
  assumes "wallet_ok w"
  shows "wallet_ok (updateConfirmations w)"
proof -
  let ?w = "foldl confirm_spent w (UnconfirmedSpentCoins w)"
  have "\<forall>e \<in> set (UnconfirmedSpentCoins w). fst e \<in> spent_coins w" by (simp add: spent_coins_def)
  then have "wallet_ok ?w"
    using assms by (intro confirm_spent_fold) (auto simp: wallet_ok_def)
  then have "wallet_ok (foldl confirm_received ?w (UnconfirmedReceivedCoins ?w))"
    by (intro confirm_received_fold) (simp_all add: wallet_ok_def pending_def)
  then show ?thesis by (simp add: updateConfirmations_def Let_def)
qed

subsection \<open>Blocks\<close>

definition output_coin :: "('db, 'z) ext_scheme \<Rightarrow> MemTx \<Rightarrow> nat \<Rightarrow> CoinInfo" where
  "output_coin E t i = \<lparr>ci_ReferenceTransactionHash = Transaction_Hash E (mt_tx t), ci_OutputIndex = word_of_nat i,
     ci_TransactionOutput = output_ptr t i\<rparr>"

definition block_coins :: "('db, 'z) ext_scheme \<Rightarrow> MemTx list \<Rightarrow> CoinInfo set" where
  "block_coins E txs = (\<Union>t \<in> set txs. output_coin E t ` {..< length (Outputs (mt_tx t))})"

lemma block_coins_Cons:
  "block_coins E (t # txs) = output_coin E t ` {..< length (Outputs (mt_tx t))} \<union> block_coins E txs"
  by (simp add: block_coins_def)

text \<open>The outputs of the block are objects the wallet has not spent and does not hold yet.\<close>

definition fresh_block :: "('db, 'z) ext_scheme \<Rightarrow> Wallet \<Rightarrow> MemTx list \<Rightarrow> bool" where
  "fresh_block E w txs \<longleftrightarrow> block_coins E txs \<inter> (set (spendable w) \<union> spent_coins w) = {}"

lemma receive_output_coins [wallet_simps]:
  "spendable (receive_output E t w i) = spendable w" "Balance (receive_output E t w i) = Balance w"
  "spent_coins (receive_output E t w i) = spent_coins w"
  "set (pending (receive_output E t w i)) \<subseteq> insert (output_coin E t i) (set (pending w))"
  "distinct (pending w) \<Longrightarrow> distinct (pending (receive_output E t w i))"
  by (simp_all add: receive_output_def addCoin_def spendable_def pending_def spent_coins_def output_coin_def
      distinct_update Let_def case_prod_unfold subset_insertI)

lemma handleSeenCoins_coins [wallet_simps]:
  "spendable (handleSeenCoins w h) = spendable w" "Balance (handleSeenCoins w h) = Balance w"
  "pending (handleSeenCoins w h) = pending w"
  "spent_coins (handleSeenCoins w h) \<subseteq> spent_coins w"
proof -
  let ?seen = "case map_of (UnseenSpentCoins w) h of None \<Rightarrow> [] | Some cs \<Rightarrow> cs"
  have "set ?seen \<subseteq> spent_coins w"
    unfolding spent_coins_def by (cases "map_of (UnseenSpentCoins w) h") (auto dest!: map_of_SomeD)
  moreover have "set (AList.delete h (UnseenSpentCoins w)) \<subseteq> set (UnseenSpentCoins w)"
    by (auto simp: AList.delete_eq)
  then have "\<Union> (set ` snd ` set (AList.delete h (UnseenSpentCoins w))) \<subseteq> spent_coins w"
    unfolding spent_coins_def by blast
  moreover have "spent_coins (handleSeenCoins w h) = fst ` set (UnconfirmedSpentCoins w) \<union> set ?seen \<union>
      \<Union> (set ` snd ` set (AList.delete h (UnseenSpentCoins w)))"
    unfolding spent_coins_def handleSeenCoins_def Let_def by simp
  moreover have "fst ` set (UnconfirmedSpentCoins w) \<subseteq> spent_coins w" by (simp add: spent_coins_def)
  ultimately show "spent_coins (handleSeenCoins w h) \<subseteq> spent_coins w" by simp
qed (simp_all add: handleSeenCoins_def Let_def spendable_def pending_def)

lemma receive_outputs_ok:
  assumes "wallet_ok w" and "output_coin E t ` set is \<inter> (set (spendable w) \<union> spent_coins w) = {}"
  shows "wallet_ok (foldl (receive_output E t) w is) \<and>
    spendable (foldl (receive_output E t) w is) = spendable w \<and> spent_coins (foldl (receive_output E t) w is) = spent_coins w"
  using assms
proof (induction "is" arbitrary: w)
  case (Cons i "is")
  have "wallet_ok (receive_output E t w i)"
    using Cons.prems by (intro wallet_ok_mono [OF Cons.prems(1), where X = "{output_coin E t i}"])
      (use receive_output_coins(4) [of E t w i] in \<open>auto simp: wallet_simps wallet_ok_def\<close>)
  then show ?case using Cons.IH [of "receive_output E t w i"] Cons.prems(2) by (simp add: wallet_simps)
qed simp

lemma handle_tx_ok:
  assumes "wallet_ok w" and "fresh_block E w (t # txs)"
  shows "wallet_ok (handle_tx E w t) \<and> fresh_block E (handle_tx E w t) txs"
proof -
  let ?h = "Transaction_Hash E (mt_tx t)"
  define v where "v = (if map_of (UnseenSpentCoins w) ?h \<noteq> None then handleSeenCoins w ?h else w)"
  have v: "wallet_ok v" "spendable v = spendable w" "spent_coins v \<subseteq> spent_coins w"
    using wallet_ok_mono [OF assms(1), of "handleSeenCoins w ?h" "{}"] assms(1)
    by (simp_all add: v_def wallet_simps wallet_ok_def)
  let ?is = "[0..<length (Outputs (mt_tx t))]"
  have new: "(output_coin E t ` set ?is \<union> block_coins E txs) \<inter> (set (spendable w) \<union> spent_coins w) = {}"
    using assms(2) by (simp add: fresh_block_def block_coins_Cons atLeast0LessThan)
  then have "output_coin E t ` set ?is \<inter> (set (spendable v) \<union> spent_coins v) = {}"
    unfolding v(2) using v(3) by blast
  note step = receive_outputs_ok [OF v(1) this]
  have eq: "handle_tx E w t = foldl (receive_output E t) v ?is" by (simp only: handle_tx_def Let_def v_def)
  have "block_coins E txs \<inter> (set (spendable w) \<union> spent_coins v) = {}" using new v(3) by blast
  then show ?thesis using step v(2) unfolding eq fresh_block_def by simp
qed

lemma Wallet_HandleBlock_ok:
  assumes "wallet_ok w" and "fresh_block E w txs"
  shows "wallet_ok (Wallet_HandleBlock E w txs)"
proof -
  have "wallet_ok (foldl (handle_tx E) w txs)"
    using assms by (induction txs arbitrary: w) (simp_all add: handle_tx_ok)
  then show ?thesis by (simp add: Wallet_HandleBlock_def updateConfirmations_ok)
qed

subsection \<open>Requests\<close>

definition input_of :: "CoinInfo \<Rightarrow> string \<times> u32" where
  "input_of ci = (ci_ReferenceTransactionHash ci, ci_OutputIndex ci)"

definition locators :: "TransactionInput list \<Rightarrow> (string \<times> u32) list" where
  "locators ins = map (\<lambda>i. (ReferenceTransactionHash i, OutputIndex i)) ins"

text \<open>The loop takes an initial part of the coins, and stops only when it has enough or no coin is left.\<close>

lemma inputs_loop_spec:
  "inputs_loop E key rnd need cis tot ins infos = Some (tot', ins', infos') \<Longrightarrow>
   \<exists>k. infos' = infos @ take k cis \<and> tot' = tot + sum_list (map coin_amount (take k cis)) \<and>
     locators ins' = locators ins @ map input_of (take k cis) \<and> (need \<le> tot' \<or> k = length cis)"
proof (induction cis arbitrary: tot ins infos)
  case (Cons ci cis)
  show ?case
  proof (cases "need \<le> tot")
    case True
    then show ?thesis using Cons.prems by (intro exI [of _ 0]) simp
  next
    case False
    then obtain sk where "key = Some sk" using Cons.prems by (cases key) auto
    with False Cons.prems Cons.IH obtain k where
      "infos' = (infos @ [ci]) @ take k cis"
      "tot' = tot + coin_amount ci + sum_list (map coin_amount (take k cis))"
      "locators ins' = locators ins @ [input_of ci] @ map input_of (take k cis)"
      "need \<le> tot' \<or> k = length cis"
      by (fastforce simp: Let_def locators_def input_of_def)
    then show ?thesis by (intro exI [of _ "Suc k"]) (simp add: add.assoc)
  qed
qed (auto simp: locators_def)

lemma generateTransactionInputs_spec:
  assumes "generateTransactionInputs E rnd order w amount fee = Some (change, ins, infos)"
  shows "\<exists>k. infos = take k order \<and> change = sum_list (map coin_amount infos) - (amount + fee) \<and>
    locators ins = map input_of infos \<and> (amount + fee \<le> sum_list (map coin_amount infos) \<or> infos = order)"
proof -
  obtain tot where "inputs_loop E (id_PrivateKey (w_Id w)) rnd (amount + fee) order 0 [] [] = Some (tot, ins, infos)"
    and "change = tot - (amount + fee)"
    using assms by (auto simp: generateTransactionInputs_def)
  then show ?thesis using inputs_loop_spec [of E _ rnd "amount + fee" order 0 "[]" "[]"] by (fastforce simp: locators_def)
qed

lemma RequestTransaction_cases:
  assumes "RequestTransaction E rnd order w amount fee pk = Some (r, w')"
  obtains (rejected) "r = None" "w' = w"
  | (made) tx change ins infos where
      "generateTransactionInputs E rnd order w amount fee = Some (change, ins, infos)" "infos \<noteq> []" "r = Some tx"
      "Inputs tx = ins" "Outputs tx = generateTransactionOutputs E w amount pk change"
      "\<not> Balance w < amount + fee"
      "w' = w\<lparr>UnseenSpentCoins := AList.update (Transaction_Hash E tx) infos (UnseenSpentCoins w),
               CoinCollection := foldl (\<lambda>m ci. AList.delete ci m) (CoinCollection w) infos,
               Balance := Balance w - (amount + fee + change)\<rparr>"
  using assms
  by (auto simp: RequestTransaction_def Let_def split: if_splits option.splits)

lemma RequestTransaction_ok:
  assumes ok: "wallet_ok w" and order: "distinct order" "set order \<subseteq> set (spendable w)"
    and req: "RequestTransaction E rnd order w amount fee pk = Some (r, w')"
  shows "wallet_ok w'"
  using req
proof (cases rule: RequestTransaction_cases)
  case (made tx change ins infos)
  obtain k where k: "infos = take k order" "change = sum_list (map coin_amount infos) - (amount + fee)"
    using generateTransactionInputs_spec [OF made(1)] by blast
  have infos: "distinct infos" "set infos \<subseteq> set (spendable w)"
    using order k(1) set_take_subset [of k order] by (auto simp: distinct_take)
  have sp: "spendable w' = filter (\<lambda>c. c \<notin> set infos) (spendable w)"
    using made(7) by (simp add: spendable_def keys_delete_fold)
  have pe: "pending w' = pending w" using made(7) by (simp add: pending_def)
  have "spent_coins w' \<subseteq> spent_coins w \<union> set infos"
    using values_update_sets [of "Transaction_Hash E tx" infos "UnseenSpentCoins w"] made(7)
    unfolding spent_coins_def by (simp, blast)
  then have "set (spendable w') \<inter> spent_coins w' = {}" "set (pending w') \<inter> spent_coins w' = {}"
    using ok infos(2) unfolding sp pe wallet_ok_def by (auto, blast)
  moreover have "Balance w' = sum_list (map coin_amount (spendable w'))"
    using sum_filter_notin [OF _ infos, of coin_amount] ok k(2) made(7) sp by (simp add: wallet_ok_def)
  ultimately show ?thesis using ok by (auto simp: wallet_ok_def sp pe)
qed (use ok in simp)

subsection \<open>Forks\<close>

lemma unseen_input_coins:
  assumes "snd ` set txis \<subseteq> X"
  shows "spendable (fst (unseen_input txis s txi)) = spendable (fst s) \<and>
    Balance (fst (unseen_input txis s txi)) = Balance (fst s) \<and>
    pending (fst (unseen_input txis s txi)) = pending (fst s) \<and>
    spent_coins (fst (unseen_input txis s txi)) \<subseteq> spent_coins (fst s) \<and>
    set (snd (unseen_input txis s txi)) \<subseteq> set (snd s) \<union> X"
  using assms
  by (auto simp: unseen_input_def Let_def spendable_def pending_def spent_coins_def case_prod_unfold delete_keys
      split: option.splits dest!: map_of_SomeD)

lemma unseen_inputs_coins:
  assumes "snd ` set txis \<subseteq> X"
  shows "spendable (fst (foldl (unseen_input txis) s is)) = spendable (fst s) \<and>
    Balance (fst (foldl (unseen_input txis) s is)) = Balance (fst s) \<and>
    pending (fst (foldl (unseen_input txis) s is)) = pending (fst s) \<and>
    spent_coins (fst (foldl (unseen_input txis) s is)) \<subseteq> spent_coins (fst s) \<and>
    set (snd (foldl (unseen_input txis) s is)) \<subseteq> set (snd s) \<union> X"
proof (induction "is" arbitrary: s)
  case (Cons i "is")
  from Cons.IH [of "unseen_input txis s i"] unseen_input_coins [OF assms, of s i] show ?case
    by (simp only: foldl_Cons) blast
qed simp

lemma fork_outputs_coins:
  "spendable (foldl (fork_output E t) w is) = spendable w \<and> Balance (foldl (fork_output E t) w is) = Balance w \<and>
   spent_coins (foldl (fork_output E t) w is) = spent_coins w \<and>
   set (pending (foldl (fork_output E t) w is)) \<subseteq> set (pending w) \<and>
   (distinct (pending w) \<longrightarrow> distinct (pending (foldl (fork_output E t) w is)))"
proof (induction "is" arbitrary: w)
  case (Cons i "is")
  have "spendable (fork_output E t w i) = spendable w \<and> Balance (fork_output E t w i) = Balance w \<and>
    spent_coins (fork_output E t w i) = spent_coins w \<and> set (pending (fork_output E t w i)) \<subseteq> set (pending w) \<and>
    (distinct (pending w) \<longrightarrow> distinct (pending (fork_output E t w i)))"
    by (auto simp: fork_output_def RemoveFromUnconfirmed_def spendable_def pending_def spent_coins_def
        case_prod_unfold distinct_map_filter Let_def)
  then show ?case using Cons.IH [of "fork_output E t w i"] by (simp only: foldl_Cons) blast
qed simp

lemma wallet_ok_respent:
  assumes "wallet_ok w" and "spendable w' = spendable w" and "Balance w' = Balance w"
    and "set (pending w') \<subseteq> set (pending w)" and "distinct (pending w')"
    and "spent_coins w' \<subseteq> spent_coins w \<union> X" and "X \<inter> (set (spendable w) \<union> set (pending w)) = {}"
  shows "wallet_ok w'"
proof -
  have d: "set (pending w) \<inter> set (spendable w) = {}" "set (pending w) \<inter> spent_coins w = {}"
    "set (spendable w) \<inter> spent_coins w = {}"
    using assms(1) by (simp_all add: wallet_ok_def Int_commute)
  have "set (spendable w) \<inter> set (pending w') = {}" using d(1) assms(4) by blast
  moreover have "set (pending w') \<inter> spent_coins w' = {}" using d(2) assms(4,6,7) by blast
  moreover have "set (spendable w) \<inter> spent_coins w' = {}" using d(3) assms(6,7) by blast
  ultimately show ?thesis using assms(1,2,3,5) by (simp add: wallet_ok_def)
qed

lemma fork_tx_ok:
  assumes ok: "wallet_ok w" and X: "snd ` set txis \<subseteq> X" "X \<inter> (set (spendable w) \<union> set (pending w)) = {}"
  shows "wallet_ok (fork_tx E txis w t) \<and>
    X \<inter> (set (spendable (fork_tx E txis w t)) \<union> set (pending (fork_tx E txis w t))) = {}"
proof -
  obtain v unseen where v: "foldl (unseen_input txis) (w, []) (Inputs (mt_tx t)) = (v, unseen)" by fastforce
  have v_coins: "spendable v = spendable w" "Balance v = Balance w" "pending v = pending w"
    "spent_coins v \<subseteq> spent_coins w" "set unseen \<subseteq> X"
    using unseen_inputs_coins [OF X(1), of "(w, [])" "Inputs (mt_tx t)"] v by simp_all
  define u where "u = (if unseen = [] then v
    else v\<lparr>UnseenSpentCoins := AList.update (Transaction_Hash E (mt_tx t)) unseen (UnseenSpentCoins v)\<rparr>)"
  have u_coins: "spendable u = spendable w" "Balance u = Balance w" "pending u = pending w"
    using v_coins by (simp_all add: u_def spendable_def pending_def)
  have "spent_coins u \<subseteq> spent_coins v \<union> X"
    using values_update_sets [of "Transaction_Hash E (mt_tx t)" unseen "UnseenSpentCoins v"] v_coins(5)
    unfolding u_def spent_coins_def by (cases "unseen = []") (simp_all, blast+)
  then have u_spent: "spent_coins u \<subseteq> spent_coins w \<union> X" using v_coins(4) by blast
  have "fork_tx E txis w t = foldl (fork_output E t) u [0..<length (Outputs (mt_tx t))]"
    by (simp add: fork_tx_def Let_def v u_def)
  then have f: "spendable (fork_tx E txis w t) = spendable w" "Balance (fork_tx E txis w t) = Balance w"
    "spent_coins (fork_tx E txis w t) \<subseteq> spent_coins w \<union> X" "set (pending (fork_tx E txis w t)) \<subseteq> set (pending w)"
    "distinct (pending (fork_tx E txis w t))"
    using fork_outputs_coins [of E t u "[0..<length (Outputs (mt_tx t))]"] u_coins u_spent ok
    by (simp_all add: wallet_ok_def)
  have "wallet_ok (fork_tx E txis w t)" by (rule wallet_ok_respent [OF ok f(1,2,4,5,3) X(2)])
  then show ?thesis using f(1,4) X(2) by auto
qed

lemma fork_txis_coins: "snd ` set (fork_txis order) \<subseteq> set order"
proof -
  have "snd ` set (foldl (\<lambda>m ci. AList.update (coin_input ci) ci m) m cs) \<subseteq> snd ` set m \<union> set cs" for m cs
  proof (induction cs arbitrary: m)
    case (Cons c cs)
    have "snd ` set (AList.update (coin_input c) c m) \<subseteq> insert c (snd ` set m)"
      using values_update [of "coin_input c" c m] by auto
    then show ?case using Cons.IH [of "AList.update (coin_input c) c m"] by (simp only: foldl_Cons list.set) blast
  qed simp
  from this [of "[]" order] show ?thesis by (simp add: fork_txis_def)
qed

lemma HandleFork_ok:
  assumes "wallet_ok w" and "set order \<subseteq> fst ` set (UnconfirmedSpentCoins w)"
  shows "wallet_ok (HandleFork E order w blocks)"
proof -
  have "set order \<subseteq> spent_coins w" using assms(2) by (auto simp: spent_coins_def)
  then have "set order \<inter> (set (spendable w) \<union> set (pending w)) = {}"
    using assms(1) unfolding wallet_ok_def by blast
  then have "wallet_ok (foldl (fork_tx E (fork_txis order)) w txs)" for txs
    using assms(1)
  proof (induction txs arbitrary: w)
    case (Cons t txs)
    then show ?case using fork_tx_ok [OF _ fork_txis_coins, of w order E t] by simp
  qed simp
  then show ?thesis by (simp add: HandleFork_def)
qed

section \<open>The life of a wallet\<close>

inductive wallet_reaches :: "('db, 'z) ext_scheme \<Rightarrow> wallet_Config \<Rightarrow> Wallet \<Rightarrow> bool"
  for E :: "('db, 'z) ext_scheme" and config :: wallet_Config where
  reaches_new: "Wallet_New config i = Some w \<Longrightarrow> wallet_reaches E config w"
| reaches_address: "wallet_reaches E config w \<Longrightarrow> wallet_reaches E config (Wallet_SetAddress w a)"
| reaches_request: "wallet_reaches E config w \<Longrightarrow> distinct order \<Longrightarrow> set order = set (spendable w) \<Longrightarrow>
    RequestTransaction E rnd order w amount fee pk = Some (r, w') \<Longrightarrow> wallet_reaches E config w'"
| reaches_block: "wallet_reaches E config w \<Longrightarrow> fresh_block E w txs \<Longrightarrow>
    wallet_reaches E config (Wallet_HandleBlock E w txs)"
| reaches_fork: "wallet_reaches E config w \<Longrightarrow> set order = fst ` set (UnconfirmedSpentCoins w) \<Longrightarrow>
    wallet_reaches E config (HandleFork E order w blocks)"

lemma wallet_reaches_ok: "wallet_reaches E config w \<Longrightarrow> wallet_ok w"
proof (induction rule: wallet_reaches.induct)
  case (reaches_new i w)
  then show ?case
    by (auto simp: Wallet_New_def wallet_ok_def spendable_def pending_def spent_coins_def split: if_splits)
next
  case (reaches_address w a)
  then show ?case
    by (simp add: Wallet_SetAddress_def wallet_ok_def spendable_def pending_def spent_coins_def)
qed (simp_all add: Wallet_HandleBlock_ok HandleFork_ok RequestTransaction_ok)

text \<open>
  C6: After any sequence of requests, blocks and forks, the wallet's balance is the sum of its
  spendable coins modulo \<open>2 ^ 32\<close>, no coin is counted twice, and no spent coin is spendable. The
  outputs of each new block must be objects the wallet does not hold yet.
\<close>

theorem wallet_balance_invariant:
  assumes "wallet_reaches E config w"
  shows "Balance w = sum_list (map coin_amount (spendable w)) \<and> distinct (spendable w) \<and>
    set (spendable w) \<inter> spent_coins w = {}"
  using wallet_reaches_ok [OF assms] by (simp add: wallet_ok_def)

end
