(* ===== verification/Wallet_Spend.thy ===== *)
theory Wallet_Spend
  imports Wallet_Balance Coin_Balance
begin

text \<open>
  What the transactions of the wallet spend and pay: a request pays the amount to the recipient
  and the change back and leaves exactly the fee; a funding transaction can be made without
  any coin.
\<close>

section \<open>Sums without wrap-around\<close>

definition nat_amount :: "CoinInfo list \<Rightarrow> nat" where
  "nat_amount cs = sum_list (map (unat \<circ> coin_amount) cs)"

lemma nat_amount_simps [simp]:
  "nat_amount [] = 0" "nat_amount (c # cs) = unat (coin_amount c) + nat_amount cs"
  "nat_amount (cs @ ds) = nat_amount cs + nat_amount ds"
  by (simp_all add: nat_amount_def)

lemma unat_sum_amounts: "nat_amount cs < 2 ^ 32 \<Longrightarrow> unat (sum_list (map coin_amount cs)) = nat_amount cs"
proof (induction cs)
  case (Cons c cs)
  then have "unat (sum_list (map coin_amount cs)) = nat_amount cs" by simp
  with Cons.prems show ?case by (simp add: u32_add_no_wrap)
qed simp

lemma nat_amount_order:
  assumes "distinct xs" and "distinct ys" and "set xs = set ys"
  shows "nat_amount xs = nat_amount ys"
proof -
  have "mset xs = mset ys" using assms by (simp add: set_eq_iff_mset_eq_distinct)
  then show ?thesis unfolding nat_amount_def by (metis mset_map sum_mset_sum_list)
qed

lemma nat_amount_take: "nat_amount (take k cs) \<le> nat_amount cs"
  by (metis append_take_drop_id nat_amount_simps(3) le_add1)

section \<open>Requests\<close>

lemma inputs_loop_total:
  "key \<noteq> None \<Longrightarrow> \<exists>r. inputs_loop E key rnd need cis tot ins infos = Some r"
  by (induction cis arbitrary: tot ins infos) (auto simp: Let_def)

lemma generateTransactionInputs_total:
  assumes "id_PrivateKey (w_Id w) \<noteq> None"
  shows "\<exists>change ins infos. generateTransactionInputs E rnd order w amount fee = Some (change, ins, infos)"
  using inputs_loop_total [OF assms, of E rnd "amount + fee" order 0 "[]" "[]"]
  by (auto simp: generateTransactionInputs_def)

lemma generated_inputs_suffice:
  assumes gen: "generateTransactionInputs E rnd order w amount fee = Some (change, ins, infos)"
    and small: "nat_amount order < 2 ^ 32" and need: "unat amount + unat fee \<le> nat_amount order"
  shows "unat change + unat amount + unat fee = nat_amount infos" and "locators ins = map input_of infos"
    and "\<exists>k. infos = take k order"
proof -
  obtain k where k: "infos = take k order" "change = sum_list (map coin_amount infos) - (amount + fee)"
    "locators ins = map input_of infos" "amount + fee \<le> sum_list (map coin_amount infos) \<or> infos = order"
    using generateTransactionInputs_spec [OF gen] by blast
  have "nat_amount infos < 2 ^ 32" using small nat_amount_take [of k order] k(1) by simp
  then have tot: "unat (sum_list (map coin_amount infos)) = nat_amount infos" by (rule unat_sum_amounts)
  have sum: "unat (amount + fee) = unat amount + unat fee" using small need by (intro u32_add_no_wrap) simp
  have "amount + fee \<le> sum_list (map coin_amount infos)"
    using k(4) need by (auto simp: word_le_nat_alt sum tot)
  then have "unat change = nat_amount infos - (unat amount + unat fee)"
    using k(2) tot sum by (simp add: u32_sub_no_wrap)
  moreover have "unat amount + unat fee \<le> nat_amount infos"
    using \<open>amount + fee \<le> _\<close> by (simp add: word_le_nat_alt sum tot)
  ultimately show "unat change + unat amount + unat fee = nat_amount infos" by simp
  show "locators ins = map input_of infos" "\<exists>k. infos = take k order" using k by blast+
qed

text \<open>The script that locks an output to a public key, and its reading back.\<close>

definition pay_to_key :: "('db, 'z) ext_scheme \<Rightarrow> bytes \<Rightarrow> bytes" where
  "pay_to_key E pk = marshal_or_empty (marshal_PayToPublicKey E \<lparr>p2pk_ScriptType = ScriptType_P2PK, p2pk_PublicKey = pk\<rparr>)"

lemma pay_to_key_reads:
  assumes "proto_laws E" and "script_laws E"
  shows "unmarshal_PayToPublicKey E (pay_to_key E pk) = (\<lparr>p2pk_ScriptType = ScriptType_P2PK, p2pk_PublicKey = pk\<rparr>, True)"
  using assms unmarshal_marshal_PayToPublicKey [of E] by (simp add: pay_to_key_def marshal_or_empty_def script_laws_def case_prod_unfold)

lemma generateTransactionOutputs_eq:
  "pk \<noteq> [] \<Longrightarrow> generateTransactionOutputs E w amount pk change =
     \<lparr>Amount = amount, LockingScript = pay_to_key E pk\<rparr> #
     (if change = 0 then [] else [\<lparr>Amount = change, LockingScript = pay_to_key E (PublicKeyBytes (w_Id w))\<rparr>])"
  by (simp add: generateTransactionOutputs_def pay_to_key_def Let_def)

text \<open>
  C21: A request the wallet can pay produces a transaction: its inputs are distinct spendable coins,
  its first output pays the amount and is locked to the recipient's key, and what the coins hold beyond amount and
  fee comes back in a second output locked to the wallet's own key, which is left out when nothing is left.
  Inputs exceed outputs by exactly the fee. The
  coins it spends are no longer spendable. The sums must fit into 32 bits and the recipient's key
  must not be empty.
\<close>

theorem request_transaction_conserves:
  assumes reach: "wallet_reaches E config w" and order: "distinct order" "set order = set (spendable w)"
    and small: "nat_amount (spendable w) < 2 ^ 32" and pos: "0 < unat amount + unat fee"
    and need: "unat amount + unat fee \<le> nat_amount (spendable w)"
    and pk: "pk \<noteq> []" and key: "id_PrivateKey (w_Id w) \<noteq> None"
  shows "\<exists>tx w' spent. RequestTransaction E rnd order w amount fee pk = Some (Some tx, w') \<and>
    distinct spent \<and> set spent \<subseteq> set (spendable w) \<and> locators (Inputs tx) = map input_of spent \<and>
    Amount (hd (Outputs tx)) = amount \<and>
    Outputs tx = \<lparr>Amount = amount, LockingScript = pay_to_key E pk\<rparr> #
      (if nat_amount spent = unat amount + unat fee then []
       else [\<lparr>Amount = word_of_nat (nat_amount spent - (unat amount + unat fee)), LockingScript = pay_to_key E (PublicKeyBytes (w_Id w))\<rparr>]) \<and>
    sum_list (map (unat \<circ> Amount) (Outputs tx)) + unat fee = nat_amount spent \<and>
    spendable w' = filter (\<lambda>c. c \<notin> set spent) (spendable w)"
proof -
  have ok: "Balance w = sum_list (map coin_amount (spendable w))" "distinct (spendable w)"
    using wallet_reaches_ok [OF reach] by (simp_all add: wallet_ok_def)
  have eq: "nat_amount order = nat_amount (spendable w)" by (rule nat_amount_order [OF order(1) ok(2) order(2)])
  obtain change ins infos where gen: "generateTransactionInputs E rnd order w amount fee = Some (change, ins, infos)"
    using generateTransactionInputs_total [OF key] by blast
  note suffice = generated_inputs_suffice [OF gen, unfolded eq, OF small need]
  obtain k where k: "infos = take k order" using suffice(3) by blast
  have "infos \<noteq> []" using suffice(1) pos by auto
  moreover have "\<not> Balance w < amount + fee"
  proof -
    have "unat (amount + fee) = unat amount + unat fee" using small need by (intro u32_add_no_wrap) simp
    then show ?thesis using need unat_sum_amounts [OF small] ok(1) by (simp add: word_less_nat_alt)
  qed
  ultimately obtain tx w' where req: "RequestTransaction E rnd order w amount fee pk = Some (Some tx, w')"
    and tx: "Inputs tx = ins" "Outputs tx = generateTransactionOutputs E w amount pk change"
    and w': "spendable w' = filter (\<lambda>c. c \<notin> set infos) (spendable w)"
    using gen by (simp add: RequestTransaction_def Let_def spendable_def keys_delete_fold)
  have outs: "Outputs tx = \<lparr>Amount = amount, LockingScript = pay_to_key E pk\<rparr> #
      (if change = 0 then [] else [\<lparr>Amount = change, LockingScript = pay_to_key E (PublicKeyBytes (w_Id w))\<rparr>])"
    unfolding tx(2) by (rule generateTransactionOutputs_eq [OF pk])
  then have sums: "sum_list (map (unat \<circ> Amount) (Outputs tx)) + unat fee = nat_amount infos" "Amount (hd (Outputs tx)) = amount"
    using suffice(1) by auto
  have rest: "unat change = nat_amount infos - (unat amount + unat fee)" "unat amount + unat fee \<le> nat_amount infos"
    using suffice(1) by simp_all
  then have "change = word_of_nat (nat_amount infos - (unat amount + unat fee))" by (simp flip: rest(1))
  moreover have "change = 0 \<longleftrightarrow> nat_amount infos = unat amount + unat fee" using rest unfolding unat_0_iff [symmetric] by linarith
  ultimately have "Outputs tx = \<lparr>Amount = amount, LockingScript = pay_to_key E pk\<rparr> #
      (if nat_amount infos = unat amount + unat fee then []
       else [\<lparr>Amount = word_of_nat (nat_amount infos - (unat amount + unat fee)), LockingScript = pay_to_key E (PublicKeyBytes (w_Id w))\<rparr>])"
    using outs by simp
  moreover have "distinct infos" "set infos \<subseteq> set (spendable w)" using k order set_take_subset [of k order] by simp_all
  ultimately show ?thesis
    using req tx(1) w' sums suffice(2) by (intro exI [of _ tx] exI [of _ w'] exI [of _ infos] conjI) simp_all
qed

section \<open>Funding transactions\<close>

text \<open>
  C35: The funding transaction for a channel is made whatever the wallet holds. From a wallet without
  spendable coins it has no inputs, so it passes for a coinbase, its outputs add up to the negated
  fee modulo \<open>2 ^ 32\<close>, and the coin database accepts it in a block.
\<close>

theorem funding_without_coins_mints:
  assumes "script_laws E" and "spendable w = []" and "set order = set (spendable w)"
  shows "\<exists>tx. GenerateFundingTransaction E rnd order w amount fee counterparty = Some (Some tx) \<and>
    IsCoinbase tx \<and> SumOutputs tx = - fee \<and> Amount (hd (Outputs tx)) = amount \<and> ValidateBlock E c [tx] = Some True"
proof -
  have "order = []" using assms(2,3) by simp
  then have gen: "generateTransactionInputs E rnd order w (amount + fee) fee = Some (- (amount + fee + fee), [], [])"
    by (simp add: generateTransactionInputs_def)
  obtain s where s: "marshal_MultiParty E (EncodeMultiParty
      \<lparr>mp_ScriptType = MULTI, mp_MyPublicKey = PublicKeyBytes (w_Id w), mp_TheirPublicKey = counterparty,
       mp_RevocationKey = [], mp_AdditionalBlocks = 0\<rparr>) = (s, True)"
    using assms(1) by (metis script_laws_def prod.collapse)
  show ?thesis
    by (simp add: GenerateFundingTransaction_def gen s IsCoinbase_def SumOutputs_def ValidateTransaction_def
        Let_def algebra_simps)
qed

end
