(* ===== verification/Channel_Funding.thy ===== *)
theory Channel_Funding
  imports Channel_Protocol Wallet_Spend
begin

text \<open>
  The wallet and the lightning node together: the funding transaction the wallet makes is one for
  which the refund transaction can be made, and the refund returns the deposit and the change.
\<close>

lemma funding_transaction_outputs:
  assumes "GenerateFundingTransaction E rnd order w amount fee cp = Some (Some fund)"
  obtains change ins infos o0 o1 o2 where
    "generateTransactionInputs E rnd order w (amount + fee) fee = Some (change, ins, infos)" "Inputs fund = ins"
    "Outputs fund = [o0, o1, o2]" "Amount o0 = amount" "Amount o1 = 0" "Amount o2 = change + fee"
  using assms
  by (auto simp: GenerateFundingTransaction_def case_prod_unfold Let_def split: option.splits if_splits)

lemma refund_panics: "length (Outputs fund) < 3 \<Longrightarrow> generateRefundTransaction E r A pk fund fee rk = None"
  by (cases "Outputs fund") (auto simp: generateRefundTransaction_def slice_get_def Let_def)

text \<open>
  C37: For a funding transaction made from a wallet with enough coins the refund transaction can be
  made; it spends the first and third output of the funding transaction and pays back everything but
  the two fees.
\<close>

theorem refund_returns_deposit:
  assumes fund: "GenerateFundingTransaction E rnd order w amount fee cp = Some (Some fund)"
    and small: "nat_amount order < 2 ^ 32" and need: "unat amount + 2 * unat fee \<le> nat_amount order"
    and key: "id_PrivateKey (ln_Id A) \<noteq> None"
  shows "\<exists>refund k. generateRefundTransaction E r A pk fund fee rk = Some refund \<and>
    locators (Inputs fund) = map input_of (take k order) \<and>
    locators (Inputs refund) = [(Transaction_Hash E fund, 0), (Transaction_Hash E fund, 2)] \<and>
    sum_list (map (unat \<circ> Amount) (Outputs refund)) + 2 * unat fee = nat_amount (take k order)"
  using fund
proof (rule funding_transaction_outputs)
  fix change ins infos o0 o1 o2
  assume gen: "generateTransactionInputs E rnd order w (amount + fee) fee = Some (change, ins, infos)"
    and ins: "Inputs fund = ins" and outs: "Outputs fund = [o0, o1, o2]" "Amount o0 = amount" "Amount o2 = change + fee"
  have af: "unat (amount + fee) = unat amount + unat fee" using small need by (intro u32_add_no_wrap) simp
  then have need': "unat (amount + fee) + unat fee \<le> nat_amount order" using need by simp
  note g = generated_inputs_suffice [OF gen small need']
  obtain k where k: "infos = take k order" using g(3) by blast
  have total: "unat change + unat amount + 2 * unat fee = nat_amount infos" using g(1) af by simp
  moreover have "nat_amount infos < 2 ^ 32" using small nat_amount_take [of k order] k by simp
  ultimately have cf: "unat (change + fee) = unat change + unat fee" and ca: "unat (amount + change) = unat amount + unat change"
    by (intro u32_add_no_wrap; simp)+
  obtain sk where sk: "id_PrivateKey (ln_Id A) = Some sk" using key by blast
  have "(if change + fee > fee then change + fee - fee else 0) = change"
    using cf by (cases "change = 0") (simp_all add: word_less_nat_alt unat_gt_0)
  then obtain refund where refund: "generateRefundTransaction E r A pk fund fee rk = Some refund"
    and "map Amount (Outputs refund) = [amount + change]"
    and "locators (Inputs refund) = [(Transaction_Hash E fund, 0), (Transaction_Hash E fund, 2)]"
    using outs sk by (cases "change + fee > fee") (simp_all add: generateRefundTransaction_def slice_get_def Let_def locators_def)
  moreover from this(2) have "sum_list (map (unat \<circ> Amount) (Outputs refund)) = unat amount + unat change"
    using ca by (auto simp: map_eq_Cons_conv)
  ultimately show ?thesis
    using g(2) ins k total by (intro exI [of _ refund] exI [of _ k]) simp
qed

section \<open>The watch tower\<close>

text \<open>
  The watch tower reports exactly the first transaction of the block that it has a revocation key for.
\<close>

lemma watch_tower_first:
  "WatchTower_HandleBlock E w b =
     (case filter (\<lambda>t. watched w (Transaction_Hash E t) \<noteq> None) (Transactions b) of
        [] \<Rightarrow> None
      | t # _ \<Rightarrow> watched w (Transaction_Hash E t))"
proof -
  have "watch_txs E w txs = (case filter (\<lambda>t. watched w (Transaction_Hash E t) \<noteq> None) txs of
      [] \<Rightarrow> None | t # _ \<Rightarrow> watched w (Transaction_Hash E t))" for txs
    by (induction txs) (auto split: option.split)
  then show ?thesis by (simp add: WatchTower_HandleBlock_def)
qed

end
