(* ===== verification/Node.thy ===== *)
theory Node
  imports Miner Channel_Funding
begin

text \<open>
  The node: \<open>src/pkg/node.go\<close>, \<open>config.go\<close>, \<open>validation.go\<close> and the handlers of
  \<open>server.go\<close>, over the block chain, the miner, the wallet, the lightning node and the databases
  of addresses and peers.

  A handler returns the new node and the tasks it starts: goroutines that call the miner or the wallet,
  and remote calls to peers. Handlers run under the node's mutex, one at a time. The node
  carries the disk of its block chain and a counter for the objects it allocates, because
  the wallet tells outputs apart by address. Clock readings, replies of channels and results of remote
  calls are arguments. The gRPC server, listening and logging are left out.
\<close>

section \<open>State\<close>

record node_Config =
  MinerConfig :: miner_Config
  WalletConfig :: wallet_Config
  ChainConfig :: bc_Config
  LightningConfig :: "lightning_Config option"
  HasCustomId :: bool
  CustomID :: "SimpleID option"
  nc_Version :: int
  PeerLimit :: int
  AddressLimit :: int
  Port :: int
  VersionTimeout :: int
  MaxBlockSize :: u32

definition node_DefaultConfig :: "int \<Rightarrow> node_Config" where
  "node_DefaultConfig port =
     \<lparr>MinerConfig = miner_DefaultConfig (-1), WalletConfig = wallet_DefaultConfig, ChainConfig = bc_DefaultConfig,
      LightningConfig = Some (lightning_DefaultConfig (port + 40)), HasCustomId = False, CustomID = None, nc_Version = 0,
      PeerLimit = 20, AddressLimit = 1000, Port = port, VersionTimeout = 2000000000, MaxBlockSize = 10000000\<rparr>"

definition TestingConfig :: "int \<Rightarrow> node_Config" where
  "TestingConfig port =
     \<lparr>MinerConfig = miner_DefaultConfig (-1), WalletConfig = wallet_DefaultConfig, ChainConfig = bc_DefaultConfig,
      LightningConfig = None, HasCustomId = False, CustomID = None, nc_Version = 0,
      PeerLimit = 20, AddressLimit = 1000, Port = port, VersionTimeout = 2000000000, MaxBlockSize = 10000000\<rparr>"

record TransactionWithCount =
  tc_Transaction :: Transaction
  tc_Count :: u32

record 'db Node =
  n_Config :: node_Config
  n_Address :: string
  n_Id :: SimpleID
  n_BlockChain :: "'db BlockChain"
  n_disk :: disk
  n_Wallet :: "Wallet option"
  n_Miner :: "Miner option"
  n_LightningNode :: LightningNode
  n_WatchTower :: WatchTower
  SeenTransactions :: "(string \<times> TransactionWithCount) list"
  SeenBlocks :: "(string \<times> u32) list"
  fGetAddr :: bool
  n_net :: Net
  Paused :: bool
  next_object :: nat

datatype node_task =
    MinerHandlesTransaction Transaction
  | MinerHandlesBlock Block
  | WalletHandlesBlock "MemTx list"
  | ForwardTransactionTo addr_ptr pro_TransactionWithAddress
  | ForwardBlockTo addr_ptr pro_Block
  | SendVersionTo string pro_VersionRequest
  | ReplyVersionTo string pro_VersionRequest
  | SendAddressesTo addr_ptr "pro_Address list"
  | ReplyInputSums "u32 list"
  | ReplyFundingTransaction "Transaction option"

text \<open>Objects: the outputs of the \<open>k\<close>-th transaction get the addresses from the \<open>k\<close>-th base on.\<close>

fun allocate_txs :: "nat \<Rightarrow> Transaction list \<Rightarrow> MemTx list \<times> nat" where
  "allocate_txs k [] = ([], k)"
| "allocate_txs k (t # ts) =
     (let (ms, k') = allocate_txs (k + length (Outputs t)) ts
      in (\<lparr>mt_tx = t, mt_addr = (\<lambda>i. k + i)\<rparr> # ms, k'))"

text \<open>
  \<open>New\<close>: a failing block chain panics or stops the program; a missing configuration of the lightning node is a nil
  dereference. The watch tower starts without a map and without a channel. The inner error is a failed
  key generation, which leaves nil identities whose first use panics.
\<close>

definition Node_New ::
  "('db, 'z) ext_scheme \<Rightarrow> (string \<Rightarrow> bool) \<Rightarrow> nat \<Rightarrow> nat \<Rightarrow> 'db \<Rightarrow> 'db \<Rightarrow> disk \<Rightarrow> node_Config \<Rightarrow> (key_error + 'db Node) option" where
  "Node_New E mkdir rnd1 rnd2 infoDB coinDB disk conf =
     do { (bc, disk) \<leftarrow> BlockChain_New E mkdir infoDB coinDB disk (ChainConfig conf);
          lc \<leftarrow> LightningConfig conf;
          Some (case (id_New E rnd1, lightning_New E rnd2 lc) of
             (Inr i, Inr ln) \<Rightarrow>
               Inr \<lparr>n_Config = conf, n_Address = '''', n_Id = i, n_BlockChain = bc, n_disk = disk,
                    n_Wallet = Wallet_New (WalletConfig conf) i, n_Miner = Miner_New E (MinerConfig conf) i,
                    n_LightningNode = ln, n_WatchTower = \<lparr>wt_Id = i, wt_RevocationKeys = None\<rparr>,
                    SeenTransactions = [], SeenBlocks = [], fGetAddr = False, n_net = net_New, Paused = False,
                    next_object = 0\<rparr>
           | (Inl e, _) \<Rightarrow> Inl e
           | (_, Inl e) \<Rightarrow> Inl e) }"

section \<open>Validation (\<open>validation.go\<close>)\<close>

definition CheckBlockSyntax :: "Block \<Rightarrow> bool" where
  "CheckBlockSyntax b =
     (case Transactions b of [] \<Rightarrow> False | t # _ \<Rightarrow> IsCoinbase t \<and> SumOutputs t > 0)"

definition CheckBlockSemantics :: "Block \<Rightarrow> bool" where
  "CheckBlockSemantics b = True"

definition CheckBlockConfiguration :: "'db Node \<Rightarrow> Block \<Rightarrow> bool option" where
  "CheckBlockConfiguration n b = map_option (\<lambda>sz. sz \<le> MaxBlockSize (n_Config n)) (Block_Size b)"

definition CheckBlock :: "('db, 'z) ext_scheme \<Rightarrow> 'db Node \<Rightarrow> Block option \<Rightarrow> bool option" where
  "CheckBlock E n b =
     (case b of None \<Rightarrow> Some False | Some b \<Rightarrow> ValidateBlock E (CoinDB (n_BlockChain n)) (Transactions b))"

definition CheckTransactionSyntax :: "Transaction \<Rightarrow> bool" where
  "CheckTransactionSyntax t =
     (let a = (length (Inputs t) > 0 \<and> length (Outputs t) > 0) in
      if list_ex (\<lambda>txo. Amount txo \<le> 0) (Outputs t) then False else a)"

definition CheckTransactionSemantics :: "'db Node \<Rightarrow> Transaction \<Rightarrow> bool" where
  "CheckTransactionSemantics n tx = False"

definition CheckNonOrphanSemantically :: "'db Node \<Rightarrow> Transaction \<Rightarrow> bool" where
  "CheckNonOrphanSemantically n t = True"

definition CheckTransactionConfiguration :: "'db Node \<Rightarrow> Transaction \<Rightarrow> bool" where
  "CheckTransactionConfiguration n t = (Transaction_Size t \<le> MaxBlockSize (n_Config n))"

definition CheckTransaction :: "'db Node \<Rightarrow> Transaction \<Rightarrow> bool" where
  "CheckTransaction n tx = True"

section \<open>Handlers (\<open>server.go\<close>)\<close>

datatype node_error = NotAPeer | InvalidTx | InvalidBlock | WitnessesUnavailable | WitnessNotFound | NoPeers | NoResponses

definition peer_addrs :: "'db Node \<Rightarrow> addr_ptr list" where
  "peer_addrs n = map p_Addr (pdb_List (PeerDb (n_net n)))"

definition peerCheck :: "u32 \<Rightarrow> 'db Node \<Rightarrow> string \<Rightarrow> (node_error + unit) \<times> 'db Node" where
  "peerCheck now n addr =
     (let net = n_net n in
      if pdb_Get (PeerDb net) addr = None then (Inl NotAPeer, n)
      else (Inr (), n\<lparr>n_net := net\<lparr>addr_store := snd (pdb_UpdateLastSeen (addr_store net) (PeerDb net) addr now)\<rparr>\<rparr>))"

definition version_request :: "'db Node \<Rightarrow> string \<Rightarrow> pro_VersionRequest" where
  "version_request n addrYou =
     \<lparr>pv_Version = word_of_int (nc_Version (n_Config n)), pv_AddrYou = addrYou, pv_AddrMe = n_Address n,
      pv_BestHeight = Length (n_BlockChain n)\<rparr>"

definition Node_Version ::
  "int \<times> int \<times> int \<Rightarrow> 'db Node \<Rightarrow> pro_VersionRequest \<Rightarrow> 'db Node \<times> node_task list" where
  "Node_Version clock n req =
     (if int (unat (pv_Version req)) \<noteq> nc_Version (n_Config n) then (n, [])
      else let (reply, net) = accept_version (VersionTimeout (n_Config n)) clock (n_net n) req;
               n = n\<lparr>n_net := net\<rparr>
           in (n, if reply then [ReplyVersionTo (pv_AddrMe req) (version_request n (pv_AddrYou req))] else []))"

text \<open>\<open>GetBlockRecord\<close> never returns nil, so the test for an unknown block is never taken.\<close>

definition Node_GetBlocks :: "('db, 'z) ext_scheme \<Rightarrow> 'db Node \<Rightarrow> string \<Rightarrow> string list option" where
  "Node_GetBlocks E n topBlockHash =
     (let bc = n_BlockChain n; ind = br_Height (GetBlockRecord E (BlockInfoDB bc) topBlockHash) in
      if ind < Length bc
      then let upperIndex = (if ind + 500 < Length bc then ind + 500 else Length bc)
           in map_option (map (Block_Hash E)) (GetBlocks E bc (n_disk n) (ind + 1) upperIndex)
      else Some [])"

definition GetData :: "('db, 'z) ext_scheme \<Rightarrow> 'db Node \<Rightarrow> string \<Rightarrow> pro_Block option" where
  "GetData E n blockHash = map_option EncodeBlock (GetBlock E (n_BlockChain n) (n_disk n) blockHash)"

text \<open>One address of \<open>SendAddresses\<close>; the flag is \<open>foundNew\<close>.\<close>

definition learn_address :: "'db Node \<times> bool \<times> node_task list \<Rightarrow> pro_Address \<Rightarrow> 'db Node \<times> bool \<times> node_task list" where
  "learn_address st a =
     (let (n, foundNew, tasks) = st in
      if pa_Addr a = n_Address n then st
      else
        let net = n_net n;
            (p, s) = alloc (addr_store net) (address_New (pa_Addr a) (pa_LastSeen a));
            (net', found) =
              (case pdb_Get (PeerDb net) (pa_Addr a) of
                 Some peer \<Rightarrow>
                   if a_LastSeen (s ! p_Addr peer) < pa_LastSeen a
                   then (net\<lparr>addr_store := snd (pdb_UpdateLastSeen s (PeerDb net) (pa_Addr a) (pa_LastSeen a))\<rparr>, True)
                   else (net\<lparr>addr_store := s\<rparr>, foundNew)
               | None \<Rightarrow>
                   (case adb_Get (AddressDB net) (pa_Addr a) of
                      Some q \<Rightarrow>
                        if a_LastSeen (s ! q) < pa_LastSeen a
                        then (net\<lparr>addr_store := snd (adb_UpdateLastSeen s (AddressDB net) (pa_Addr a) (pa_LastSeen a))\<rparr>, foundNew)
                        else (net\<lparr>addr_store := s\<rparr>, foundNew)
                    | None \<Rightarrow>
                        (case adb_Add s (AddressDB net) p of
                           (Inr _, adb) \<Rightarrow> (net\<lparr>addr_store := s, AddressDB := adb\<rparr>, True)
                         | (Inl _, _) \<Rightarrow> (net\<lparr>addr_store := s\<rparr>, foundNew))))
        in (n\<lparr>n_net := net'\<rparr>, found, tasks @ [SendVersionTo (pa_Addr a) (version_request n (pa_Addr a))]))"

definition SendAddresses ::
  "(string list \<Rightarrow> string list) \<Rightarrow> 'db Node \<Rightarrow> pro_Address list \<Rightarrow> ('db Node \<times> node_task list) option" where
  "SendAddresses shuffle n addrs =
     (let (n, foundNew, tasks) = foldl learn_address (n, False, []) addrs in
      if foundNew
      then map_option (\<lambda>bcPeers. (n, tasks @ map (\<lambda>p. SendAddressesTo (p_Addr p) addrs) bcPeers))
             (pdb_GetRandom shuffle (PeerDb (n_net n)) 2 [n_Address n])
      else Some (n, tasks))"

definition GetAddresses :: "'db Node \<Rightarrow> pro_Address list" where
  "GetAddresses n = adb_Serialize (addr_store (n_net n)) (AddressDB (n_net n))"

text \<open>
  The bookkeeping of \<open>ForwardTransaction\<close>: the witnesses of a new segwit transaction are fetched from the
  sender, whose address must be known, else the nil address panics.
\<close>

definition note_transaction ::
  "('db, 'z) ext_scheme \<Rightarrow> (addr_ptr \<Rightarrow> pro_Transaction option \<Rightarrow> bytes list option) \<Rightarrow> 'db Node \<Rightarrow> pro_TransactionWithAddress \<Rightarrow>
   (node_error + 'db Node) option" where
  "note_transaction E rpc n req =
     (let myTx = DecodeTransaction (pta_Transaction req); hash = Transaction_Hash E myTx in
      case map_of (SeenTransactions n) hash of
        Some tc \<Rightarrow> Some (Inr (n\<lparr>SeenTransactions := AList.update hash (tc\<lparr>tc_Count := tc_Count tc + 1\<rparr>) (SeenTransactions n)\<rparr>))
      | None \<Rightarrow>
          if Segwit myTx
          then (case adb_Get (AddressDB (n_net n)) (pta_Address req) of
                  None \<Rightarrow> None
                | Some a \<Rightarrow>
                    (case rpc a (pta_Transaction req) of
                       None \<Rightarrow> Some (Inl WitnessesUnavailable)
                     | Some ws \<Rightarrow> Some (Inr (n\<lparr>SeenTransactions := AList.update hash
                         \<lparr>tc_Transaction = myTx\<lparr>Witnesses := ws\<rparr>, tc_Count = 1\<rparr> (SeenTransactions n)\<rparr>))))
          else Some (Inr (n\<lparr>SeenTransactions := AList.update hash
                 \<lparr>tc_Transaction = myTx, tc_Count = 1\<rparr> (SeenTransactions n)\<rparr>)))"

text \<open>
  The handler up to its return. With an active miner the code does not return: \<open>HandleTransaction\<close> sends on the unbuffered
  channel \<open>PoolUpdated\<close>, on which nothing receives. The goroutines of \<open>Node_Threads\<close> model that wait; here the send is taken as
  done, so the result stands for the handler only where the miner is missing or not active, which the properties of the relay assume.
\<close>

definition ForwardTransaction ::
  "('db, 'z) ext_scheme \<Rightarrow> (addr_ptr \<Rightarrow> pro_Transaction option \<Rightarrow> bytes list option) \<Rightarrow> u32 list option \<Rightarrow> 'db Node \<Rightarrow>
   pro_TransactionWithAddress \<Rightarrow> ((node_error + unit) \<times> 'db Node \<times> node_task list) option" where
  "ForwardTransaction E rpc reply n req =
     (let theirTx = fst (DecodeTransactionWithAddress req) in
      case note_transaction E rpc n req of
        None \<Rightarrow> None
      | Some (Inl e) \<Rightarrow> Some (Inl e, n, [])
      | Some (Inr n) \<Rightarrow>
          if \<not> CheckTransaction n theirTx then Some (Inl InvalidTx, n, [])
          else
            do { m \<leftarrow> (if HasMiner (MinerConfig (n_Config n))
                       then (case n_Miner n of
                               None \<Rightarrow> None
                             | Some m \<Rightarrow> map_option (Some \<circ> fst) (HandleTransaction m reply (Some theirTx)))
                       else Some (n_Miner n));
                 Some (Inr (), n\<lparr>n_Miner := m\<rparr>,
                   map (\<lambda>a. ForwardTransactionTo a \<lparr>pta_Transaction = Some (EncodeTransaction theirTx), pta_Address = n_Address n\<rparr>)
                     (peer_addrs n)) })"

text \<open>A block is handled unless it was seen more than once before.\<close>

definition note_block :: "(string \<times> u32) list \<Rightarrow> string \<Rightarrow> bool \<times> (string \<times> u32) list" where
  "note_block seen hash =
     (case map_of seen hash of
        Some numSeen \<Rightarrow> (\<not> numSeen > 1, AList.update hash (numSeen + 1) seen)
      | None \<Rightarrow> (True, AList.update hash 1 seen))"

definition ForwardBlock ::
  "('db, 'z) ext_scheme \<Rightarrow> 'db Node \<Rightarrow> pro_Block \<Rightarrow> ((node_error + unit) \<times> 'db Node \<times> node_task list) option" where
  "ForwardBlock E n pb =
     (let b = DecodeBlock pb;
          (txs, k) = allocate_txs (next_object n) (Transactions b);
          (new, seen) = note_block (SeenBlocks n) (Block_Hash E b);
          n = n\<lparr>SeenBlocks := seen, next_object := k\<rparr>
      in if \<not> new then Some (Inr (), n, [])
         else
           do { ok \<leftarrow> CheckBlock E n (Some b);
                if \<not> ok then Some (Inl InvalidBlock, n, [])
                else
                  do { mnChn \<leftarrow> (if LastHash (n_BlockChain n) = h_PreviousHash (b_Header b)
                                 then ValidateBlock E (CoinDB (n_BlockChain n)) (Transactions b) else Some False);
                       (bc, disk) \<leftarrow> HandleBlock E (n_BlockChain n) (n_disk n) b;
                       Some (Inr (), n\<lparr>n_BlockChain := bc, n_disk := disk\<rparr>,
                         (if HasMiner (MinerConfig (n_Config n)) \<and> mnChn then [MinerHandlesBlock b] else []) @
                         (if HasWallet (WalletConfig (n_Config n)) \<and> mnChn then [WalletHandlesBlock txs] else []) @
                         map (\<lambda>a. ForwardBlockTo a (EncodeBlock b)) (peer_addrs n)) } })"

definition GetWitnesses :: "('db, 'z) ext_scheme \<Rightarrow> 'db Node \<Rightarrow> pro_Transaction option \<Rightarrow> node_error + bytes list" where
  "GetWitnesses E n ptx =
     (case map_of (SeenTransactions n) (Transaction_Hash E (DecodeTransaction ptx)) of
        Some tc \<Rightarrow> Inr (Witnesses (tc_Transaction tc))
      | None \<Rightarrow> Inl WitnessNotFound)"

section \<open>Operations of the node (\<open>node.go\<close>)\<close>

text \<open>The transaction is sent without its witnesses; peers ask for them by \<open>GetWitnesses\<close>.\<close>

definition BroadcastTransaction :: "('db, 'z) ext_scheme \<Rightarrow> 'db Node \<Rightarrow> Transaction \<Rightarrow> 'db Node \<times> node_task list" where
  "BroadcastTransaction E n tx =
     (n\<lparr>SeenTransactions := AList.update (Transaction_Hash E tx) \<lparr>tc_Transaction = tx, tc_Count = 1\<rparr> (SeenTransactions n)\<rparr>,
      (if HasMiner (MinerConfig (n_Config n)) then [MinerHandlesTransaction tx] else []) @
      map (\<lambda>a. ForwardTransactionTo a
             \<lparr>pta_Transaction = Some ((EncodeTransaction tx)\<lparr>pt_Witnesses := []\<rparr>), pta_Address = n_Address n\<rparr>)
        (peer_addrs n))"

text \<open>
  \<open>Start\<close> up to the server and the loop below. A configuration with a miner, a chain or a wallet whose
  object is missing panics.
\<close>

definition Node_Start :: "string \<Rightarrow> 'db Node \<Rightarrow> 'db Node option" where
  "Node_Start hostname n =
     (let addr = hostname @ '':'' @ string_of_int (Port (n_Config n));
          net = n_net n
      in do { m \<leftarrow> (if HasMiner (MinerConfig (n_Config n))
                     then map_option (\<lambda>m. Some (Miner_SetAddress m addr)) (n_Miner n) else Some (n_Miner n));
              w \<leftarrow> (if HasWallet (WalletConfig (n_Config n))
                     then map_option (\<lambda>w. Some (Wallet_SetAddress w addr)) (n_Wallet n) else Some (n_Wallet n));
              Some (n\<lparr>n_Address := addr, n_net := net\<lparr>PeerDb := pdb_SetAddr (PeerDb net) addr\<rparr>,
                      n_Miner := m,
                      n_BlockChain := (if HasChain (ChainConfig (n_Config n)) then SetAddress (n_BlockChain n) addr else n_BlockChain n),
                      n_Wallet := w,
                      n_LightningNode := ln_Start hostname (ln_SetAddress (n_LightningNode n) addr)\<rparr>) })"

text \<open>
  The transactions of a mined block are the objects the miner was given, so they come with
  the addresses of their outputs.
\<close>

definition HandleMinerBlock ::
  "('db, 'z) ext_scheme \<Rightarrow> 'db Node \<Rightarrow> Header \<Rightarrow> MemTx list \<Rightarrow> ('db Node \<times> node_task list) option" where
  "HandleMinerBlock E n header txs =
     (let b = \<lparr>b_Header = header, Transactions = map mt_tx txs\<rparr>;
          n = n\<lparr>SeenBlocks := AList.update (Block_Hash E b) 1 (SeenBlocks n)\<rparr>
      in do { (bc, disk) \<leftarrow> HandleBlock E (n_BlockChain n) (n_disk n) b;
              w \<leftarrow> (if HasWallet (WalletConfig (n_Config n))
                     then map_option (\<lambda>w. Some (Wallet_HandleBlock E w txs)) (n_Wallet n) else Some (n_Wallet n));
              Some (n\<lparr>n_BlockChain := bc, n_disk := disk, n_Wallet := w\<rparr>,
                    map (\<lambda>a. ForwardBlockTo a (EncodeBlock b)) (peer_addrs n)) })"

definition Node_GetBalance :: "('db, 'z) ext_scheme \<Rightarrow> 'db Node \<Rightarrow> bytes \<Rightarrow> (u32 \<times> 'db Node) option" where
  "Node_GetBalance E n pk =
     map_option (\<lambda>(balance, bc). (balance, n\<lparr>n_BlockChain := bc\<rparr>)) (BlockChain_GetBalance E (n_BlockChain n) pk)"

definition Node_StartMiner :: "'db Node \<Rightarrow> 'db Node option" where
  "Node_StartMiner n = map_option (\<lambda>m. n\<lparr>n_Miner := Some (StartMiner m)\<rparr>) (n_Miner n)"

definition Node_ConnectToPeer :: "'db Node \<Rightarrow> string \<Rightarrow> node_task" where
  "Node_ConnectToPeer n addr = SendVersionTo addr (version_request n addr)"

definition BroadcastAddress :: "u32 \<Rightarrow> 'db Node \<Rightarrow> node_task list" where
  "BroadcastAddress now n =
     map (\<lambda>a. SendAddressesTo a [\<lparr>pa_Addr = n_Address n, pa_LastSeen = now\<rparr>]) (peer_addrs n)"

text \<open>
  \<open>Bootstrap\<close>: the peers answer in some order, an error is \<^const>\<open>None\<close>; the first longest answer wins.
  A failed \<open>GetDataRPC\<close> is a nil response, whose use panics; a response without a block decodes
  to the zero block.
\<close>

definition longer_response ::
  "(addr_ptr \<times> string list) option \<Rightarrow> addr_ptr \<times> string list option \<Rightarrow> (addr_ptr \<times> string list) option" where
  "longer_response longestRes r =
     (case r of
        (_, None) \<Rightarrow> longestRes
      | (a, Some hs) \<Rightarrow>
          (case longestRes of
             None \<Rightarrow> Some (a, hs)
           | Some (_, hs') \<Rightarrow> if length hs > length hs' then Some (a, hs) else longestRes))"

definition bootstrap_block ::
  "('db, 'z) ext_scheme \<Rightarrow> (addr_ptr \<Rightarrow> string \<Rightarrow> pro_Block option option) \<Rightarrow> addr_ptr \<Rightarrow> 'db Node \<Rightarrow> string \<Rightarrow> 'db Node option" where
  "bootstrap_block E getData addr n h =
     do { pb \<leftarrow> getData addr h;
          let b = DecodeBlock (nil_default \<lparr>pb_Header = None, pb_Transactions = []\<rparr> pb);
          (bc, disk) \<leftarrow> HandleBlock E (n_BlockChain n) (n_disk n) b;
          Some (n\<lparr>SeenBlocks := AList.update (Block_Hash E b) 1 (SeenBlocks n), n_BlockChain := bc, n_disk := disk\<rparr>) }"

definition Bootstrap ::
  "('db, 'z) ext_scheme \<Rightarrow> (addr_ptr \<times> string list option) list \<Rightarrow> (addr_ptr \<Rightarrow> string \<Rightarrow> pro_Block option option) \<Rightarrow>
   'db Node \<Rightarrow> (node_error + 'db Node) option" where
  "Bootstrap E responses getData n =
     (if peer_addrs n = [] then Some (Inl NoPeers)
      else case foldl longer_response None responses of
             None \<Rightarrow> Some (Inl NoResponses)
           | Some (addr, hs) \<Rightarrow> map_option Inr (fold_opt (bootstrap_block E getData addr) n hs))"

section \<open>The loop of \<open>Start\<close>\<close>

text \<open>
  The messages the loop receives. Without a miner it only receives requests of the wallet. The channels
  \<open>ConfirmBlock\<close> of the chain and \<open>RevokedTransactions\<close> of the watch tower are never made, so nothing
  ever arrives on them. Without a wallet the first evaluation of the channels panics.
\<close>

datatype node_event =
    TransactionRequest Transaction
  | MinedBlock Header "MemTx list"
  | ConfirmedBlock "MemTx list"
  | InputSumsRequest "Transaction list"
  | FundingRequest "CoinInfo \<Rightarrow> nat" "CoinInfo list" WalletRequest
  | LightningBroadcast Transaction
  | RevocationKeyReceived RevocationInfo
  | RevokedTransaction nat RevocationInfo

definition node_receives :: "'db Node \<Rightarrow> node_event \<Rightarrow> bool" where
  "node_receives n ev \<longleftrightarrow> HasMiner (MinerConfig (n_Config n)) \<or> (case ev of TransactionRequest _ \<Rightarrow> True | _ \<Rightarrow> False)"

definition node_handles :: "('db, 'z) ext_scheme \<Rightarrow> 'db Node \<Rightarrow> node_event \<Rightarrow> ('db Node \<times> node_task list) option" where
  "node_handles E n ev =
     do { w \<leftarrow> n_Wallet n;
          case ev of
            TransactionRequest t \<Rightarrow> Some (BroadcastTransaction E n t)
          | MinedBlock header txs \<Rightarrow> HandleMinerBlock E n header txs
          | ConfirmedBlock txs \<Rightarrow> Some (n\<lparr>n_Wallet := Some (Wallet_HandleBlock E w txs)\<rparr>, [])
          | InputSumsRequest txs \<Rightarrow> map_option (\<lambda>sums. (n, [ReplyInputSums sums])) (GetInputSums E (n_BlockChain n) txs)
          | FundingRequest rnd order req \<Rightarrow>
              map_option (\<lambda>tx. (n, [ReplyFundingTransaction tx]))
                (GenerateFundingTransaction E rnd order w (wr_Amount req) (wr_Fee req) (wr_CounterPartyPubKey req))
          | LightningBroadcast tx \<Rightarrow> Some (BroadcastTransaction E n tx)
          | RevocationKeyReceived r \<Rightarrow>
              map_option (\<lambda>m. (n\<lparr>n_WatchTower := (n_WatchTower n)\<lparr>wt_RevocationKeys := Some (AList.update (TransactionHash r) r m)\<rparr>\<rparr>, []))
                (wt_RevocationKeys (n_WatchTower n))
          | RevokedTransaction rnd r \<Rightarrow>
              map_option (\<lambda>_. (n, []))
                (HandleRevokedOutput E rnd w (TransactionHash r) (ri_TransactionOutput r) (ri_OutputIndex r) (RevKey r) (ri_ScriptType r)) }"

inductive node_step :: "('db, 'z) ext_scheme \<Rightarrow> 'db Node \<Rightarrow> node_event \<Rightarrow> node_task list \<Rightarrow> 'db Node \<Rightarrow> bool" for E where
  node_select: "node_receives n ev \<Longrightarrow> node_handles E n ev = Some (n', tasks) \<Longrightarrow> node_step E n ev tasks n'"

inductive_simps node_step_iff: "node_step E n ev tasks n'"

end
