(* ===== verification/Node_Machine.thy ===== *)
theory Node_Machine
  imports Node
begin

text \<open>
  The node as a state machine: every handler of \<open>src/pkg/server.go\<close>, every operation of \<open>node.go\<close> and the
  loop of \<open>Start\<close> is a move; the invariants below hold after any moves from a new node.
\<close>

section \<open>State machines\<close>

locale state_machine =
  fixes init :: "'s \<Rightarrow> bool" and move :: "'s \<Rightarrow> 's \<Rightarrow> bool" and inv :: "'s \<Rightarrow> bool"
  assumes init_inv: "init s \<Longrightarrow> inv s" and move_inv: "inv s \<Longrightarrow> move s s' \<Longrightarrow> inv s'"
begin

lemma invariant: "init s \<Longrightarrow> move\<^sup>*\<^sup>* s s' \<Longrightarrow> inv s'"
  by (rotate_tac, induction rule: rtranclp_induct) (auto intro: init_inv move_inv)

end

section \<open>Moves of the node\<close>

definition new_node :: "('db, 'z) ext_scheme \<Rightarrow> 'db Node \<Rightarrow> bool" where
  "new_node E n \<longleftrightarrow> (\<exists>mkdir rnd1 rnd2 infoDB coinDB disk conf. Node_New E mkdir rnd1 rnd2 infoDB coinDB disk conf = Some (Inr n))"

inductive node_move :: "('db, 'z) ext_scheme \<Rightarrow> 'db Node \<Rightarrow> 'db Node \<Rightarrow> bool" for E where
  move_start: "Node_Start hostname n = Some n' \<Longrightarrow> node_move E n n'"
| move_loop: "node_step E n ev tasks n' \<Longrightarrow> node_move E n n'"
| move_version: "Node_Version clock n req = (n', tasks) \<Longrightarrow> node_move E n n'"
| move_addresses: "SendAddresses shuffle n addrs = Some (n', tasks) \<Longrightarrow> node_move E n n'"
| move_transaction: "ForwardTransaction E rpc reply n msg = Some (r, n', tasks) \<Longrightarrow> node_move E n n'"
| move_block: "ForwardBlock E n pb = Some (r, n', tasks) \<Longrightarrow> node_move E n n'"
| move_check: "peerCheck now n addr = (r, n') \<Longrightarrow> node_move E n n'"
| move_balance: "Node_GetBalance E n pk = Some (balance, n') \<Longrightarrow> node_move E n n'"
| move_miner: "Node_StartMiner n = Some n' \<Longrightarrow> node_move E n n'"
| move_bootstrap: "Bootstrap E responses getData n = Some (Inr n') \<Longrightarrow> node_move E n n'"

section \<open>The watch tower\<close>

lemma foldl_learn_tower: "n_WatchTower (fst (foldl learn_address st addrs)) = n_WatchTower (fst st)"
  by (induction addrs arbitrary: st) (auto simp: learn_address_def Let_def case_prod_unfold)

lemma fold_opt_keeps:
  assumes "\<And>s x s'. f s x = Some s' \<Longrightarrow> g s' = g s" and "fold_opt f s xs = Some s'"
  shows "g s' = g s"
  using assms(2)
proof (induction xs arbitrary: s)
  case (Cons x xs)
  then show ?case using assms(1) by (auto split: option.splits)
qed simp

lemma bootstrap_block_keeps:
  "bootstrap_block E getData a n h = Some n' \<Longrightarrow> n_WatchTower n' = n_WatchTower n \<and> n_net n' = n_net n"
  by (auto simp: bootstrap_block_def bind_eq_Some_conv Let_def)

lemma Bootstrap_keeps:
  assumes "Bootstrap E responses getData n = Some (Inr n')"
  shows "n_WatchTower n' = n_WatchTower n" "n_net n' = n_net n"
proof -
  from assms obtain a hs where "fold_opt (bootstrap_block E getData a) n hs = Some n'"
    by (auto simp: Bootstrap_def split: if_splits option.splits)
  then show "n_WatchTower n' = n_WatchTower n" "n_net n' = n_net n"
    by (rule fold_opt_keeps [rotated], use bootstrap_block_keeps in blast)+
qed

lemma note_transaction_keeps:
  assumes "note_transaction E rpc n msg = Some (Inr n')"
  shows "n_WatchTower n' = n_WatchTower n \<and> n_net n' = n_net n"
  using assms by (auto simp: note_transaction_def Let_def split: option.splits if_splits)

lemma ForwardTransaction_keeps:
  assumes "ForwardTransaction E rpc reply n msg = Some (r, n', tasks)"
  shows "n_WatchTower n' = n_WatchTower n \<and> n_net n' = n_net n"
  using assms note_transaction_keeps
  by (fastforce simp: ForwardTransaction_def Let_def bind_eq_Some_conv split: option.splits sum.splits if_splits)

lemma ForwardBlock_keeps:
  assumes "ForwardBlock E n pb = Some (r, n', tasks)"
  shows "n_WatchTower n' = n_WatchTower n \<and> n_net n' = n_net n"
  using assms by (auto simp: ForwardBlock_def Let_def case_prod_unfold bind_eq_Some_conv split: if_splits)

lemma node_handles_keeps:
  assumes "node_handles E n ev = Some (n', tasks)"
  shows "n_net n' = n_net n" "wt_RevocationKeys (n_WatchTower n) = None \<Longrightarrow> n_WatchTower n' = n_WatchTower n"
  using assms
  by (cases ev; fastforce simp: node_handles_def BroadcastTransaction_def HandleMinerBlock_def Let_def bind_eq_Some_conv)+

lemma node_move_tower:
  assumes "node_move E n n'" and "wt_RevocationKeys (n_WatchTower n) = None"
  shows "n_WatchTower n' = n_WatchTower n"
  using assms
proof cases
  case (move_addresses shuffle addrs tasks)
  then show ?thesis
    using foldl_learn_tower [of "(n, False, [])" addrs] by (auto simp: SendAddresses_def case_prod_unfold Let_def split: if_splits)
qed (auto simp: Node_Start_def Node_Version_def Let_def peerCheck_def Node_GetBalance_def Node_StartMiner_def bind_eq_Some_conv
    node_step_iff case_prod_unfold
    dest: node_handles_keeps(2) ForwardTransaction_keeps ForwardBlock_keeps Bootstrap_keeps(1) split: if_splits)

lemma Node_New_parts:
  assumes "new_node E n"
  shows "wt_RevocationKeys (n_WatchTower n) = None" "n_net n = net_New"
proof -
  from assms obtain mkdir rnd1 rnd2 infoDB coinDB disk conf where new: "Node_New E mkdir rnd1 rnd2 infoDB coinDB disk conf = Some (Inr n)"
    by (auto simp: new_node_def)
  then obtain lc where lc: "LightningConfig conf = Some lc" by (auto simp: Node_New_def bind_eq_Some_conv)
  obtain i ln where "id_New E rnd1 = Inr i" "lightning_New E rnd2 lc = Inr ln"
    using new lc by (cases "id_New E rnd1"; cases "lightning_New E rnd2 lc") (auto simp: Node_New_def bind_eq_Some_conv)
  then show "wt_RevocationKeys (n_WatchTower n) = None" "n_net n = net_New"
    using new lc by (auto simp: Node_New_def bind_eq_Some_conv)
qed

interpretation tower: state_machine "new_node E" "node_move E" "\<lambda>n. wt_RevocationKeys (n_WatchTower n) = None"
  for E :: "('db, 'z) ext_scheme"
  by unfold_locales (auto simp: Node_New_parts node_move_tower)

text \<open>
  C39: The watch tower of a running node never holds a key: its map is never made, so the first revocation key the node
  receives panics, and no block ever catches a revoked transaction.
\<close>

theorem watch_tower_never_armed:
  assumes "new_node E n" and "(node_move E)\<^sup>*\<^sup>* n n'"
  shows "node_handles E n' (RevocationKeyReceived r) = None \<and> WatchTower_HandleBlock E (n_WatchTower n') b = None"
proof -
  have none: "wt_RevocationKeys (n_WatchTower n') = None" by (rule tower.invariant [OF assms])
  have "watch_txs E (n_WatchTower n') txs = None" for txs
    by (induction txs) (simp_all add: watched_def none)
  then show ?thesis by (simp add: WatchTower_HandleBlock_def node_handles_def none bind_eq_None_conv split: option.split)
qed

section \<open>Addresses and peers\<close>

lemma net_ok_add:
  assumes "net_ok net" and "map_of (addresses (AddressDB net)) addr = None"
    and "adb_Add (addr_store net @ [address_New addr t]) (AddressDB net) (length (addr_store net)) = (Inr u, adb)"
  shows "net_ok (net\<lparr>addr_store := addr_store net @ [address_New addr t], AddressDB := adb\<rparr>)"
proof -
  have "net_ok (net\<lparr>addr_store := addr_store net @ [address_New addr t]\<rparr>)" by (rule net_ok_alloc [OF assms(1)])
  then show ?thesis
    using assms
    by (auto simp: net_ok_def adb_Add_def update_conv' length_AList_update nth_append address_New_def split: if_splits)
qed

lemma net_ok_alloc_seen:
  "net_ok net \<Longrightarrow> net_ok (net\<lparr>addr_store := set_LastSeen (addr_store net @ [a]) p t\<rparr>)"
  by (rule net_ok_store) (simp_all add: nth_append)

text \<open>The limits the node is made with.\<close>

definition network_ok :: "Net \<Rightarrow> bool" where
  "network_ok net \<longleftrightarrow> net_ok net \<and> adb_limit (AddressDB net) = 1000 \<and> pdb_limit (PeerDb net) = 200"

lemma accept_version_network:
  assumes "network_ok net"
  shows "network_ok (snd (accept_version timeout clock net req))"
proof -
  have "net_ok (snd (accept_version timeout clock net req))"
    using accept_version_ok [of net timeout clock req] assms by (metis network_ok_def prod.collapse)
  moreover have "adb_limit (AddressDB net') = adb_limit (AddressDB net) \<and> PeerDb net' = PeerDb net"
    if "known_address net a t = Some net'" for net' a t
    using that by (auto simp: known_address_def alloc_def Let_def adb_Add_def split: if_splits prod.splits sum.splits)
  ultimately show ?thesis
    using assms
    by (auto simp: network_ok_def accept_version_def Let_def pdb_Add_def case_prod_unfold split: option.split)
qed

lemma learn_address_ok:
  assumes "network_ok (n_net n)"
  shows "network_ok (n_net (fst (learn_address (n, f, ts) a)))"
proof -
  have ok: "net_ok (n_net n)" using assms by (simp add: network_ok_def)
  have lim: "adb_limit adb = 1000" if "adb_Add s (AddressDB (n_net n)) p = (r, adb)" for s p r adb
    using that assms by (auto simp: adb_Add_def network_ok_def split: if_splits)
  show ?thesis
    using assms net_ok_alloc [OF ok] net_ok_alloc_seen [OF ok] net_ok_add [OF ok, of "pa_Addr a" "pa_LastSeen a"]
    by (auto simp: network_ok_def learn_address_def Let_def alloc_def pdb_Get_def adb_Get_def pdb_UpdateLastSeen_def
        adb_UpdateLastSeen_def dest: lim split: option.splits sum.splits prod.splits if_splits)
qed

lemma foldl_learn_ok:
  assumes "network_ok (n_net (fst st))"
  shows "network_ok (n_net (fst (foldl learn_address st addrs)))"
  using assms
proof (induction addrs arbitrary: st)
  case (Cons a addrs)
  obtain n f ts where "st = (n, f, ts)" by (metis prod_cases3)
  then show ?case using Cons learn_address_ok [of n f ts a] by simp
qed simp

lemma node_move_net:
  assumes "node_move E n n'" and "network_ok (n_net n)"
  shows "network_ok (n_net n')"
  using assms
proof cases
  case (move_start hostname)
  then show ?thesis
    using assms(2) by (auto simp: Node_Start_def Let_def bind_eq_Some_conv network_ok_def net_ok_def pdb_SetAddr_def)
next
  case (move_version clock req tasks)
  then show ?thesis
    using accept_version_network [OF assms(2), of "VersionTimeout (n_Config n)" clock req] assms(2)
    by (auto simp: Node_Version_def Let_def case_prod_unfold split: if_splits)
next
  case (move_addresses shuffle addrs tasks)
  then show ?thesis
    using foldl_learn_ok [of "(n, False, [])" addrs] assms(2) by (auto simp: SendAddresses_def case_prod_unfold Let_def split: if_splits)
next
  case (move_check now addr r)
  then show ?thesis
    using assms(2) net_ok_set_LastSeen [of "n_net n"]
    by (auto simp: peerCheck_def network_ok_def Let_def pdb_UpdateLastSeen_def split: if_splits option.splits)
qed (auto simp: Node_GetBalance_def Node_StartMiner_def node_step_iff node_handles_keeps(1)
    dest: ForwardTransaction_keeps ForwardBlock_keeps Bootstrap_keeps(2))

lemma net_New_network: "network_ok net_New"
  using net_New_ok by (simp add: network_ok_def) (simp add: net_New_def addressdb_New_def peer_NewDb_def)

interpretation network: state_machine "new_node E" "node_move E" "\<lambda>n. network_ok (n_net n)"
  for E :: "('db, 'z) ext_scheme"
  by unfold_locales (auto simp: Node_New_parts net_New_network node_move_net)

text \<open>
  C17: After any moves of a new node, the databases of addresses and peers are consistent: a peer is a known address and
  shares its address object, that object carries the key as its address, and there are at most 1000 addresses and 200 peers.
\<close>

theorem node_network_invariant:
  assumes "new_node E n" and "(node_move E)\<^sup>*\<^sup>* n n'"
  shows "length (adb_List (AddressDB (n_net n'))) \<le> 1000 \<and> length (pdb_List (PeerDb (n_net n'))) \<le> 200 \<and>
    (\<forall>k p. pdb_Get (PeerDb (n_net n')) k = Some p \<longrightarrow>
       adb_Get (AddressDB (n_net n')) k = Some (p_Addr p) \<and> p_Addr p < length (addr_store (n_net n')) \<and>
       a_Addr (addr_store (n_net n') ! p_Addr p) = k)"
  using network.invariant [OF assms]
  by (auto simp: network_ok_def net_ok_def adb_List_def pdb_List_def pdb_Get_def adb_Get_def)

end
