(* ===== verification/Node_Threads.thy ===== *)
theory Node_Threads
  imports Node_Machine
begin

text \<open>
  The goroutines of one process: the handlers \<open>ForwardTransaction\<close> and \<open>ForwardBlock\<close> of \<open>src/pkg/server.go\<close>, which hold the mutex of
  the node, the goroutines of miner and wallet they start, \<open>CreateChannel\<close> of the lightning node (\<open>lightning/channel.go\<close>), and the loop of
  \<open>Start\<close> (\<open>node.go\<close>). A goroutine is named by its place in a list and runs without interruption from one operation that may block to
  the next: locking the mutex, and sending and receiving on the unbuffered channels \<open>GetInputSums\<close>, \<open>InputSums\<close> and \<open>PoolUpdated\<close> of
  the miner (\<open>miner.go\<close>, \<open>mine.go\<close>) and \<open>GetTransactionFromWallet\<close>, \<open>ReceiveTransactionFromWallet\<close> and \<open>BroadcastTransaction\<close> of the
  lightning node. Nothing in the program receives on \<open>PoolUpdated\<close>, so a send on it has no step while the channel is open; nothing calls
  \<open>Mine\<close>, \<open>Pause\<close> or \<open>Kill\<close> of the miner either. Remote calls are answered arbitrarily and at once; time is not counted, so a timeout may
  come at any moment of the wait.
\<close>

section \<open>State\<close>

text \<open>Who called \<open>HandleTransaction\<close> of the miner: the handler, under the mutex, or \<open>BroadcastTransaction\<close> by a \<open>go\<close> statement.\<close>

datatype caller = Handler | Goroutine

datatype thread =
    TxWaits pro_TransactionWithAddress
  | TxHolds pro_TransactionWithAddress
  | SumsAsked caller Transaction
  | SumsAwaited caller Transaction
  | PoolNotified caller "Transaction option"
  | TxForwards Transaction
  | BlockWaits pro_Block
  | BlockHolds pro_Block
  | MinerBlocks Block
  | WalletBlocks "MemTx list"
  | FundingAsked Peer WalletRequest
  | FundingAwaited Peer WalletRequest
  | FundingSent Transaction
  | Finished

text \<open>
  The loop waits in its \<open>select\<close>, or it has computed sums or a funding transaction and waits for somebody to receive them.
\<close>

datatype loop_state = LoopSelects | LoopReplies "Transaction list" "u32 list" | LoopFunds WalletRequest "Transaction option"

record 'db process =
  p_node :: "'db Node"
  p_lock :: "nat option"
  p_loop :: loop_state
  p_threads :: "thread list"
  p_out :: "node_task list"
  p_down :: bool

section \<open>Steps\<close>

definition thread_at :: "'db process \<Rightarrow> nat \<Rightarrow> thread \<Rightarrow> bool" where
  "thread_at s i t \<longleftrightarrow> i < length (p_threads s) \<and> p_threads s ! i = t"

definition goes :: "'db process \<Rightarrow> nat \<Rightarrow> thread \<Rightarrow> 'db process" where
  "goes s i t = s\<lparr>p_threads := (p_threads s)[i := t]\<rparr>"

text \<open>The goroutines among the tasks of an operation; the others are remote calls.\<close>

definition goroutine :: "node_task \<Rightarrow> thread option" where
  "goroutine t =
     (case t of
        MinerHandlesTransaction tx \<Rightarrow> Some (SumsAsked Goroutine tx)
      | MinerHandlesBlock b \<Rightarrow> Some (MinerBlocks b)
      | WalletHandlesBlock txs \<Rightarrow> Some (WalletBlocks txs)
      | _ \<Rightarrow> None)"

definition start_tasks :: "'db process \<Rightarrow> node_task list \<Rightarrow> 'db process" where
  "start_tasks s tasks = s\<lparr>p_threads := p_threads s @ List.map_filter goroutine tasks,
     p_out := p_out s @ filter (\<lambda>t. goroutine t = None) tasks\<rparr>"

text \<open>\<open>HandleTransaction\<close> of the miner once it has the sums: up to the send, and where the caller goes on.\<close>

definition pool_add :: "Miner \<Rightarrow> u32 list \<Rightarrow> Transaction \<Rightarrow> Miner option" where
  "pool_add m sums tx =
     do { s \<leftarrow> slice_get sums 0;
          tp \<leftarrow> TxPool_Add (m_TxPool m) (Some tx) s;
          Some (m\<lparr>m_TxPool := tp\<rparr>) }"

text \<open>\<open>UpdateTXPool\<close> up to the send.\<close>

definition pool_update :: "('db, 'z) ext_scheme \<Rightarrow> Miner \<Rightarrow> Transaction list \<Rightarrow> Miner" where
  "pool_update E m txs = (if txs = [] then m else m\<lparr>m_TxPool := CheckTransactions E (m_TxPool m) (map Some txs)\<rparr>)"

definition handled :: "caller \<Rightarrow> Transaction \<Rightarrow> thread" where
  "handled c tx = (case c of Handler \<Rightarrow> TxForwards tx | Goroutine \<Rightarrow> Finished)"

definition sums_received :: "'db process \<Rightarrow> nat \<Rightarrow> caller \<Rightarrow> Transaction \<Rightarrow> u32 list \<Rightarrow> 'db process" where
  "sums_received s i c tx sums =
     (case do { m \<leftarrow> n_Miner (p_node s); pool_add m sums tx } of
        None \<Rightarrow> s\<lparr>p_down := True\<rparr>
      | Some m \<Rightarrow> goes (s\<lparr>p_node := (p_node s)\<lparr>n_Miner := Some m\<rparr>\<rparr>) i
                    (if Active m then PoolNotified c (Some tx) else handled c tx))"

text \<open>
  \<open>CreateChannel\<close> of the lightning node once the wallet has answered or the time is up: a transaction to broadcast is sent to the
  loop by a goroutine of its own.
\<close>

definition open_channel ::
  "('db, 'z) ext_scheme \<Rightarrow> nat \<Rightarrow> nat \<Rightarrow> Transaction option option \<Rightarrow> (pro_OpenChannelRequest \<Rightarrow> pro_OpenChannelResponse option) \<Rightarrow>
   'db process \<Rightarrow> nat \<Rightarrow> Peer \<Rightarrow> WalletRequest \<Rightarrow> 'db process" where
  "open_channel E rnd1 rnd2 reply rpc s i p req =
     (case CreateChannel E rnd1 rnd2 (\<lambda>_. reply) rpc (n_LightningNode (p_node s)) p (wr_CounterPartyPubKey req) (wr_Amount req) (wr_Fee req) of
        None \<Rightarrow> s\<lparr>p_down := True\<rparr>
      | Some (ln, txs) \<Rightarrow>
          let s = goes s i Finished
          in s\<lparr>p_node := (p_node s)\<lparr>n_LightningNode := ln\<rparr>, p_threads := p_threads s @ map FundingSent txs\<rparr>)"

lemma late_funding_panics: "open_channel E rnd1 rnd2 None rpc s i p req = s\<lparr>p_down := True\<rparr>"
  by (cases "GenerateRevocationKey E rnd1")
    (simp_all add: open_channel_def CreateChannel_def CreateChannel_request_def ln_generateFundingTransaction_def
      getTransactionFromWallet_def case_prod_unfold)

text \<open>
  The operations that do not take the mutex: the handlers of versions and addresses, the check of a peer, balances, starting the
  miner, and \<open>Bootstrap\<close>, whose calls are answered without interruption.
\<close>

inductive unlocked_move :: "('db, 'z) ext_scheme \<Rightarrow> 'db Node \<Rightarrow> node_task list \<Rightarrow> 'db Node \<Rightarrow> bool" for E where
  unlocked_version: "Node_Version clock n req = (n', tasks) \<Longrightarrow> unlocked_move E n tasks n'"
| unlocked_addresses: "SendAddresses shuffle n addrs = Some (n', tasks) \<Longrightarrow> unlocked_move E n tasks n'"
| unlocked_check: "peerCheck now n addr = (r, n') \<Longrightarrow> unlocked_move E n [] n'"
| unlocked_balance: "Node_GetBalance E n pk = Some (balance, n') \<Longrightarrow> unlocked_move E n [] n'"
| unlocked_miner: "Node_StartMiner n = Some n' \<Longrightarrow> unlocked_move E n [] n'"
| unlocked_bootstrap: "Bootstrap E responses getData n = Some (Inr n') \<Longrightarrow> unlocked_move E n [] n'"

text \<open>The requests after which the loop has to hand over an answer.\<close>

definition asks :: "node_event \<Rightarrow> bool" where
  "asks ev = (case ev of InputSumsRequest _ \<Rightarrow> True | FundingRequest _ _ _ \<Rightarrow> True | _ \<Rightarrow> False)"

inductive thread_step :: "('db, 'z) ext_scheme \<Rightarrow> 'db process \<Rightarrow> 'db process \<Rightarrow> bool" for E where
  call_tx: "\<not> p_down s \<Longrightarrow> thread_step E s (s\<lparr>p_threads := p_threads s @ [TxWaits msg]\<rparr>)"
| call_block: "\<not> p_down s \<Longrightarrow> thread_step E s (s\<lparr>p_threads := p_threads s @ [BlockWaits pb]\<rparr>)"
| unlocked: "\<not> p_down s \<Longrightarrow> unlocked_move E (p_node s) tasks n \<Longrightarrow> thread_step E s (start_tasks (s\<lparr>p_node := n\<rparr>) tasks)"
| unlocked_panic: "\<not> p_down s \<Longrightarrow> SendAddresses shuffle (p_node s) addrs = None \<or> Node_GetBalance E (p_node s) pk = None \<or>
    Node_StartMiner (p_node s) = None \<or> Bootstrap E responses getData (p_node s) = None \<Longrightarrow>
    thread_step E s (s\<lparr>p_down := True\<rparr>)"
| tx_lock: "\<not> p_down s \<Longrightarrow> thread_at s i (TxWaits msg) \<Longrightarrow> p_lock s = None \<Longrightarrow>
    thread_step E s (goes (s\<lparr>p_lock := Some i\<rparr>) i (TxHolds msg))"
| tx_panic: "\<not> p_down s \<Longrightarrow> thread_at s i (TxHolds msg) \<Longrightarrow> note_transaction E rpc (p_node s) msg = None \<Longrightarrow>
    thread_step E s (s\<lparr>p_down := True\<rparr>)"
| tx_error: "\<not> p_down s \<Longrightarrow> thread_at s i (TxHolds msg) \<Longrightarrow> note_transaction E rpc (p_node s) msg = Some (Inl e) \<Longrightarrow>
    thread_step E s (goes (s\<lparr>p_lock := None\<rparr>) i Finished)"
| tx_noted: "\<not> p_down s \<Longrightarrow> thread_at s i (TxHolds msg) \<Longrightarrow> note_transaction E rpc (p_node s) msg = Some (Inr n) \<Longrightarrow>
    CheckTransaction n tx \<Longrightarrow> tx = fst (DecodeTransactionWithAddress msg) \<Longrightarrow>
    thread_step E s (goes (s\<lparr>p_node := n\<rparr>) i (if HasMiner (MinerConfig (n_Config n)) then SumsAsked Handler tx else TxForwards tx))"
| tx_invalid: "\<not> p_down s \<Longrightarrow> thread_at s i (TxHolds msg) \<Longrightarrow> note_transaction E rpc (p_node s) msg = Some (Inr n) \<Longrightarrow>
    \<not> CheckTransaction n (fst (DecodeTransactionWithAddress msg)) \<Longrightarrow>
    thread_step E s (goes (s\<lparr>p_node := n, p_lock := None\<rparr>) i Finished)"
| ask_sums: "\<not> p_down s \<Longrightarrow> thread_at s i (SumsAsked c tx) \<Longrightarrow> p_loop s = LoopSelects \<Longrightarrow>
    node_step E (p_node s) (InputSumsRequest [tx]) [ReplyInputSums sums] n \<Longrightarrow>
    thread_step E s (goes (s\<lparr>p_node := n, p_loop := LoopReplies [tx] sums\<rparr>) i (SumsAwaited c tx))"
| sums_in_time: "\<not> p_down s \<Longrightarrow> thread_at s i (SumsAwaited c tx) \<Longrightarrow> p_loop s = LoopReplies txs sums \<Longrightarrow>
    thread_step E s (sums_received (s\<lparr>p_loop := LoopSelects\<rparr>) i c tx sums)"
| sums_too_late: "\<not> p_down s \<Longrightarrow> thread_at s i (SumsAwaited c tx) \<Longrightarrow> thread_step E s (sums_received s i c tx [0])"
| call_channel: "\<not> p_down s \<Longrightarrow> thread_step E s (s\<lparr>p_threads := p_threads s @ [FundingAsked p req]\<rparr>)"
| ask_funding: "\<not> p_down s \<Longrightarrow> thread_at s i (FundingAsked p req) \<Longrightarrow> p_loop s = LoopSelects \<Longrightarrow>
    node_step E (p_node s) (FundingRequest rnd order req) [ReplyFundingTransaction tx] n \<Longrightarrow>
    thread_step E s (goes (s\<lparr>p_node := n, p_loop := LoopFunds req tx\<rparr>) i (FundingAwaited p req))"
| funding_in_time: "\<not> p_down s \<Longrightarrow> thread_at s i (FundingAwaited p req) \<Longrightarrow> p_loop s = LoopFunds req' tx \<Longrightarrow>
    thread_step E s (open_channel E rnd1 rnd2 (Some tx) rpc (s\<lparr>p_loop := LoopSelects\<rparr>) i p req)"
| funding_too_late: "\<not> p_down s \<Longrightarrow> thread_at s i (FundingAwaited p req) \<Longrightarrow>
    thread_step E s (open_channel E rnd1 rnd2 None rpc s i p req)"
| send_funding: "\<not> p_down s \<Longrightarrow> thread_at s i (FundingSent tx) \<Longrightarrow> p_loop s = LoopSelects \<Longrightarrow>
    node_step E (p_node s) (LightningBroadcast tx) tasks n \<Longrightarrow>
    thread_step E s (start_tasks (goes (s\<lparr>p_node := n\<rparr>) i Finished) tasks)"
| pool_closed: "\<not> p_down s \<Longrightarrow> thread_at s i (PoolNotified c tx) \<Longrightarrow> n_Miner (p_node s) = Some m \<Longrightarrow> channels_closed m \<Longrightarrow>
    thread_step E s (s\<lparr>p_down := True\<rparr>)"
| tx_forward: "\<not> p_down s \<Longrightarrow> thread_at s i (TxForwards tx) \<Longrightarrow>
    thread_step E s (start_tasks (goes (s\<lparr>p_lock := None\<rparr>) i Finished)
      (map (\<lambda>a. ForwardTransactionTo a \<lparr>pta_Transaction = Some (EncodeTransaction tx), pta_Address = n_Address (p_node s)\<rparr>)
        (peer_addrs (p_node s))))"
| block_lock: "\<not> p_down s \<Longrightarrow> thread_at s i (BlockWaits pb) \<Longrightarrow> p_lock s = None \<Longrightarrow>
    thread_step E s (goes (s\<lparr>p_lock := Some i\<rparr>) i (BlockHolds pb))"
| block_handled: "\<not> p_down s \<Longrightarrow> thread_at s i (BlockHolds pb) \<Longrightarrow> ForwardBlock E (p_node s) pb = Some (r, n, tasks) \<Longrightarrow>
    thread_step E s (start_tasks (goes (s\<lparr>p_node := n, p_lock := None\<rparr>) i Finished) tasks)"
| block_panic: "\<not> p_down s \<Longrightarrow> thread_at s i (BlockHolds pb) \<Longrightarrow> ForwardBlock E (p_node s) pb = None \<Longrightarrow>
    thread_step E s (s\<lparr>p_down := True\<rparr>)"
| miner_block: "\<not> p_down s \<Longrightarrow> thread_at s i (MinerBlocks b) \<Longrightarrow> n_Miner (p_node s) = Some m \<Longrightarrow>
    thread_step E s (goes (s\<lparr>p_node := (p_node s)\<lparr>n_Miner := Some (pool_update E (IncrementChainLength m) (Transactions b))\<rparr>\<rparr>) i
      (if Active m \<and> Transactions b \<noteq> [] then PoolNotified Goroutine None else Finished))"
| wallet_block: "\<not> p_down s \<Longrightarrow> thread_at s i (WalletBlocks txs) \<Longrightarrow> n_Wallet (p_node s) = Some w \<Longrightarrow>
    thread_step E s (goes (s\<lparr>p_node := (p_node s)\<lparr>n_Wallet := Some (Wallet_HandleBlock E w txs)\<rparr>\<rparr>) i Finished)"
| nil_panic: "\<not> p_down s \<Longrightarrow> thread_at s i (MinerBlocks b) \<and> n_Miner (p_node s) = None \<or>
    thread_at s i (WalletBlocks txs) \<and> n_Wallet (p_node s) = None \<or> thread_at s i (SumsAsked c tx) \<and> n_Miner (p_node s) = None \<Longrightarrow>
    thread_step E s (s\<lparr>p_down := True\<rparr>)"
| loop_step: "\<not> p_down s \<Longrightarrow> p_loop s = LoopSelects \<Longrightarrow> \<not> asks ev \<Longrightarrow> node_step E (p_node s) ev tasks n \<Longrightarrow>
    thread_step E s (start_tasks (s\<lparr>p_node := n\<rparr>) tasks)"
| loop_panic: "\<not> p_down s \<Longrightarrow> p_loop s = LoopSelects \<Longrightarrow> node_receives (p_node s) ev \<Longrightarrow> node_handles E (p_node s) ev = None \<Longrightarrow>
    thread_step E s (s\<lparr>p_down := True\<rparr>)"

inductive_cases thread_stepE: "thread_step E s s'"

text \<open>The miner's operations are these parts followed by the send.\<close>

lemma HandleTransaction_parts:
  "HandleTransaction m reply (Some tx) =
     do { m \<leftarrow> pool_add m (getInputSums reply) tx;
          (m, ev) \<leftarrow> (if Active m then send_PoolUpdated m else Some (m, []));
          Some (m, RequestInputSums [tx] # ev) }"
  by (cases "slice_get (getInputSums reply) 0"; cases "TxPool_Add (m_TxPool m) (Some tx) (the (slice_get (getInputSums reply) 0))")
    (simp_all add: HandleTransaction_def pool_add_def Let_def)

lemma Miner_HandleBlock_parts:
  "Miner_HandleBlock E m (Some b) =
     (let m' = pool_update E (IncrementChainLength m) (Transactions b) in
      if Active m \<and> Transactions b \<noteq> [] then send_PoolUpdated m' else Some (m', []))"
  by (simp add: Miner_HandleBlock_def UpdateTXPool_def pool_update_def IncrementChainLength_def Let_def)

section \<open>The mutex\<close>

definition holds_lock :: "thread \<Rightarrow> bool" where
  "holds_lock t =
     (case t of
        TxHolds _ \<Rightarrow> True
      | BlockHolds _ \<Rightarrow> True
      | TxForwards _ \<Rightarrow> True
      | SumsAsked c _ \<Rightarrow> c = Handler
      | SumsAwaited c _ \<Rightarrow> c = Handler
      | PoolNotified c _ \<Rightarrow> c = Handler
      | _ \<Rightarrow> False)"

definition awaits :: "thread \<Rightarrow> bool" where
  "awaits t = (case t of SumsAwaited _ _ \<Rightarrow> True | FundingAwaited _ _ \<Rightarrow> True | _ \<Rightarrow> False)"

definition answers :: "loop_state \<Rightarrow> thread \<Rightarrow> bool" where
  "answers lp t =
     (case t of
        SumsAwaited c tx \<Rightarrow> (case lp of LoopReplies txs sums \<Rightarrow> txs = [tx] | _ \<Rightarrow> False)
      | FundingAwaited p req \<Rightarrow> (case lp of LoopFunds req' tx \<Rightarrow> req' = req | _ \<Rightarrow> False)
      | _ \<Rightarrow> False)"

text \<open>
  A goroutine holds the mutex exactly at the points between locking and unlocking. At most one waits for an answer of the loop, and then
  the loop has the answer to its request.
\<close>

definition threads_inv :: "nat option \<Rightarrow> loop_state \<Rightarrow> thread list \<Rightarrow> bool" where
  "threads_inv lock loop ts \<longleftrightarrow>
     (\<forall>i. lock = Some i \<longleftrightarrow> i < length ts \<and> holds_lock (ts ! i)) \<and>
     (\<forall>i < length ts. awaits (ts ! i) \<longrightarrow> answers loop (ts ! i)) \<and>
     (\<forall>i j. i < length ts \<longrightarrow> j < length ts \<longrightarrow> awaits (ts ! i) \<longrightarrow> awaits (ts ! j) \<longrightarrow> i = j)"

definition threads_ok :: "'db process \<Rightarrow> bool" where
  "threads_ok s \<longleftrightarrow> threads_inv (p_lock s) (p_loop s) (p_threads s)"

lemma holds_lock_simps [simp]:
  "holds_lock (TxHolds msg)" "holds_lock (BlockHolds pb)" "holds_lock (TxForwards tx)" "holds_lock (SumsAsked c tx) = (c = Handler)"
  "holds_lock (SumsAwaited c tx) = (c = Handler)" "holds_lock (PoolNotified c u) = (c = Handler)" "\<not> holds_lock (TxWaits msg)"
  "\<not> holds_lock (BlockWaits pb)" "\<not> holds_lock (MinerBlocks b)" "\<not> holds_lock (WalletBlocks txs)" "\<not> holds_lock Finished"
  "\<not> holds_lock (FundingAsked p req)" "\<not> holds_lock (FundingAwaited p req)" "\<not> holds_lock (FundingSent tx)"
  "holds_lock (handled c tx) = (c = Handler)"
  by (simp_all add: holds_lock_def handled_def split: caller.split)

lemma awaits_simps [simp]:
  "\<not> awaits (TxHolds msg)" "\<not> awaits (BlockHolds pb)" "\<not> awaits (TxForwards tx)" "\<not> awaits (SumsAsked c tx)"
  "awaits (SumsAwaited c tx)" "\<not> awaits (PoolNotified c u)" "\<not> awaits (TxWaits msg)"
  "\<not> awaits (BlockWaits pb)" "\<not> awaits (MinerBlocks b)" "\<not> awaits (WalletBlocks txs)" "\<not> awaits Finished"
  "\<not> awaits (FundingAsked p req)" "awaits (FundingAwaited p req)" "\<not> awaits (FundingSent tx)"
  "\<not> awaits (handled c tx)"
  by (simp_all add: awaits_def handled_def split: caller.split)

lemma goroutine_thread: "goroutine t = Some th \<Longrightarrow> \<not> holds_lock th \<and> \<not> awaits th"
  by (auto simp: goroutine_def split: node_task.splits)

lemma threads_ok_fields [simp]:
  "threads_ok (s\<lparr>p_node := n\<rparr>) = threads_ok s" "threads_ok (s\<lparr>p_down := d\<rparr>) = threads_ok s"
  by (simp_all add: threads_ok_def threads_inv_def thread_at_def)

lemma threads_ok_new:
  assumes "threads_ok s" and "\<forall>t \<in> set ts. \<not> holds_lock t \<and> \<not> awaits t"
  shows "threads_ok (s\<lparr>p_threads := p_threads s @ ts, p_out := os\<rparr>)"
proof -
  have old: "holds_lock ((p_threads s @ ts) ! i) \<longleftrightarrow> holds_lock (p_threads s ! i) \<and> i < length (p_threads s)"
    "awaits ((p_threads s @ ts) ! i) \<longleftrightarrow> awaits (p_threads s ! i) \<and> i < length (p_threads s)"
    if "i < length (p_threads s @ ts)" for i
    using that assms(2) by (auto simp: nth_append)
  have "answers (p_loop s) ((p_threads s @ ts) ! i)" if "i < length (p_threads s @ ts)" "awaits ((p_threads s @ ts) ! i)" for i
    using old(2) [OF that(1)] that(2) assms(1) by (auto simp: threads_ok_def threads_inv_def nth_append)
  then show ?thesis
    using assms(1) old unfolding threads_ok_def threads_inv_def by auto
qed

lemma threads_ok_start: "threads_ok s \<Longrightarrow> threads_ok (start_tasks s tasks)"
  unfolding start_tasks_def
  by (rule threads_ok_new) (auto simp: List.map_filter_def dest: goroutine_thread)

text \<open>A step of one goroutine that keeps, takes or gives back the mutex.\<close>

lemma threads_ok_goes:
  assumes "threads_ok s" and "thread_at s i t" and "\<not> awaits t'"
    and "if holds_lock t' then holds_lock t \<and> l = p_lock s \<or> p_lock s = None \<and> l = Some i
         else (if holds_lock t then l = None else l = p_lock s)"
    and "lp = p_loop s \<or> awaits t"
  shows "threads_ok (goes (s\<lparr>p_lock := l, p_loop := lp\<rparr>) i t')"
proof -
  have i: "i < length (p_threads s)" "p_threads s ! i = t" using assms(2) by (simp_all add: thread_at_def)
  have lock: "p_lock s = Some j \<longleftrightarrow> j < length (p_threads s) \<and> holds_lock (p_threads s ! j)" for j
    using assms(1) by (simp add: threads_ok_def threads_inv_def)
  have one: "j = i" if "awaits t" "j < length (p_threads s)" "awaits (p_threads s ! j)" for j
    using assms(1) that i unfolding threads_ok_def threads_inv_def by blast
  have "l = Some j \<longleftrightarrow> j < length (p_threads s) \<and> holds_lock ((p_threads s)[i := t'] ! j)" for j
    using lock [of j] lock [of i] i assms(4) by (cases "j = i") (auto simp: nth_list_update split: if_splits)
  moreover have "answers lp ((p_threads s)[i := t'] ! j)" if "j < length (p_threads s)" "awaits ((p_threads s)[i := t'] ! j)" for j
  proof -
    have ne: "j \<noteq> i" using that i assms(3) by auto
    then have j: "awaits (p_threads s ! j)" using that by simp
    then have "lp = p_loop s" using one [of j] that(1) ne assms(5) by auto
    then show ?thesis using assms(1) j ne that(1) by (simp add: threads_ok_def threads_inv_def)
  qed
  moreover have "j = k" if "j < length (p_threads s)" "k < length (p_threads s)" "awaits ((p_threads s)[i := t'] ! j)"
      "awaits ((p_threads s)[i := t'] ! k)" for j k
  proof -
    have "j \<noteq> i" "k \<noteq> i" using that i assms(3) by auto
    then show ?thesis using assms(1) that by (simp add: threads_ok_def threads_inv_def)
  qed
  ultimately show ?thesis unfolding threads_ok_def threads_inv_def goes_def thread_at_def by auto
qed

lemma threads_ok_ask:
  assumes ok: "threads_ok s" and "thread_at s i t" and "p_loop s = LoopSelects" and "answers lp t'" and "holds_lock t' = holds_lock t"
  shows "threads_ok (goes (s\<lparr>p_loop := lp\<rparr>) i t')"
proof -
  have i: "i < length (p_threads s)" "p_threads s ! i = t" using assms(2) by (simp_all add: thread_at_def)
  have none: "\<not> awaits (p_threads s ! j)" if "j < length (p_threads s)" for j
    using ok that assms(3) by (cases "p_threads s ! j") (auto simp: threads_ok_def threads_inv_def answers_def)
  have lock: "p_lock s = Some j \<longleftrightarrow> j < length (p_threads s) \<and> holds_lock ((p_threads s)[i := t'] ! j)" for j
    using ok i assms(5) by (auto simp: threads_ok_def threads_inv_def nth_list_update)
  have only: "j = i" if "j < length (p_threads s)" "awaits ((p_threads s)[i := t'] ! j)" for j
    using none [of j] that by (cases "j = i") auto
  have own: "answers lp ((p_threads s)[i := t'] ! j)" if "j < length (p_threads s)" "awaits ((p_threads s)[i := t'] ! j)" for j
    using only [OF that] that(1) assms(4) by simp
  have "j = k" if "j < length (p_threads s)" "k < length (p_threads s)" "awaits ((p_threads s)[i := t'] ! j)"
      "awaits ((p_threads s)[i := t'] ! k)" for j k
    using only that by blast
  then show ?thesis
    using lock own unfolding threads_ok_def threads_inv_def goes_def by auto
qed

lemma sums_received_ok:
  assumes "threads_ok s" and "thread_at s i (SumsAwaited c tx)"
  shows "p_down (sums_received (s\<lparr>p_loop := lp\<rparr>) i c tx sums) \<or> threads_ok (sums_received (s\<lparr>p_loop := lp\<rparr>) i c tx sums)"
proof -
  have "threads_ok (goes (s\<lparr>p_lock := p_lock s, p_loop := lp\<rparr>) i t)" if "\<not> awaits t" "holds_lock t = (c = Handler)" for t
    using threads_ok_goes [OF assms that(1), where l = "p_lock s" and lp = lp] that(2) by simp
  then have "threads_ok (goes (s\<lparr>p_loop := lp, p_node := n\<rparr>) i t)" if "\<not> awaits t" "holds_lock t = (c = Handler)" for t n
    using that by (simp add: threads_ok_def goes_def)
  then show ?thesis
    by (simp add: sums_received_def split: option.split)
qed

lemma open_channel_ok:
  assumes "threads_ok s" and "thread_at s i (FundingAwaited p req)"
  shows "p_down (open_channel E rnd1 rnd2 reply rpc (s\<lparr>p_loop := lp\<rparr>) i p req) \<or>
    threads_ok (open_channel E rnd1 rnd2 reply rpc (s\<lparr>p_loop := lp\<rparr>) i p req)"
proof -
  have "threads_ok (goes (s\<lparr>p_lock := p_lock s, p_loop := lp\<rparr>) i Finished)"
    by (rule threads_ok_goes [OF assms]) simp_all
  from threads_ok_new [OF this, of "map FundingSent txs" "p_out s" for txs] show ?thesis
    by (auto simp: open_channel_def Let_def threads_ok_def goes_def split: option.split)
qed

lemma threads_ok_step:
  assumes "p_down s \<or> threads_ok s" and "thread_step E s s'"
  shows "p_down s' \<or> threads_ok s'"
proof -
  have ok: "threads_ok s" using assms(2,1) by cases auto
  have go: "threads_ok (goes (s\<lparr>p_node := n, p_lock := l\<rparr>) i t')"
    if "thread_at s i t" "\<not> awaits t'" "if holds_lock t' then holds_lock t \<and> l = p_lock s \<or> p_lock s = None \<and> l = Some i
         else (if holds_lock t then l = None else l = p_lock s)" for i t t' l n
    using threads_ok_goes [OF ok that, where lp = "p_loop s"] by (simp add: threads_ok_def goes_def)
  show ?thesis
    using assms(2)
  proof cases
    case (call_tx msg)
    then show ?thesis using threads_ok_new [OF ok, of "[TxWaits msg]" "p_out s"] by simp
  next
    case (call_block pb)
    then show ?thesis using threads_ok_new [OF ok, of "[BlockWaits pb]" "p_out s"] by simp
  next
    case (unlocked tasks n)
    then show ?thesis using ok by (simp add: threads_ok_start)
  next
    case (tx_lock i msg)
    then show ?thesis using go [of i "TxWaits msg" "TxHolds msg" "Some i" "p_node s"] by simp
  next
    case (tx_error i msg rpc e)
    then show ?thesis using go [of i "TxHolds msg" Finished None "p_node s"] by simp
  next
    case (tx_noted i msg rpc n tx)
    then show ?thesis using go [of i "TxHolds msg" _ "p_lock s" n] by simp
  next
    case (tx_invalid i msg rpc n)
    then show ?thesis using go [of i "TxHolds msg" Finished None n] by simp
  next
    case (ask_sums i c tx sums n)
    then show ?thesis
      using threads_ok_ask [OF ok ask_sums(3,4), of "LoopReplies [tx] sums" "SumsAwaited c tx"] by (simp add: threads_ok_def goes_def answers_def)
  next
    case (call_channel p req)
    then show ?thesis using threads_ok_new [OF ok, of "[FundingAsked p req]" "p_out s"] by simp
  next
    case (ask_funding i p req rnd order tx n)
    then show ?thesis
      using threads_ok_ask [OF ok ask_funding(3,4), of "LoopFunds req tx" "FundingAwaited p req"] by (simp add: threads_ok_def goes_def answers_def)
  next
    case (funding_in_time i p req req' tx rnd1 rnd2 rpc)
    then show ?thesis using open_channel_ok [OF ok] by simp
  next
    case (funding_too_late i p req rnd1 rnd2 rpc)
    then show ?thesis using open_channel_ok [OF ok, of i p req E rnd1 rnd2 None rpc "p_loop s"] by simp
  next
    case (send_funding i tx tasks n)
    then show ?thesis using go [of i "FundingSent tx" Finished "p_lock s" n] by (simp add: threads_ok_start)
  next
    case (sums_in_time i c tx txs sums)
    then show ?thesis using sums_received_ok [OF ok sums_in_time(3)] by simp
  next
    case (sums_too_late i c tx)
    then show ?thesis using sums_received_ok [OF ok sums_too_late(3), of "p_loop s"] by simp
  next
    case (tx_forward i tx)
    then show ?thesis using go [of i "TxForwards tx" Finished None "p_node s"] by (simp add: threads_ok_start)
  next
    case (block_lock i pb)
    then show ?thesis using go [of i "BlockWaits pb" "BlockHolds pb" "Some i" "p_node s"] by simp
  next
    case (block_handled i pb r n tasks)
    then show ?thesis using go [of i "BlockHolds pb" Finished None n] by (simp add: threads_ok_start)
  next
    case (miner_block i b m)
    then show ?thesis using go [of i "MinerBlocks b" _ "p_lock s"] by simp
  next
    case (wallet_block i txs w)
    then show ?thesis using go [of i "WalletBlocks txs" Finished "p_lock s"] by simp
  next
    case (loop_step ev tasks n)
    then show ?thesis using ok by (simp add: threads_ok_start)
  qed (use ok in simp_all)
qed

definition started :: "'db process \<Rightarrow> bool" where
  "started s \<longleftrightarrow> p_lock s = None \<and> p_loop s = LoopSelects \<and> p_threads s = [] \<and> \<not> p_down s"

interpretation threads: state_machine started "thread_step E" "\<lambda>s. p_down s \<or> threads_ok s"
  for E :: "('db, 'z) ext_scheme"
  by unfold_locales (simp add: started_def threads_ok_def threads_inv_def, rule threads_ok_step)

text \<open>
  C13: The handlers of transactions and blocks exclude each other, and the requests to the loop over two channels each do not mix
  up their answers: however goroutines interleave, at most one of them is between locking and unlocking, and one that waits for sums or
  for a funding transaction can only receive those of its own request.
\<close>

theorem handlers_exclusive_and_answers_own:
  assumes "started s" and "(thread_step E)\<^sup>*\<^sup>* s s'" and "\<not> p_down s'" and "i < length (p_threads s')" and "j < length (p_threads s')"
  shows "(holds_lock (p_threads s' ! i) \<and> holds_lock (p_threads s' ! j) \<longrightarrow> i = j) \<and>
    (\<forall>c tx. p_threads s' ! i = SumsAwaited c tx \<longrightarrow> (\<exists>sums. p_loop s' = LoopReplies [tx] sums)) \<and>
    (\<forall>p req. p_threads s' ! i = FundingAwaited p req \<longrightarrow> (\<exists>tx. p_loop s' = LoopFunds req tx))"
proof -
  have "threads_inv (p_lock s') (p_loop s') (p_threads s')"
    using threads.invariant [OF assms(1,2)] assms(3) by (simp add: threads_ok_def)
  then have "holds_lock (p_threads s' ! i) \<and> holds_lock (p_threads s' ! j) \<longrightarrow> i = j"
    and "awaits (p_threads s' ! i) \<Longrightarrow> answers (p_loop s') (p_threads s' ! i)"
    using assms(4,5) unfolding threads_inv_def by (metis option.inject, blast)
  then show ?thesis by (auto simp: answers_def split: loop_state.splits)
qed

section \<open>Waiting for ever\<close>

text \<open>The points at which a goroutine may go on.\<close>

definition can_move :: "'db process \<Rightarrow> thread \<Rightarrow> bool" where
  "can_move s t =
     (case t of
        TxWaits _ \<Rightarrow> p_lock s = None
      | BlockWaits _ \<Rightarrow> p_lock s = None
      | SumsAsked _ _ \<Rightarrow> p_loop s = LoopSelects
      | FundingAsked _ _ \<Rightarrow> p_loop s = LoopSelects
      | FundingSent _ \<Rightarrow> p_loop s = LoopSelects
      | PoolNotified _ _ \<Rightarrow> False
      | Finished \<Rightarrow> False
      | _ \<Rightarrow> True)"

lemma thread_at_received: "thread_at s j t \<Longrightarrow> j \<noteq> i \<Longrightarrow> thread_at (sums_received (s\<lparr>p_loop := lp\<rparr>) i c tx sums) j t"
  by (auto simp: sums_received_def thread_at_def goes_def split: option.split)

lemma thread_at_channel:
  "thread_at s j t \<Longrightarrow> j \<noteq> i \<Longrightarrow> thread_at (open_channel E rnd1 rnd2 reply rpc (s\<lparr>p_loop := lp\<rparr>) i p req) j t"
  by (auto simp: open_channel_def thread_at_def goes_def nth_append Let_def split: option.split)

lemma thread_at_unique: "thread_at s i t \<Longrightarrow> thread_at s i t' \<Longrightarrow> t = t'"
  by (simp add: thread_at_def)

lemma thread_moves:
  assumes "thread_step E s s'" and at: "thread_at s j t" and "\<not> can_move s t"
  shows "thread_at s' j t"
  using assms(1)
proof cases
  case (sums_in_time i c tx txs sums)
  then have "j \<noteq> i" using at assms(3) by (auto simp: can_move_def dest: thread_at_unique)
  then show ?thesis using thread_at_received [OF at, of i LoopSelects] sums_in_time(1) by simp
next
  case (sums_too_late i c tx)
  then have "j \<noteq> i" using at assms(3) by (auto simp: can_move_def dest: thread_at_unique)
  then show ?thesis using thread_at_received [OF at, of i "p_loop s"] sums_too_late(1) by simp
next
  case (ask_sums i c tx sums n)
  then have "j \<noteq> i" using at assms(3) by (auto simp: can_move_def dest: thread_at_unique)
  then show ?thesis using at ask_sums(1) by (simp add: thread_at_def goes_def)
next
  case (ask_funding i p req rnd order tx n)
  then have "j \<noteq> i" using at assms(3) by (auto simp: can_move_def dest: thread_at_unique)
  then show ?thesis using at ask_funding(1) by (simp add: thread_at_def goes_def)
next
  case (send_funding i tx tasks n)
  then have "j \<noteq> i" using at assms(3) by (auto simp: can_move_def dest: thread_at_unique)
  then show ?thesis using at send_funding(1) by (simp add: thread_at_def goes_def start_tasks_def nth_append)
next
  case (funding_in_time i p req req' tx rnd1 rnd2 rpc)
  then have "j \<noteq> i" using at assms(3) by (auto simp: can_move_def dest: thread_at_unique)
  then show ?thesis using thread_at_channel [OF at, of i E rnd1 rnd2 "Some tx" rpc LoopSelects] funding_in_time(1) by simp
next
  case (funding_too_late i p req rnd1 rnd2 rpc)
  then have "j \<noteq> i" using at assms(3) by (auto simp: can_move_def dest: thread_at_unique)
  then show ?thesis using thread_at_channel [OF at, of i E rnd1 rnd2 None rpc "p_loop s"] funding_too_late(1) by simp
qed (use at assms(3) in \<open>auto simp: can_move_def thread_at_def goes_def start_tasks_def nth_append nth_list_update\<close>)

lemma holder_keeps_lock:
  assumes "p_down s \<or> threads_ok s" and "thread_at s i t" and "holds_lock t" and "\<not> p_down s"
  shows "p_lock s = Some i"
  using assms by (simp add: threads_ok_def threads_inv_def thread_at_def)

text \<open>A goroutine that holds the mutex and waits for ever stops every handler.\<close>

definition waits_for_lock :: "thread \<Rightarrow> bool" where
  "waits_for_lock t = (case t of TxWaits _ \<Rightarrow> True | BlockWaits _ \<Rightarrow> True | _ \<Rightarrow> False)"

lemma frozen_step:
  assumes ok: "p_down s \<or> threads_ok s" and step: "thread_step E s s'" and i: "thread_at s i t" "holds_lock t" "\<not> can_move s t"
    and j: "thread_at s j u" "waits_for_lock u"
  shows "thread_at s' i t" and "thread_at s' j u"
proof -
  have "\<not> p_down s" using step by cases auto
  then have "p_lock s = Some i" by (rule holder_keeps_lock [OF ok i(1,2)])
  then have "\<not> can_move s u" using j(2) by (auto simp: waits_for_lock_def can_move_def split: thread.splits)
  then show "thread_at s' i t" "thread_at s' j u" using thread_moves [OF step] i j by blast+
qed

text \<open>
  C40: Once the handler of a transaction sends on \<open>PoolUpdated\<close>, which it does when the miner is active, it never gives back the
  mutex: as long as the process runs, no waiting handler of a transaction or a block goes on.
\<close>

theorem active_miner_blocks_handlers:
  assumes "started s0" and "(thread_step E)\<^sup>*\<^sup>* s0 s" and "thread_at s i (PoolNotified Handler (Some tx))"
    and "thread_at s j u" and "waits_for_lock u" and "(thread_step E)\<^sup>*\<^sup>* s s'" and "\<not> p_down s'"
  shows "p_lock s' = Some i \<and> thread_at s' i (PoolNotified Handler (Some tx)) \<and> thread_at s' j u"
proof -
  have "(p_down s' \<or> threads_ok s') \<and> thread_at s' i (PoolNotified Handler (Some tx)) \<and> thread_at s' j u"
    using assms(6)
  proof (induction rule: rtranclp_induct)
    case base
    then show ?case using threads.invariant [OF assms(1,2)] assms(3,4) by simp
  next
    case (step x y)
    then show ?case
      using threads_ok_step [of x E y] frozen_step [of x E y i "PoolNotified Handler (Some tx)" j u] assms(5)
      by (auto simp: can_move_def)
  qed
  then show ?thesis using holder_keeps_lock [of s' i] assms(7) by auto
qed

text \<open>The loop after a timeout.\<close>

definition nobody_awaits :: "'db process \<Rightarrow> bool" where
  "nobody_awaits s \<longleftrightarrow> (\<forall>t \<in> set (p_threads s). \<not> awaits t)"

lemma nobody_awaits_at: "nobody_awaits s \<Longrightarrow> thread_at s i t \<Longrightarrow> \<not> awaits t"
  unfolding nobody_awaits_def thread_at_def by auto

lemma stopped_loop_step:
  assumes "p_loop s = LoopReplies txs sums" and "nobody_awaits s" and "thread_step E s s'"
  shows "p_loop s' = LoopReplies txs sums \<and> nobody_awaits s'"
  using assms(3)
proof cases
  case (sums_in_time i c tx txs' sums')
  then show ?thesis using nobody_awaits_at [OF assms(2) sums_in_time(3)] by simp
next
  case (sums_too_late i c tx)
  then show ?thesis using nobody_awaits_at [OF assms(2) sums_too_late(3)] by simp
next
  case (funding_in_time i p req req' tx rnd1 rnd2 rpc)
  then show ?thesis using assms(1) by simp
next
  case (funding_too_late i p req rnd1 rnd2 rpc)
  then show ?thesis using nobody_awaits_at [OF assms(2) funding_too_late(3)] by simp
qed (use assms(1,2) in \<open>auto simp: nobody_awaits_def goes_def start_tasks_def List.map_filter_def
    dest: goroutine_thread dest!: set_update_subset_insert [THEN subsetD] split: if_splits\<close>)

text \<open>
  C24: A single timeout stops the loop of the node. When the goroutine that asked for sums has given up before the loop could answer,
  the loop waits for ever for somebody to receive the sums: no request of the wallet, no mined block and no further request for
  sums is ever served, and a handler that asks keeps the mutex.
\<close>

theorem timeout_stops_loop:
  assumes "started s0" and "(thread_step E)\<^sup>*\<^sup>* s0 s" and "p_loop s = LoopReplies txs sums" and "nobody_awaits s"
    and "(thread_step E)\<^sup>*\<^sup>* s s'" and "\<not> p_down s'"
  shows "p_loop s' = LoopReplies txs sums \<and>
    (\<forall>i c tx. thread_at s i (SumsAsked c tx) \<longrightarrow> thread_at s' i (SumsAsked c tx) \<and> (c = Handler \<longrightarrow> p_lock s' = Some i))"
proof -
  have run: "p_loop s' = LoopReplies txs sums \<and> nobody_awaits s' \<and>
      (\<forall>i c tx. thread_at s i (SumsAsked c tx) \<longrightarrow> thread_at s' i (SumsAsked c tx))"
    using assms(5)
  proof (induction rule: rtranclp_induct)
    case base
    then show ?case using assms(3,4) by simp
  next
    case (step x y)
    have "thread_at y i (SumsAsked c tx)" if "thread_at x i (SumsAsked c tx)" for i c tx
      by (rule thread_moves [OF step.hyps(2) that]) (use step.IH in \<open>simp add: can_move_def\<close>)
    then show ?case using step stopped_loop_step [of x txs sums E y] by blast
  qed
  have "p_down s' \<or> threads_ok s'"
    using threads.invariant [OF assms(1), of E s'] assms(2,5) by (meson rtranclp_trans)
  then show ?thesis using run assms(6) holder_keeps_lock [of s'] by fastforce
qed

section \<open>Relaying\<close>

definition mining_node :: "'db Node \<Rightarrow> bool" where
  "mining_node n \<longleftrightarrow> HasMiner (MinerConfig (n_Config n)) \<and> (\<exists>m. n_Miner n = Some m \<and> Active m)"

lemma mining_node_cong: "n_Config n' = n_Config n \<Longrightarrow> n_Miner n' = n_Miner n \<Longrightarrow> mining_node n' = mining_node n"
  by (simp add: mining_node_def)

lemma node_handles_miner: "node_handles E n ev = Some (n', tasks) \<Longrightarrow> n_Config n' = n_Config n \<and> n_Miner n' = n_Miner n"
  by (cases ev; fastforce simp: node_handles_def BroadcastTransaction_def HandleMinerBlock_def Let_def bind_eq_Some_conv)

lemma note_transaction_miner:
  "note_transaction E rpc n msg = Some (Inr n') \<Longrightarrow> n_Config n' = n_Config n \<and> n_Miner n' = n_Miner n"
  by (auto simp: note_transaction_def Let_def split: option.splits if_splits)

lemma ForwardBlock_miner: "ForwardBlock E n pb = Some (r, n', tasks) \<Longrightarrow> n_Config n' = n_Config n \<and> n_Miner n' = n_Miner n"
  by (auto simp: ForwardBlock_def Let_def case_prod_unfold bind_eq_Some_conv split: if_splits)

lemma Bootstrap_miner:
  assumes "Bootstrap E responses getData n = Some (Inr n')"
  shows "n_Config n' = n_Config n \<and> n_Miner n' = n_Miner n"
proof -
  from assms obtain a hs where "fold_opt (bootstrap_block E getData a) n hs = Some n'"
    by (auto simp: Bootstrap_def split: if_splits option.splits)
  then have "(n_Config n', n_Miner n') = (n_Config n, n_Miner n)"
    by (rule fold_opt_keeps [rotated]) (auto simp: bootstrap_block_def bind_eq_Some_conv Let_def)
  then show ?thesis by simp
qed

lemma foldl_learn_miner:
  "n_Config (fst (foldl learn_address st addrs)) = n_Config (fst st) \<and> n_Miner (fst (foldl learn_address st addrs)) = n_Miner (fst st)"
  by (induction addrs arbitrary: st) (auto simp: learn_address_def Let_def case_prod_unfold)

lemma unlocked_move_mining:
  assumes "unlocked_move E n tasks n'" and "mining_node n"
  shows "mining_node n'"
  using assms(1)
proof cases
  case (unlocked_addresses shuffle addrs)
  then show ?thesis
    using assms(2) foldl_learn_miner [of "(n, False, [])" addrs]
    by (auto simp: mining_node_def SendAddresses_def Let_def case_prod_unfold bind_eq_Some_conv split: if_splits)
next
  case (unlocked_bootstrap responses getData)
  then show ?thesis using assms(2) Bootstrap_miner [OF unlocked_bootstrap(2)] by (simp add: mining_node_def)
qed (use assms(2) in \<open>auto simp: mining_node_def Node_Version_def accept_version_def peerCheck_def Node_GetBalance_def
    Node_StartMiner_def StartMiner_def Let_def case_prod_unfold bind_eq_Some_conv split: if_splits option.splits\<close>)

definition relays :: "thread \<Rightarrow> bool" where
  "relays t = (case t of TxForwards _ \<Rightarrow> True | _ \<Rightarrow> False)"

definition no_relay :: "'db process \<Rightarrow> bool" where
  "no_relay s \<longleftrightarrow> mining_node (p_node s) \<and> (\<forall>t \<in> set (p_threads s). \<not> relays t)"

lemma no_relay_goes:
  "no_relay s \<Longrightarrow> \<not> relays t \<Longrightarrow> mining_node (p_node s') \<Longrightarrow> p_threads s' = p_threads s \<Longrightarrow> no_relay (goes s' i t)"
  using set_update_subset_insert [of "p_threads s" i t] by (auto simp: no_relay_def goes_def)

lemma no_relay_start: "no_relay s \<Longrightarrow> no_relay (start_tasks s tasks)"
  by (auto simp: no_relay_def start_tasks_def List.map_filter_def relays_def goroutine_def split: node_task.splits)

lemma no_relay_received:
  assumes "no_relay s"
  shows "p_down (sums_received (s\<lparr>p_loop := lp\<rparr>) i c tx sums) \<or> no_relay (sums_received (s\<lparr>p_loop := lp\<rparr>) i c tx sums)"
proof (cases "do { m \<leftarrow> n_Miner (p_node s); pool_add m sums tx }")
  case None
  then show ?thesis by (simp add: sums_received_def)
next
  case (Some m)
  then have act: "Active m" using assms by (auto simp: no_relay_def mining_node_def pool_add_def bind_eq_Some_conv)
  have "no_relay (goes (s\<lparr>p_loop := lp, p_node := (p_node s)\<lparr>n_Miner := Some m\<rparr>\<rparr>) i (PoolNotified c (Some tx)))"
    by (rule no_relay_goes [OF assms]) (use assms act in \<open>simp_all add: relays_def no_relay_def mining_node_def\<close>)
  then show ?thesis using Some act by (simp add: sums_received_def)
qed

lemma no_relay_channel:
  assumes "no_relay s"
  shows "p_down (open_channel E rnd1 rnd2 reply rpc (s\<lparr>p_loop := lp\<rparr>) i p req) \<or>
    no_relay (open_channel E rnd1 rnd2 reply rpc (s\<lparr>p_loop := lp\<rparr>) i p req)"
  using assms set_update_subset_insert [of "p_threads s" i Finished]
  by (auto simp: open_channel_def Let_def goes_def no_relay_def mining_node_def relays_def split: option.split)

lemma no_relay_step:
  assumes inv: "p_down s \<or> no_relay s" and step: "thread_step E s s'"
  shows "p_down s' \<or> no_relay s'"
proof -
  have ok: "no_relay s" using step inv by cases auto
  then have mn: "mining_node (p_node s)" and nt: "\<forall>t \<in> set (p_threads s). \<not> relays t" by (simp_all add: no_relay_def)
  have go: "no_relay (goes t i u)" if "\<not> relays u" "mining_node (p_node t)" "p_threads t = p_threads s" for t i u
    by (rule no_relay_goes [OF ok that])
  have same: "mining_node n" if "n_Config n = n_Config (p_node s)" "n_Miner n = n_Miner (p_node s)" for n
    using mining_node_cong [OF that] mn by simp
  from step show ?thesis
  proof cases
    case (unlocked tasks n)
    then have "no_relay (s\<lparr>p_node := n\<rparr>)" using unlocked_move_mining mn nt by (simp add: no_relay_def)
    then show ?thesis using unlocked(1) no_relay_start by blast
  next
    case (tx_noted i msg rpc n tx)
    then have "mining_node n" using same note_transaction_miner by blast
    then show ?thesis using tx_noted(1) by (simp add: go relays_def mining_node_def)
  next
    case (tx_invalid i msg rpc n)
    then have "mining_node n" using same note_transaction_miner by blast
    then show ?thesis using tx_invalid(1) by (simp add: go relays_def)
  next
    case (ask_sums i c tx sums n)
    then have "mining_node n"
      using same [of n] node_handles_miner [of E "p_node s" "InputSumsRequest [tx]" n "[ReplyInputSums sums]"] by (auto simp: node_step_iff)
    then show ?thesis using ask_sums(1) by (simp add: go relays_def)
  next
    case (sums_in_time i c tx txs sums)
    then show ?thesis using no_relay_received [OF ok] by simp
  next
    case (sums_too_late i c tx)
    then show ?thesis using no_relay_received [OF ok, of "p_loop s"] by simp
  next
    case (ask_funding i p req rnd order tx n)
    then have "mining_node n"
      using same [of n] node_handles_miner [of E "p_node s" "FundingRequest rnd order req" n "[ReplyFundingTransaction tx]"]
      by (auto simp: node_step_iff)
    then show ?thesis using ask_funding(1) by (simp add: go relays_def)
  next
    case (funding_in_time i p req req' tx rnd1 rnd2 rpc)
    then show ?thesis using no_relay_channel [OF ok] by simp
  next
    case (funding_too_late i p req rnd1 rnd2 rpc)
    then show ?thesis using no_relay_channel [OF ok, of E rnd1 rnd2 None rpc "p_loop s"] by simp
  next
    case (send_funding i tx tasks n)
    then have "mining_node n" using same [of n] node_handles_miner [of E "p_node s" "LightningBroadcast tx" n tasks] by (auto simp: node_step_iff)
    then show ?thesis using send_funding(1) by (simp add: go no_relay_start relays_def)
  next
    case (tx_forward i tx)
    then have "TxForwards tx \<in> set (p_threads s)" using nth_mem by (fastforce simp: thread_at_def)
    then show ?thesis using nt by (auto simp: relays_def)
  next
    case (block_handled i pb r n tasks)
    then have "mining_node n" using same ForwardBlock_miner by blast
    then show ?thesis using block_handled(1) by (simp add: go no_relay_start relays_def)
  next
    case (miner_block i b m)
    have "mining_node ((p_node s)\<lparr>n_Miner := Some (pool_update E (IncrementChainLength m) (Transactions b))\<rparr>)"
      using mn miner_block(4) by (auto simp: mining_node_def pool_update_def IncrementChainLength_def)
    then show ?thesis using miner_block(1) by (simp add: go relays_def)
  next
    case (loop_step ev tasks n)
    then have "mining_node n" using same [of n] node_handles_miner [of E "p_node s" ev n tasks] by (auto simp: node_step_iff)
    then have "no_relay (s\<lparr>p_node := n\<rparr>)" using nt by (simp add: no_relay_def)
    then show ?thesis using loop_step(1) no_relay_start by blast
  qed (use mn nt in \<open>auto simp: go relays_def no_relay_def mining_node_def goes_def dest!: set_update_subset_insert [THEN subsetD]\<close>)
qed

text \<open>
  C23: A node whose miner is active never forwards a transaction it receives: in no interleaving does a handler of
  \<open>ForwardTransaction\<close> get as far as its peers.
\<close>

theorem active_miner_never_relays:
  assumes "started s" and "mining_node (p_node s)" and "(thread_step E)\<^sup>*\<^sup>* s s'" and "\<not> p_down s'"
  shows "\<not> thread_at s' i (TxForwards tx)"
proof -
  have "p_down s' \<or> no_relay s'"
    using assms(3) by (induction rule: rtranclp_induct) (use assms(1,2) no_relay_step in \<open>auto simp: started_def no_relay_def\<close>)
  then have "\<forall>t \<in> set (p_threads s'). \<not> relays t" using assms(4) by (simp add: no_relay_def)
  then show ?thesis using nth_mem by (fastforce simp: thread_at_def relays_def)
qed

section \<open>Agreement with the operations of the node\<close>

text \<open>A process in which one more goroutine has got to \<open>t\<close>.\<close>

definition with_thread :: "'db process \<Rightarrow> 'db Node \<Rightarrow> nat option \<Rightarrow> loop_state \<Rightarrow> thread \<Rightarrow> 'db process" where
  "with_thread s n l lp t = s\<lparr>p_node := n, p_lock := l, p_loop := lp, p_threads := p_threads s @ [t]\<rparr>"

lemma with_thread_simps [simp]:
  "p_node (with_thread s n l lp t) = n" "p_lock (with_thread s n l lp t) = l" "p_loop (with_thread s n l lp t) = lp"
  "p_down (with_thread s n l lp t) = p_down s" "p_out (with_thread s n l lp t) = p_out s" "thread_at (with_thread s n l lp t) (length (p_threads s)) u = (u = t)"
  "goes (with_thread s n l lp t) (length (p_threads s)) u = with_thread s n l lp u"
  "(with_thread s n l lp t)\<lparr>p_node := n'\<rparr> = with_thread s n' l lp t" "(with_thread s n l lp t)\<lparr>p_lock := l'\<rparr> = with_thread s n l' lp t"
  "(with_thread s n l lp t)\<lparr>p_loop := lp'\<rparr> = with_thread s n l lp' t"
  by (auto simp: with_thread_def thread_at_def goes_def)

text \<open>An inactive miner adds the transaction to its pool and the handler goes on to its peers.\<close>

lemma miner_part:
  assumes up: "\<not> p_down s" and m: "HasMiner (MinerConfig (n_Config n))" "n_Miner n = Some m" "\<not> Active m" "n_Wallet n = Some w"
    and sums: "GetInputSums E (n_BlockChain n) [tx] = Some sums" and h: "HandleTransaction m (Some sums) (Some tx) = Some (m', ev)"
  shows "(thread_step E)\<^sup>*\<^sup>* (with_thread s n l LoopSelects (SumsAsked Handler tx))
    (with_thread s (n\<lparr>n_Miner := Some m'\<rparr>) l LoopSelects (TxForwards tx))"
proof -
  let ?i = "length (p_threads s)"
  have "pool_add m sums tx = Some m'" "\<not> Active m'"
    using h m(3) by (auto simp: HandleTransaction_parts getInputSums_def pool_add_def bind_eq_Some_conv)
  then have received: "sums_received (with_thread s n l LoopSelects (SumsAwaited Handler tx)) ?i Handler tx sums =
      with_thread s (n\<lparr>n_Miner := Some m'\<rparr>) l LoopSelects (TxForwards tx)"
    using m(2) by (simp add: sums_received_def handled_def)
  have "thread_step E (with_thread s n l LoopSelects (SumsAsked Handler tx)) (with_thread s n l (LoopReplies [tx] sums) (SumsAwaited Handler tx))"
    using thread_step.ask_sums [of "with_thread s n l LoopSelects (SumsAsked Handler tx)" ?i Handler tx E sums n] up m sums
    by (simp add: node_step_iff node_receives_def node_handles_def)
  moreover have "thread_step E (with_thread s n l (LoopReplies [tx] sums) (SumsAwaited Handler tx))
      (with_thread s (n\<lparr>n_Miner := Some m'\<rparr>) l LoopSelects (TxForwards tx))"
    using thread_step.sums_in_time [of "with_thread s n l (LoopReplies [tx] sums) (SumsAwaited Handler tx)" ?i Handler tx "[tx]" sums E] up
    by (simp add: received)
  ultimately show ?thesis by (meson converse_rtranclp_into_rtranclp r_into_rtranclp)
qed

lemma start_forwards:
  "start_tasks s (map (\<lambda>a. ForwardTransactionTo a (f a)) as) = s\<lparr>p_out := p_out s @ map (\<lambda>a. ForwardTransactionTo a (f a)) as\<rparr>"
  by (simp add: start_tasks_def List.map_filter_def goroutine_def o_def)

lemma forward_part:
  assumes up: "\<not> p_down s"
  shows "thread_step E (with_thread s n l lp (TxForwards tx)) ((with_thread s n None lp Finished)\<lparr>p_out := p_out s @
    map (\<lambda>a. ForwardTransactionTo a \<lparr>pta_Transaction = Some (EncodeTransaction tx), pta_Address = n_Address n\<rparr>) (peer_addrs n)\<rparr>)"
  using thread_step.tx_forward [of "with_thread s n l lp (TxForwards tx)" "length (p_threads s)" tx E] up
  by (simp add: start_forwards)

text \<open>The handler from the moment it has the mutex.\<close>

lemma holding_part:
  assumes up: "\<not> p_down s" and lazy: "\<forall>m. n_Miner n = Some m \<longrightarrow> \<not> Active m"
    and sums: "HasMiner (MinerConfig (n_Config n)) \<longrightarrow>
      n_Wallet n \<noteq> None \<and> GetInputSums E (n_BlockChain n) [fst (DecodeTransactionWithAddress msg)] = Some sums"
    and h: "ForwardTransaction E rpc (Some sums) n msg = Some (r, n', tasks)"
  shows "(thread_step E)\<^sup>*\<^sup>* (with_thread s n (Some (length (p_threads s))) LoopSelects (TxHolds msg))
    ((with_thread s n' None LoopSelects Finished)\<lparr>p_out := p_out s @ tasks\<rparr>)"
proof -
  let ?i = "length (p_threads s)" and ?tx = "fst (DecodeTransactionWithAddress msg)"
  let ?holds = "with_thread s n (Some ?i) LoopSelects (TxHolds msg)"
  consider e where "note_transaction E rpc n msg = Some (Inl e)" "n' = n" "tasks = []"
    | k m where "note_transaction E rpc n msg = Some (Inr k)" "n' = k\<lparr>n_Miner := m\<rparr>"
        "tasks = map (\<lambda>a. ForwardTransactionTo a \<lparr>pta_Transaction = Some (EncodeTransaction ?tx), pta_Address = n_Address k\<rparr>) (peer_addrs k)"
        "(if HasMiner (MinerConfig (n_Config k)) then (case n_Miner k of None \<Rightarrow> None
            | Some m \<Rightarrow> map_option (Some \<circ> fst) (HandleTransaction m (Some sums) (Some ?tx))) else Some (n_Miner k)) = Some m"
    using h by (cases "note_transaction E rpc n msg"; cases "the (note_transaction E rpc n msg)")
      (auto simp: ForwardTransaction_def CheckTransaction_def Let_def bind_eq_Some_conv)
  then show ?thesis
  proof cases
    case 1
    then have "thread_step E ?holds (with_thread s n' None LoopSelects Finished)"
      using thread_step.tx_error [of ?holds ?i msg E rpc e] up by simp
    then show ?thesis using 1 by (simp add: r_into_rtranclp with_thread_def)
  next
    case 2
    have keep: "n_Config k = n_Config n" "n_Miner k = n_Miner n" "n_Wallet k = n_Wallet n" "n_BlockChain k = n_BlockChain n"
      using 2(1) by (auto simp: note_transaction_def Let_def split: option.splits if_splits)
    have noted: "thread_step E ?holds (with_thread s k (Some ?i) LoopSelects
        (if HasMiner (MinerConfig (n_Config k)) then SumsAsked Handler ?tx else TxForwards ?tx))"
      using thread_step.tx_noted [of ?holds ?i msg E rpc k ?tx] up 2(1) by (simp add: CheckTransaction_def)
    have "(thread_step E)\<^sup>*\<^sup>* ?holds (with_thread s n' (Some ?i) LoopSelects (TxForwards ?tx))"
    proof (cases "HasMiner (MinerConfig (n_Config k))")
      case True
      then obtain m0 m' ev where "n_Miner k = Some m0" "HandleTransaction m0 (Some sums) (Some ?tx) = Some (m', ev)" "m = Some m'"
        using 2(4) by (auto split: option.splits)
      moreover obtain w where "n_Wallet k = Some w" using sums True keep by auto
      ultimately show ?thesis
        using miner_part [OF up True, of m0 w E ?tx sums m' ev "Some ?i"] lazy sums keep True 2(2) noted
        by (simp add: converse_rtranclp_into_rtranclp)
    next
      case False
      then show ?thesis using noted 2(2,4) by (auto intro: r_into_rtranclp)
    qed
    moreover have "peer_addrs n' = peer_addrs k" "n_Address n' = n_Address k" using 2(2) by (simp_all add: peer_addrs_def)
    ultimately show ?thesis using forward_part [OF up, of E n' "Some ?i" LoopSelects ?tx] 2(3) by (simp add: rtranclp.rtrancl_into_rtrancl)
  qed
qed

text \<open>
  C14: While the miner is not active, the handler of a transaction does what \<open>ForwardTransaction\<close> does as one operation: called when
  the mutex is free and the loop waits, and answered in time, it can run to its end, leaves the node in the state the operation
  computes, has started exactly its calls to peers, and gives the mutex back.
\<close>

theorem forward_transaction_refined:
  assumes "\<not> p_down s" and "p_lock s = None" and "p_loop s = LoopSelects" and "\<forall>m. n_Miner (p_node s) = Some m \<longrightarrow> \<not> Active m"
    and "HasMiner (MinerConfig (n_Config (p_node s))) \<longrightarrow> n_Wallet (p_node s) \<noteq> None \<and>
      GetInputSums E (n_BlockChain (p_node s)) [fst (DecodeTransactionWithAddress msg)] = Some sums"
    and "ForwardTransaction E rpc (Some sums) (p_node s) msg = Some (r, n', tasks)"
  shows "(thread_step E)\<^sup>*\<^sup>* s (s\<lparr>p_node := n', p_threads := p_threads s @ [Finished], p_out := p_out s @ tasks\<rparr>)"
proof -
  let ?i = "length (p_threads s)"
  have "thread_step E s (with_thread s (p_node s) None LoopSelects (TxWaits msg))"
    using thread_step.call_tx [OF assms(1), of E msg] assms(2,3) by (cases s) (simp add: with_thread_def)
  moreover have "thread_step E (with_thread s (p_node s) None LoopSelects (TxWaits msg))
      (with_thread s (p_node s) (Some ?i) LoopSelects (TxHolds msg))"
    using thread_step.tx_lock [of "with_thread s (p_node s) None LoopSelects (TxWaits msg)" ?i msg E] assms(1) by simp
  moreover note holding_part [OF assms(1,4,5,6)]
  moreover have "(with_thread s n' None LoopSelects Finished)\<lparr>p_out := p_out s @ tasks\<rparr> =
      s\<lparr>p_node := n', p_threads := p_threads s @ [Finished], p_out := p_out s @ tasks\<rparr>"
    using assms(2,3) by (cases s) (simp add: with_thread_def)
  ultimately show ?thesis by (metis converse_rtranclp_into_rtranclp)
qed

end
