(* ===== verification/Rpc_Client.thy ===== *)
theory Rpc_Client
  imports Lightning
begin

text \<open>
  The client side of remote calls: \<open>src/pkg/address/client.go\<close>.

  gRPC is a parameter, the record \<open>transport\<close>: dialling an address succeeds or fails, and a method of a service, called on a
  connection, takes some time and returns a response or an error. A connection is named by its address. Closing it can only
  fail with a message on the screen: the deferred functions assign the error to a variable that is no longer read. A nil
  response inside a message is \<^const>\<open>None\<close>.
\<close>

section \<open>The transport\<close>

datatype rpc_error = DialError | DeadlineExceeded | Unimplemented | HandlerError

type_synonym ('a, 'b) invoker = "string \<Rightarrow> 'a \<Rightarrow> int \<times> (rpc_error + 'b)"

record transport =
  grpc_Dial :: "string \<Rightarrow> bool"
  coin_Version :: "(pro_VersionRequest, unit) invoker"
  coin_GetBlocks :: "(string, string list) invoker"
  coin_GetData :: "(string, pro_Block option) invoker"
  coin_GetAddresses :: "(unit, pro_Address list) invoker"
  coin_SendAddresses :: "(pro_Address list, unit) invoker"
  coin_ForwardTransaction :: "(pro_TransactionWithAddress, unit) invoker"
  coin_ForwardBlock :: "(pro_Block, unit) invoker"
  coin_GetWitnesses :: "(pro_Transaction option, bytes list) invoker"
  lightning_Version :: "(pro_VersionRequest, unit) invoker"
  lightning_OpenChannel :: "(pro_OpenChannelRequest, pro_OpenChannelResponse) invoker"
  lightning_GetUpdatedTransactions :: "(pro_TransactionWithAddress, pro_UpdatedTransactions) invoker"
  lightning_GetRevocationKey :: "(pro_SignedTransactionWithKey, bytes) invoker"

section \<open>Connections\<close>

definition RPCTimeout :: int where
  "RPCTimeout = 2 * 1000000000"

definition clientUnaryInterceptor :: "('a, 'b) invoker \<Rightarrow> string \<Rightarrow> 'a \<Rightarrow> rpc_error + 'b" where
  "clientUnaryInterceptor invoker cc req =
     (let (elapsed, result) = invoker cc req in if elapsed \<ge> RPCTimeout then Inl DeadlineExceeded else result)"

definition connectToServer :: "transport \<Rightarrow> string \<Rightarrow> rpc_error + string" where
  "connectToServer T addr = (if grpc_Dial T addr then Inr addr else Inl DialError)"

definition GetConnection :: "transport \<Rightarrow> Address \<Rightarrow> rpc_error + string" where
  "GetConnection T a = connectToServer T (a_Addr a)"

definition GetLightningConnection :: "transport \<Rightarrow> Address \<Rightarrow> rpc_error + string" where
  "GetLightningConnection T a = connectToServer T (a_Addr a)"

text \<open>What all calls have in common.\<close>

definition unary :: "rpc_error + string \<Rightarrow> ('a, 'b) invoker \<Rightarrow> 'a \<Rightarrow> rpc_error + 'b" where
  "unary conn invoker req = (case conn of Inl e \<Rightarrow> Inl e | Inr cc \<Rightarrow> clientUnaryInterceptor invoker cc req)"

section \<open>Calls of the coin service\<close>

text \<open>\<open>VersionRPC\<close> notes the time in the address object when a connection was made, whether the call succeeds or not.\<close>

definition VersionRPC ::
  "transport \<Rightarrow> int \<Rightarrow> store \<Rightarrow> addr_ptr \<Rightarrow> pro_VersionRequest \<Rightarrow> (rpc_error + unit) \<times> store" where
  "VersionRPC T now s a request =
     (case GetConnection T (s ! a) of
        Inl e \<Rightarrow> (Inl e, s)
      | Inr cc \<Rightarrow> (clientUnaryInterceptor (coin_Version T) cc request, set_SentVer s a now))"

definition GetBlocksRPC :: "transport \<Rightarrow> Address \<Rightarrow> string \<Rightarrow> rpc_error + string list" where
  "GetBlocksRPC T a request = unary (GetConnection T a) (coin_GetBlocks T) request"

definition GetDataRPC :: "transport \<Rightarrow> Address \<Rightarrow> string \<Rightarrow> rpc_error + pro_Block option" where
  "GetDataRPC T a request = unary (GetConnection T a) (coin_GetData T) request"

definition GetAddressesRPC :: "transport \<Rightarrow> Address \<Rightarrow> unit \<Rightarrow> rpc_error + pro_Address list" where
  "GetAddressesRPC T a request = unary (GetConnection T a) (coin_GetAddresses T) request"

definition SendAddressesRPC :: "transport \<Rightarrow> Address \<Rightarrow> pro_Address list \<Rightarrow> rpc_error + unit" where
  "SendAddressesRPC T a request = unary (GetConnection T a) (coin_SendAddresses T) request"

definition ForwardTransactionRPC :: "transport \<Rightarrow> Address \<Rightarrow> pro_TransactionWithAddress \<Rightarrow> rpc_error + unit" where
  "ForwardTransactionRPC T a request = unary (GetConnection T a) (coin_ForwardTransaction T) request"

definition ForwardBlockRPC :: "transport \<Rightarrow> Address \<Rightarrow> pro_Block \<Rightarrow> rpc_error + unit" where
  "ForwardBlockRPC T a request = unary (GetConnection T a) (coin_ForwardBlock T) request"

definition GetWitnessesRPC :: "transport \<Rightarrow> Address \<Rightarrow> pro_Transaction option \<Rightarrow> rpc_error + bytes list" where
  "GetWitnessesRPC T a request = unary (GetConnection T a) (coin_GetWitnesses T) request"

section \<open>Calls of the lightning service\<close>

definition LightningVersionRPC ::
  "transport \<Rightarrow> int \<Rightarrow> store \<Rightarrow> addr_ptr \<Rightarrow> pro_VersionRequest \<Rightarrow> (rpc_error + unit) \<times> store" where
  "LightningVersionRPC T now s a request =
     (case GetLightningConnection T (s ! a) of
        Inl e \<Rightarrow> (Inl e, s)
      | Inr cc \<Rightarrow> (clientUnaryInterceptor (lightning_Version T) cc request, set_SentVer s a now))"

definition OpenChannelRPC :: "transport \<Rightarrow> Address \<Rightarrow> pro_OpenChannelRequest \<Rightarrow> rpc_error + pro_OpenChannelResponse" where
  "OpenChannelRPC T a request = unary (GetLightningConnection T a) (lightning_OpenChannel T) request"

definition GetUpdatedTransactionsRPC ::
  "transport \<Rightarrow> Address \<Rightarrow> pro_TransactionWithAddress \<Rightarrow> rpc_error + pro_UpdatedTransactions" where
  "GetUpdatedTransactionsRPC T a request = unary (GetLightningConnection T a) (lightning_GetUpdatedTransactions T) request"

definition GetRevocationKeyRPC :: "transport \<Rightarrow> Address \<Rightarrow> pro_SignedTransactionWithKey \<Rightarrow> rpc_error + bytes" where
  "GetRevocationKeyRPC T a request = unary (GetLightningConnection T a) (lightning_GetRevocationKey T) request"

section \<open>Facts\<close>

text \<open>The result of a call, an error as \<^const>\<open>None\<close>, is what the operations of a node take as an argument.\<close>

definition answer :: "rpc_error + 'a \<Rightarrow> 'a option" where
  "answer r = (case r of Inl _ \<Rightarrow> None | Inr x \<Rightarrow> Some x)"

lemma answer_simps [simp]: "answer (Inl e) = None" "answer (Inr x) = Some x"
  by (simp_all add: answer_def)

lemma unary_ok: "unary (Inr cc) f req = Inr x \<longleftrightarrow> (\<exists>t < RPCTimeout. f cc req = (t, Inr x))"
  by (auto simp: unary_def clientUnaryInterceptor_def split: prod.splits if_splits)

lemma unary_in_time: "f cc req = (t, r) \<Longrightarrow> t < RPCTimeout \<Longrightarrow> unary (Inr cc) f req = r"
  by (simp add: unary_def clientUnaryInterceptor_def)

end
