(* ===== verification/Network.thy ===== *)
theory Network
  imports Node Coin_Log Rpc_Client
begin

text \<open>
  Several nodes on one network: the processes, their gRPC servers (\<open>StartServer\<close>, \<open>PauseNetwork\<close>, \<open>ResumeNetwork\<close> and
  \<open>Kill\<close> of \<open>src/pkg/node.go\<close> and of \<open>lightning/lightningnode.go\<close>), and the calls and goroutines that are under way.

  A process is named by the address it serves. Goroutines finish in any order, so the messages under way are a list from which
  any one may be taken next; what a process sent before it stopped may still arrive. Clock readings,
  shuffles, answers to nested calls and to channel requests are arbitrary at each step.
  A panic in a handler or a goroutine stops the process. When a remote call fails, the sender prints the address of a peer; the
  closures of the code share the loop variable (the module is for Go 1.16), so it may be the address of any peer of the loop.
\<close>

section \<open>State\<close>

datatype net_msg =
    BlockMsg pro_Block
  | TxMsg pro_TransactionWithAddress
  | VersionMsg pro_VersionRequest
  | AddressesMsg "pro_Address list"
  | MinerTxTask Transaction
  | MinerBlockTask Block
  | WalletTask "MemTx list"

record envelope =
  env_from :: string
  env_to :: string
  env_msg :: net_msg
  env_logs :: "string list"

text \<open>Which service listens at an address: that of the node or that of its lightning node, on a port of its own.\<close>

datatype server_state = NoServer | Serving | LightningServing | Stopped

record 'db world =
  hosts :: "string \<Rightarrow> 'db Node option"
  servers :: "string \<Rightarrow> server_state"
  inflight :: "envelope list"

record choices =
  c_clock :: "int \<times> int \<times> int"
  c_shuffle :: "string list \<Rightarrow> string list"
  c_rpc :: "addr_ptr \<Rightarrow> pro_Transaction option \<Rightarrow> bytes list option"
  c_reply :: "u32 list option"

section \<open>Servers\<close>

text \<open>Listening on an address in use panics. Stopping a server that was never made is a nil dereference.\<close>

definition StartServer :: "'db world \<Rightarrow> string \<Rightarrow> 'db world option" where
  "StartServer w addr =
     (if servers w addr \<in> {Serving, LightningServing} then None else Some (w\<lparr>servers := (servers w)(addr := Serving)\<rparr>))"

definition ln_StartServer :: "'db world \<Rightarrow> string \<Rightarrow> 'db world option" where
  "ln_StartServer w addr =
     (if servers w addr \<in> {Serving, LightningServing} then None else Some (w\<lparr>servers := (servers w)(addr := LightningServing)\<rparr>))"

definition PauseNetwork :: "'db world \<Rightarrow> string \<Rightarrow> 'db world option" where
  "PauseNetwork w addr = (if servers w addr = NoServer then None else Some (w\<lparr>servers := (servers w)(addr := Stopped)\<rparr>))"

definition ResumeNetwork :: "string \<Rightarrow> 'db world \<Rightarrow> 'db Node \<Rightarrow> 'db world option" where
  "ResumeNetwork hostname w n = StartServer w (hostname @ '':'' @ string_of_int (Port (n_Config n)))"

definition Kill :: "'db world \<Rightarrow> string \<Rightarrow> 'db world option" where
  "Kill w addr = (if servers w addr = NoServer then None else Some (w\<lparr>servers := (servers w)(addr := Stopped)\<rparr>))"

definition ln_Kill :: "'db world \<Rightarrow> string \<Rightarrow> 'db world option" where
  "ln_Kill w addr = (if servers w addr = NoServer then None else Some (w\<lparr>servers := (servers w)(addr := Stopped)\<rparr>))"

section \<open>Handling a message\<close>

text \<open>
  The handler or goroutine a message starts. The flag says whether a call is answered without an error; a goroutine of the process
  itself has no caller.
\<close>

definition handle :: "('db, 'z) ext_scheme \<Rightarrow> choices \<Rightarrow> 'db Node \<Rightarrow> net_msg \<Rightarrow> (bool \<times> 'db Node \<times> node_task list) option" where
  "handle E c n m =
     (case m of
        BlockMsg pb \<Rightarrow> map_option (\<lambda>(r, st). (\<not> isl r, st)) (ForwardBlock E n pb)
      | TxMsg msg \<Rightarrow> map_option (\<lambda>(r, st). (\<not> isl r, st)) (ForwardTransaction E (c_rpc c) (c_reply c) n msg)
      | VersionMsg req \<Rightarrow> Some (True, Node_Version (c_clock c) n req)
      | AddressesMsg addrs \<Rightarrow> map_option (\<lambda>st. (True, st)) (SendAddresses (c_shuffle c) n addrs)
      | MinerTxTask tx \<Rightarrow>
          do { m \<leftarrow> n_Miner n;
               (m, _) \<leftarrow> HandleTransaction m (c_reply c) (Some tx);
               Some (True, n\<lparr>n_Miner := Some m\<rparr>, []) }
      | MinerBlockTask b \<Rightarrow>
          do { m \<leftarrow> n_Miner n;
               (m, _) \<leftarrow> Miner_HandleBlock E m (Some b);
               Some (True, n\<lparr>n_Miner := Some m\<rparr>, []) }
      | WalletTask txs \<Rightarrow>
          do { w \<leftarrow> n_Wallet n;
               Some (True, n\<lparr>n_Wallet := Some (Wallet_HandleBlock E w txs)\<rparr>, []) })"

definition ptr_address :: "'db Node \<Rightarrow> addr_ptr \<Rightarrow> string" where
  "ptr_address n p = a_Addr (addr_store (n_net n) ! p)"

definition peer_addresses :: "'db Node \<Rightarrow> string list" where
  "peer_addresses n = map (ptr_address n) (peer_addrs n)"

text \<open>
  The message a task becomes, with the process that prints its failure and the addresses it may print. The handler of \<open>Version\<close>
  returns the error of its own call to its caller. \<open>e\<close> is the message whose handler started the task.
\<close>

definition dispatch :: "'db Node \<Rightarrow> envelope \<Rightarrow> node_task \<Rightarrow> envelope list" where
  "dispatch n e t =
     (let k = env_to e in
      case t of
        MinerHandlesTransaction tx \<Rightarrow> [\<lparr>env_from = k, env_to = k, env_msg = MinerTxTask tx, env_logs = []\<rparr>]
      | MinerHandlesBlock b \<Rightarrow> [\<lparr>env_from = k, env_to = k, env_msg = MinerBlockTask b, env_logs = []\<rparr>]
      | WalletHandlesBlock txs \<Rightarrow> [\<lparr>env_from = k, env_to = k, env_msg = WalletTask txs, env_logs = []\<rparr>]
      | ForwardTransactionTo p msg \<Rightarrow>
          [\<lparr>env_from = k, env_to = ptr_address n p, env_msg = TxMsg msg, env_logs = peer_addresses n\<rparr>]
      | ForwardBlockTo p pb \<Rightarrow> [\<lparr>env_from = k, env_to = ptr_address n p, env_msg = BlockMsg pb, env_logs = peer_addresses n\<rparr>]
      | SendVersionTo addr req \<Rightarrow>
          [\<lparr>env_from = k, env_to = addr, env_msg = VersionMsg req,
            env_logs = (case env_msg e of AddressesMsg addrs \<Rightarrow> map pa_Addr addrs | _ \<Rightarrow> [addr])\<rparr>]
      | ReplyVersionTo addr req \<Rightarrow> [\<lparr>env_from = env_from e, env_to = addr, env_msg = VersionMsg req, env_logs = env_logs e\<rparr>]
      | SendAddressesTo p addrs \<Rightarrow>
          [\<lparr>env_from = k, env_to = ptr_address n p, env_msg = AddressesMsg addrs, env_logs = [ptr_address n p]\<rparr>]
      | ReplyInputSums sums \<Rightarrow> []
      | ReplyFundingTransaction tx \<Rightarrow> [])"

definition is_local :: "net_msg \<Rightarrow> bool" where
  "is_local m = (case m of MinerTxTask _ \<Rightarrow> True | MinerBlockTask _ \<Rightarrow> True | WalletTask _ \<Rightarrow> True | _ \<Rightarrow> False)"

definition reachable_host :: "'db world \<Rightarrow> envelope \<Rightarrow> bool" where
  "reachable_host w e \<longleftrightarrow> hosts w (env_to e) \<noteq> None \<and> (is_local (env_msg e) \<or> servers w (env_to e) = Serving)"

text \<open>The line a failed call prints: the caller, if it still runs, formats its own address and another one, which may panic.\<close>

definition log_panics :: "'db Node \<Rightarrow> string \<Rightarrow> bool" where
  "log_panics n addr \<longleftrightarrow> FmtAddr (n_Address n) = None \<or> FmtAddr addr = None"

definition log_failure :: "envelope \<Rightarrow> string option \<Rightarrow> (string \<Rightarrow> 'db Node option) \<Rightarrow> (string \<Rightarrow> 'db Node option)" where
  "log_failure e printed h =
     (case (printed, h (env_from e)) of
        (Some a, Some n) \<Rightarrow> if log_panics n a then h(env_from e := None) else h
      | _ \<Rightarrow> h)"

definition may_print :: "envelope \<Rightarrow> string option \<Rightarrow> bool" where
  "may_print e printed \<longleftrightarrow> (case printed of None \<Rightarrow> env_logs e = [] | Some a \<Rightarrow> a \<in> set (env_logs e))"

section \<open>Steps\<close>

text \<open>
  A message is delivered to a process that serves, and the call succeeds; or the call is delivered, but the caller sees an error or
  does not wait long enough; or the handler panics; or there is nobody to call.
\<close>

inductive net_step :: "('db, 'z) ext_scheme \<Rightarrow> 'db world \<Rightarrow> 'db world \<Rightarrow> bool" for E where
  net_deliver: "inflight w = xs @ e # ys \<Longrightarrow> reachable_host w e \<Longrightarrow> hosts w (env_to e) = Some n \<Longrightarrow>
    handle E c n (env_msg e) = Some (True, n', tasks) \<Longrightarrow>
    net_step E w (w\<lparr>hosts := (hosts w)(env_to e \<mapsto> n'), inflight := xs @ ys @ concat (map (dispatch n' e) tasks)\<rparr>)"
| net_error: "inflight w = xs @ e # ys \<Longrightarrow> reachable_host w e \<Longrightarrow> hosts w (env_to e) = Some n \<Longrightarrow>
    handle E c n (env_msg e) = Some (ok, n', tasks) \<Longrightarrow> may_print e printed \<Longrightarrow>
    net_step E w (w\<lparr>hosts := log_failure e printed ((hosts w)(env_to e \<mapsto> n')),
      inflight := xs @ ys @ concat (map (dispatch n' e) tasks)\<rparr>)"
| net_panic: "inflight w = xs @ e # ys \<Longrightarrow> reachable_host w e \<Longrightarrow> hosts w (env_to e) = Some n \<Longrightarrow>
    handle E c n (env_msg e) = None \<Longrightarrow> may_print e printed \<Longrightarrow>
    net_step E w (w\<lparr>hosts := log_failure e printed ((hosts w)(env_to e := None)), inflight := xs @ ys\<rparr>)"
| net_fail: "inflight w = xs @ e # ys \<Longrightarrow> \<not> reachable_host w e \<Longrightarrow> may_print e printed \<Longrightarrow>
    net_step E w (w\<lparr>hosts := log_failure e printed (hosts w), inflight := xs @ ys\<rparr>)"

inductive_cases net_stepE: "net_step E w w'"

text \<open>A line that can be printed changes nothing.\<close>

lemma log_failure_id:
  assumes "\<And>n. h (env_from e) = Some n \<Longrightarrow> FmtAddr (n_Address n) \<noteq> None" and "\<And>a. printed = Some a \<Longrightarrow> FmtAddr a \<noteq> None"
  shows "log_failure e printed h = h"
  using assms by (auto simp: log_failure_def log_panics_def split: option.split)

lemma log_failure_down: "h k = None \<Longrightarrow> log_failure e printed h k = None"
  by (auto simp: log_failure_def split: option.split)

text \<open>A message under way can always be taken.\<close>

lemma net_progress:
  assumes "inflight w = xs @ e # ys"
  shows "\<exists>w'. net_step E w w'"
proof -
  have p: "may_print e (if env_logs e = [] then None else Some (hd (env_logs e)))" by (simp add: may_print_def)
  show ?thesis
  proof (cases "reachable_host w e")
    case True
    then obtain n where n: "hosts w (env_to e) = Some n" by (auto simp: reachable_host_def)
    show ?thesis
    proof (cases "handle E undefined n (env_msg e)")
      case None
      then show ?thesis using net_panic [OF assms True n _ p] by blast
    next
      case (Some r)
      then show ?thesis using net_error [OF assms True n _ p] by (metis prod_cases3)
    qed
  next
    case False
    then show ?thesis using net_fail [OF assms _ p] by blast
  qed
qed

lemma servers_net_step: "net_step E w w' \<Longrightarrow> servers w' = servers w"
  by (erule net_stepE) auto

end
