(* ===== verification/Net_Peers.thy ===== *)
theory Net_Peers
  imports Network Node_Machine
begin

text \<open>
  Peering on a network of nodes: \<open>ConnectToPeer\<close> (\<open>src/pkg/node.go\<close>), \<open>Version\<close> and \<open>SendAddresses\<close> (\<open>server.go\<close>) as they run
  between processes.
\<close>

section \<open>One version message\<close>

text \<open>A node that does not know an address and has room for it.\<close>

definition stranger :: "Net \<Rightarrow> string \<Rightarrow> bool" where
  "stranger net addr \<longleftrightarrow> net_ok net \<and> adb_Get (AddressDB net) addr = None \<and>
     int (length (addresses (AddressDB net))) < adb_limit (AddressDB net) \<and> int (length (peers (PeerDb net))) < pdb_limit (PeerDb net)"

definition acquainted :: "Net \<Rightarrow> string \<Rightarrow> bool" where
  "acquainted net addr \<longleftrightarrow> net_ok net \<and> pdb_Get (PeerDb net) addr \<noteq> None"

lemma accept_version_stranger:
  assumes "stranger net (pv_AddrMe req)" and "accept_version timeout clock net req = (reply, net')"
  shows "reply \<and> acquainted net' (pv_AddrMe req)"
proof -
  have ok: "net_ok net" and unknown: "map_of (addresses (AddressDB net)) (pv_AddrMe req) = None"
    and room: "int (length (addresses (AddressDB net))) < adb_limit (AddressDB net)"
      "int (length (peers (PeerDb net))) < pdb_limit (PeerDb net)"
    using assms(1) by (simp_all add: stranger_def adb_Get_def)
  then have "map_of (peers (PeerDb net)) (pv_AddrMe req) = None" by (cases "map_of (peers (PeerDb net)) (pv_AddrMe req)") (auto simp: net_ok_def)
  then have reply
    using assms(2) unknown room
    by (auto simp: accept_version_def known_address_def alloc_def adb_Get_def adb_Add_def address_New_def peer_New_def pdb_Add_def
        pending_version_def update_conv' nth_append Let_def split: prod.splits)
  then show ?thesis using accept_version_ok [OF ok assms(2)] by (simp add: acquainted_def)
qed

lemma accept_version_acquainted:
  assumes "acquainted net (pv_AddrMe req)" and "accept_version timeout clock net req = (reply, net')"
  shows "\<not> reply \<and> acquainted net' (pv_AddrMe req)"
  using assms(1) accept_version_ok [OF _ assms(2)] by (auto simp: acquainted_def)

text \<open>A process with its address and version.\<close>

definition serves :: "'db world \<Rightarrow> string \<Rightarrow> u32 \<Rightarrow> 'db Node \<Rightarrow> bool" where
  "serves w k v n \<longleftrightarrow> hosts w k = Some n \<and> servers w k = Serving \<and> n_Address n = k \<and> nc_Version (n_Config n) = int (unat v) \<and>
     FmtAddr k \<noteq> None"

lemma Node_Version_stranger:
  assumes "stranger (n_net n) (pv_AddrMe req)" and "nc_Version (n_Config n) = int (unat (pv_Version req))"
    and "Node_Version clock n req = (n', tasks)"
  shows "acquainted (n_net n') (pv_AddrMe req) \<and> n_Address n' = n_Address n \<and> n_Config n' = n_Config n \<and>
    (\<exists>req'. tasks = [ReplyVersionTo (pv_AddrMe req) req'] \<and> pv_Version req' = pv_Version req \<and> pv_AddrMe req' = n_Address n)"
  using assms accept_version_stranger [OF assms(1), of "VersionTimeout (n_Config n)" clock]
  by (auto simp: Node_Version_def version_request_def Let_def split: prod.splits)

lemma Node_Version_acquainted:
  assumes "acquainted (n_net n) (pv_AddrMe req)" and "nc_Version (n_Config n) = int (unat (pv_Version req))"
    and "Node_Version clock n req = (n', tasks)"
  shows "acquainted (n_net n') (pv_AddrMe req) \<and> n_Address n' = n_Address n \<and> n_Config n' = n_Config n \<and> tasks = []"
  using assms accept_version_acquainted [OF assms(1), of "VersionTimeout (n_Config n)" clock]
  by (auto simp: Node_Version_def Let_def split: prod.splits)

lemma net_step_idle: "inflight w = [] \<Longrightarrow> \<not> net_step E w w'"
  by (auto elim: net_stepE)

lemma version_step:
  assumes "net_step E w w'" and "inflight w = [e]" and "env_msg e = VersionMsg req"
    and "hosts w (env_to e) = Some n" and "servers w (env_to e) = Serving"
    and "\<forall>a \<in> set (env_logs e). FmtAddr a \<noteq> None" and "\<And>m. hosts w (env_from e) = Some m \<Longrightarrow> FmtAddr (n_Address m) \<noteq> None"
  obtains clock n' tasks where "Node_Version clock n req = (n', tasks)"
    and "w' = w\<lparr>hosts := (hosts w)(env_to e \<mapsto> n'), inflight := concat (map (dispatch n' e) tasks)\<rparr>"
proof -
  have one: "xs = [] \<and> e' = e \<and> ys = []" if "inflight w = xs @ e' # ys" for xs e' ys
    using that assms(2) by (simp add: append_eq_Cons_conv Cons_eq_append_conv)
  have addr: "n_Address n' = n_Address n" if "Node_Version clock n req = (n', tasks)" for clock n' tasks
    using that by (auto simp: Node_Version_def Let_def split: prod.splits if_splits)
  have quiet: "log_failure e printed ((hosts w)(env_to e \<mapsto> n')) = (hosts w)(env_to e \<mapsto> n')"
    if "Node_Version clock n req = (n', tasks)" "may_print e printed" for clock n' tasks printed
    by (rule log_failure_id) (use that assms(4,6,7) addr in \<open>auto simp: may_print_def split: if_splits\<close>)
  from assms(1) show thesis
  proof cases
    case (net_deliver xs e' ys n0 c n' tasks)
    then show thesis using one [OF net_deliver(2)] assms(3,4) that [of "c_clock c" n' tasks] by (simp add: handle_def)
  next
    case (net_error xs e' ys n0 c ok n' tasks printed)
    then show thesis
      using one [OF net_error(2)] assms(3,4) that [of "c_clock c" n' tasks] quiet [of "c_clock c" n' tasks printed]
      by (simp add: handle_def)
  next
    case (net_panic xs e' ys n0 c printed)
    then show thesis using one [OF net_panic(2)] assms(3) by (simp add: handle_def)
  next
    case (net_fail xs e' ys printed)
    then show thesis using one [OF net_fail(2)] assms(4,5) by (simp add: reachable_host_def)
  qed
qed

section \<open>Two nodes meet\<close>

text \<open>
  The exchange after \<open>i\<close> messages: the request, the answer, and the request that comes back because the object that \<open>ConnectToPeer\<close>
  marks as waiting for an answer is not the one the handler looks up.
\<close>

definition meeting :: "string \<Rightarrow> string \<Rightarrow> u32 \<Rightarrow> nat \<Rightarrow> 'db world \<Rightarrow> bool" where
  "meeting a b v i w \<longleftrightarrow> a \<noteq> b \<and> i \<le> 3 \<and> (\<exists>na nb. serves w a v na \<and> serves w b v nb \<and>
     (if i < 2 then stranger (n_net na) b else acquainted (n_net na) b) \<and>
     (if i < 1 then stranger (n_net nb) a else acquainted (n_net nb) a)) \<and>
     (if i = 3 then inflight w = []
      else \<exists>req. inflight w = [\<lparr>env_from = a, env_to = (if i = 1 then a else b), env_msg = VersionMsg req, env_logs = [b]\<rparr>] \<and>
        pv_Version req = v \<and> pv_AddrMe req = (if i = 1 then b else a))"

lemma meeting_step:
  assumes m: "meeting a b v i w" and step: "net_step E w w'"
  shows "meeting a b v (Suc i) w'"
proof -
  have i: "i < 3" and ab: "a \<noteq> b" using m step net_step_idle [of w E w'] by (auto simp: meeting_def le_less)
  obtain na nb where n: "serves w a v na" "serves w b v nb" "if i < 2 then stranger (n_net na) b else acquainted (n_net na) b"
    "if i < 1 then stranger (n_net nb) a else acquainted (n_net nb) a"
    using m by (auto simp: meeting_def)
  obtain req where req: "inflight w = [\<lparr>env_from = a, env_to = (if i = 1 then a else b), env_msg = VersionMsg req, env_logs = [b]\<rparr>]"
    "pv_Version req = v" "pv_AddrMe req = (if i = 1 then b else a)"
    using m i by (auto simp: meeting_def)
  let ?n = "if i = 1 then na else nb" and ?k = "if i = 1 then a else b"
  obtain clock n' tasks where v: "Node_Version clock ?n req = (n', tasks)"
    "w' = w\<lparr>hosts := (hosts w)(?k \<mapsto> n'),
       inflight := concat (map (dispatch n' \<lparr>env_from = a, env_to = ?k, env_msg = VersionMsg req, env_logs = [b]\<rparr>) tasks)\<rparr>"
    by (rule version_step [OF step req(1), of req ?n]) (use n in \<open>auto simp: serves_def\<close>)
  consider "i = 0" | "i = 1" | "i = 2" using i by linarith
  then show ?thesis
  proof cases
    case 1
    then show ?thesis
      using Node_Version_stranger [OF _ _ v(1)] n req ab by (auto simp: meeting_def serves_def v(2) dispatch_def)
  next
    case 2
    then show ?thesis
      using Node_Version_stranger [OF _ _ v(1)] n req ab by (auto simp: meeting_def serves_def v(2) dispatch_def)
  next
    case 3
    then show ?thesis
      using Node_Version_acquainted [OF _ _ v(1)] n req ab by (auto simp: meeting_def serves_def v(2))
  qed
qed

lemma meeting_steps: "meeting a b v 0 w \<Longrightarrow> (net_step E ^^ m) w w' \<Longrightarrow> meeting a b v m w'"
  by (induction m arbitrary: w') (auto intro: meeting_step)

text \<open>
  C15: Two nodes of the same version that do not know each other meet by one \<open>ConnectToPeer\<close>: exactly three version messages are
  exchanged, whatever the clocks show, and then each is a peer of the other.
\<close>

theorem connect_makes_peers:
  assumes "serves w a v na" and "serves w b v nb" and "a \<noteq> b" and "stranger (n_net na) b" and "stranger (n_net nb) a"
    and "Node_ConnectToPeer na b = SendVersionTo b req"
    and "inflight w = [\<lparr>env_from = a, env_to = b, env_msg = VersionMsg req, env_logs = [b]\<rparr>]"
    and "(net_step E ^^ m) w w'"
  shows "m \<le> 3 \<and> (inflight w' = [] \<longleftrightarrow> m = 3) \<and>
    (m = 3 \<longrightarrow> (\<exists>na' nb'. hosts w' a = Some na' \<and> hosts w' b = Some nb' \<and>
       pdb_Get (PeerDb (n_net na')) b \<noteq> None \<and> pdb_Get (PeerDb (n_net nb')) a \<noteq> None))"
proof -
  have "meeting a b v 0 w"
    using assms(1-7) by (auto simp: meeting_def Node_ConnectToPeer_def version_request_def serves_def)
  then have "meeting a b v m w'" using assms(8) by (rule meeting_steps)
  then show ?thesis by (auto simp: meeting_def serves_def acquainted_def split: if_splits)
qed

section \<open>An address that cannot be printed\<close>

lemma foldl_learn_address: "n_Address (fst (foldl learn_address st addrs)) = n_Address (fst st)"
  by (induction addrs arbitrary: st) (auto simp: learn_address_def Let_def case_prod_unfold)

lemma handle_address:
  assumes "handle E c n m = Some (ok, n', tasks)"
  shows "n_Address n' = n_Address n"
proof (cases m)
  case (AddressesMsg addrs)
  then show ?thesis
    using assms foldl_learn_address [of "(n, False, [])" addrs]
    by (auto simp: handle_def SendAddresses_def Let_def case_prod_unfold split: if_splits)
next
  case (TxMsg msg)
  have "n_Address n1 = n_Address n" if "note_transaction E rpc n msg = Some (Inr n1)" for rpc n1
    using that by (auto simp: note_transaction_def Let_def split: option.splits if_splits)
  then show ?thesis
    using assms TxMsg
    by (auto simp: handle_def ForwardTransaction_def Let_def bind_eq_Some_conv split: option.splits sum.splits if_splits)
qed (use assms in \<open>auto simp: handle_def ForwardBlock_def Node_Version_def Let_def case_prod_unfold bind_eq_Some_conv
    split: if_splits\<close>)

text \<open>The message with the address, and the call it leads to.\<close>

definition fatal_news :: "string \<Rightarrow> pro_Address \<Rightarrow> envelope \<Rightarrow> bool" where
  "fatal_news k pa e \<longleftrightarrow> env_to e = k \<and> env_msg e = AddressesMsg [pa]"

definition fatal_call :: "string \<Rightarrow> pro_Address \<Rightarrow> envelope \<Rightarrow> bool" where
  "fatal_call k pa e \<longleftrightarrow> env_from e = k \<and> env_to e = pa_Addr pa \<and> env_logs e = [pa_Addr pa]"

definition doomed :: "string \<Rightarrow> pro_Address \<Rightarrow> 'db world \<Rightarrow> bool" where
  "doomed k pa w \<longleftrightarrow> servers w k = Serving \<and> FmtAddr (pa_Addr pa) = None \<and> hosts w (pa_Addr pa) = None \<and>
     (\<forall>n. hosts w k = Some n \<longrightarrow> n_Address n \<noteq> pa_Addr pa \<and> (\<exists>e \<in> set (inflight w). fatal_news k pa e \<or> fatal_call k pa e))"

lemma SendAddresses_calls:
  assumes "SendAddresses shuffle n [pa] = Some (n', tasks)" and "pa_Addr pa \<noteq> n_Address n"
  shows "SendVersionTo (pa_Addr pa) (version_request n (pa_Addr pa)) \<in> set tasks"
  using assms by (auto simp: SendAddresses_def learn_address_def Let_def case_prod_unfold split: if_splits)

lemma doomed_stays:
  assumes "doomed k pa w" and "inflight w = xs @ e # ys" and "inflight w' = xs @ ys @ out" and "servers w' = servers w"
    and "hosts w' (pa_Addr pa) = None" and "hosts w' k = None \<or> map_option n_Address (hosts w' k) = map_option n_Address (hosts w k)"
    and "\<And>n'. hosts w' k = Some n' \<Longrightarrow> fatal_news k pa e \<Longrightarrow> \<exists>e' \<in> set out. fatal_call k pa e'"
    and "\<And>n'. hosts w' k = Some n' \<Longrightarrow> \<not> fatal_call k pa e"
  shows "doomed k pa w'"
proof -
  have "n_Address n' \<noteq> pa_Addr pa \<and> (\<exists>e \<in> set (inflight w'). fatal_news k pa e \<or> fatal_call k pa e)" if n': "hosts w' k = Some n'" for n'
  proof -
    obtain n where n: "hosts w k = Some n" "n_Address n' = n_Address n" using assms(6) n' by (cases "hosts w k") auto
    then have "\<exists>e \<in> set (inflight w). fatal_news k pa e \<or> fatal_call k pa e" "n_Address n \<noteq> pa_Addr pa"
      using assms(1) by (simp_all add: doomed_def)
    then show ?thesis using assms(7,8) [OF n'] n(2) unfolding assms(2,3) by auto
  qed
  then show ?thesis using assms(1,4,5) by (simp add: doomed_def)
qed

lemma log_failure_hosts: "log_failure e printed h k = h k \<or> log_failure e printed h k = None"
  by (simp add: log_failure_def split: option.split)

lemma doomed_delivery:
  assumes d: "doomed k pa w" and w: "inflight w = xs @ e # ys" "hosts w (env_to e) = Some n" "handle E c n (env_msg e) = Some (ok, n', tasks)"
    and w': "\<And>j. hosts w' j = ((hosts w)(env_to e \<mapsto> n')) j \<or> hosts w' j = None"
      "inflight w' = xs @ ys @ concat (map (dispatch n' e) tasks)" "servers w' = servers w"
  shows "doomed k pa w'"
proof (rule doomed_stays [OF d w(1) w'(2,3)])
  have to: "env_to e \<noteq> pa_Addr pa" using d w(2) by (auto simp: doomed_def)
  then show "hosts w' (pa_Addr pa) = None" using d w'(1) [of "pa_Addr pa"] by (auto simp: doomed_def)
  show "hosts w' k = None \<or> map_option n_Address (hosts w' k) = map_option n_Address (hosts w k)"
    using w'(1) [of k] w(2) handle_address [OF w(3)] by (cases "k = env_to e") auto
  show "\<not> fatal_call k pa e" using to by (simp add: fatal_call_def)
  show "\<exists>e' \<in> set (concat (map (dispatch n' e) tasks)). fatal_call k pa e'" if "fatal_news k pa e"
  proof -
    have e: "env_to e = k" "env_msg e = AddressesMsg [pa]" using that by (simp_all add: fatal_news_def)
    then have "pa_Addr pa \<noteq> n_Address n" using d w(2) by (auto simp: doomed_def)
    then have "SendVersionTo (pa_Addr pa) (version_request n (pa_Addr pa)) \<in> set tasks"
      using SendAddresses_calls [of "c_shuffle c" n pa n' tasks] w(3) e(2) by (auto simp: handle_def)
    then show ?thesis using e by (force simp: dispatch_def fatal_call_def)
  qed
qed

lemma doomed_step:
  assumes d: "doomed k pa w" and step: "net_step E w w'"
  shows "doomed k pa w'"
  using step
proof cases
  case (net_deliver xs e ys n c n' tasks)
  then show ?thesis by (intro doomed_delivery [OF d net_deliver(2,4,5)]) simp_all
next
  case (net_error xs e ys n c ok n' tasks printed)
  have "hosts w' j = ((hosts w)(env_to e \<mapsto> n')) j \<or> hosts w' j = None" for j
    using log_failure_hosts [of e printed "(hosts w)(env_to e \<mapsto> n')" j] net_error(1) by simp
  then show ?thesis by (rule doomed_delivery [OF d net_error(2,4,5)]) (simp_all add: net_error(1))
next
  case (net_panic xs e ys n c printed)
  have down: "hosts w' j = (if j = env_to e then None else hosts w j) \<or> hosts w' j = None" for j
    using log_failure_hosts [of e printed "(hosts w)(env_to e := None)" j] net_panic(1) by auto
  show ?thesis
    by (rule doomed_stays [OF d net_panic(2), of _ "[]"])
      (use net_panic(1,2,4) d down [of k] down [of "pa_Addr pa"] in \<open>auto simp: doomed_def fatal_news_def fatal_call_def split: if_splits\<close>)
next
  case (net_fail xs e ys printed)
  have down: "hosts w' j = hosts w j \<or> hosts w' j = None" for j
    using log_failure_hosts [of e printed "hosts w" j] net_fail(1) by auto
  have "hosts w' k = None" if "fatal_call k pa e"
    using that net_fail(1,4) d
    by (auto simp: fatal_call_def may_print_def log_failure_def log_panics_def doomed_def split: option.splits)
  moreover have "hosts w' k = None" if "fatal_news k pa e"
    using that net_fail(3) d down [of k] by (auto simp: fatal_news_def reachable_host_def doomed_def)
  ultimately show ?thesis
    by (intro doomed_stays [OF d net_fail(2), of _ "[]"])
      (use net_fail(1) d down [of k] down [of "pa_Addr pa"] in \<open>auto simp: doomed_def\<close>)
qed

text \<open>
  C27: One message can stop any serving process: \<open>SendAddresses\<close> with an address that is not empty and has no colon, and that nobody
  serves. Whatever else is under way, the process is down when the network comes to rest: it calls the address, the call fails, and
  printing the failure panics.
\<close>

theorem bad_address_stops_process:
  assumes "e \<in> set (inflight w)" and "env_to e = k" and "env_msg e = AddressesMsg [\<lparr>pa_Addr = addr, pa_LastSeen = t\<rparr>]"
    and "addr \<noteq> ''''" and "CHR '':'' \<notin> set addr" and "hosts w addr = None"
    and "servers w k = Serving" and "hosts w k = Some n" and "n_Address n \<noteq> addr"
    and "(net_step E)\<^sup>*\<^sup>* w w'" and "inflight w' = []"
  shows "hosts w' k = None"
proof -
  let ?pa = "\<lparr>pa_Addr = addr, pa_LastSeen = t\<rparr>"
  have "FmtAddr addr = None" using assms(4,5) by (simp add: FmtAddr_panics)
  then have start: "doomed k ?pa w" using assms(1-3,6-9) by (auto simp: doomed_def fatal_news_def)
  from assms(10) start have "doomed k ?pa w'" by (induction rule: rtranclp_induct) (auto intro: doomed_step)
  then show ?thesis using assms(11) by (auto simp: doomed_def)
qed

end
