(* ===== verification/Channel_Peering.thy ===== *)
theory Channel_Peering
  imports Channel_Protocol Net_Peers
begin

text \<open>
  How lightning nodes become peers, and what channels need: \<open>ConnectToPeer\<close> and \<open>StartServer\<close> of
  \<open>src/pkg/lightning/lightningnode.go\<close>, \<open>Version\<close> of \<open>lightning/server.go\<close>, and the calls of \<open>channel.go\<close> between several lightning nodes,
  each named by the address it serves, a host and a port, so that printing a failed call does not panic. The state also notes who has
  connected to whom. A call with its nested calls is one step; a node does not open a channel with itself.
\<close>

section \<open>Lightning nodes that call each other\<close>

record lightning_net =
  ln_hosts :: "string \<Rightarrow> LightningNode option"
  ln_connected :: "(string \<times> string) set"

text \<open>
  The services \<open>StartServer\<close> of a lightning node registers at its server. A method of a service that is not registered is answered with
  the status \<open>Unimplemented\<close> and runs no handler.
\<close>

datatype rpc_service = CoinService | LightningService

definition ln_services :: "rpc_service list" where
  "ln_services = [LightningService]"

text \<open>
  The handler \<open>Version\<close> answers with \<open>VersionRPC\<close>, a call of the coin service at the address of the sender. Were that service registered
  there, the call would reach the method \<open>Version\<close> of the lightning node, which would note the caller.
\<close>

definition coin_version_call ::
  "int \<times> int \<times> int \<Rightarrow> lightning_net \<Rightarrow> string \<Rightarrow> pro_VersionRequest \<Rightarrow> (rpc_error + unit) \<times> lightning_net" where
  "coin_version_call clock L addr req =
     (case ln_hosts L addr of
        None \<Rightarrow> (Inl DialError, L)
      | Some A \<Rightarrow>
          if CoinService \<in> set ln_services then (Inr (), L\<lparr>ln_hosts := (ln_hosts L)(addr \<mapsto> snd (ln_Version clock A req))\<rparr>)
          else (Inl Unimplemented, L))"

text \<open>One call of \<open>Version\<close> at \<open>b\<close>, with the error that its own call gives.\<close>

definition lightning_version_call ::
  "int \<times> int \<times> int \<Rightarrow> lightning_net \<Rightarrow> string \<Rightarrow> pro_VersionRequest \<Rightarrow> (rpc_error + unit) \<times> lightning_net" where
  "lightning_version_call clock L b req =
     (case ln_hosts L b of
        None \<Rightarrow> (Inl DialError, L)
      | Some B \<Rightarrow>
          let (reply, B) = ln_Version clock B req; L = L\<lparr>ln_hosts := (ln_hosts L)(b \<mapsto> B)\<rparr>
          in (case reply of
                None \<Rightarrow> (Inr (), L)
              | Some ver \<Rightarrow>
                  let (answer, L) = coin_version_call clock L (pv_AddrMe req) ver
                  in (case answer of Inl _ \<Rightarrow> (Inl HandlerError, L) | Inr _ \<Rightarrow> (Inr (), L))))"

definition connect_lightning :: "int \<times> int \<times> int \<Rightarrow> lightning_net \<Rightarrow> string \<Rightarrow> string \<Rightarrow> lightning_net" where
  "connect_lightning clock L a b =
     (case ln_hosts L a of
        None \<Rightarrow> L
      | Some A \<Rightarrow> (snd (lightning_version_call clock L b (ln_ConnectToPeer A b)))\<lparr>ln_connected := insert (a, b) (ln_connected L)\<rparr>)"

text \<open>A step: a connection, the opening of a channel to a peer, an update of one, or a block that is counted.\<close>

inductive lightning_step :: "('db, 'z) ext_scheme \<Rightarrow> lightning_net \<Rightarrow> lightning_net \<Rightarrow> bool" for E where
  connects: "lightning_step E L (connect_lightning clock L a b)"
| opens: "ln_hosts L a = Some A \<Longrightarrow> ln_hosts L b = Some B \<Longrightarrow> a \<noteq> b \<Longrightarrow> pdb_Get (PeerDb (ln_net A)) b = Some p \<Longrightarrow>
    open_round E rA rB wallet A p B pk amount fee = Some (A', B') \<Longrightarrow>
    lightning_step E L (L\<lparr>ln_hosts := (ln_hosts L)(a \<mapsto> A', b \<mapsto> B')\<rparr>)"
| updates: "ln_hosts L a = Some A \<Longrightarrow> ln_hosts L b = Some B \<Longrightarrow> a \<noteq> b \<Longrightarrow> pdb_Get (PeerDb (ln_net A)) b = Some p \<Longrightarrow>
    update_round E rnds A p B tx = Some (A', B') \<Longrightarrow>
    lightning_step E L (L\<lparr>ln_hosts := (ln_hosts L)(a \<mapsto> A', b \<mapsto> B')\<rparr>)"
| counts: "ln_hosts L a = Some A \<Longrightarrow> lightning_step E L (L\<lparr>ln_hosts := (ln_hosts L)(a \<mapsto> IncrementBlockHeight A)\<rparr>)"

inductive_cases lightning_stepE: "lightning_step E L L'"

section \<open>Effects of the calls\<close>

text \<open>A version message adds at most its sender, with a fresh identity.\<close>

lemma accept_version_new_peer:
  assumes ok: "net_ok net" and acc: "accept_version timeout clock net req = (reply, net')"
    and "pdb_Get (PeerDb net') k = Some p" and "pdb_Get (PeerDb net) k \<noteq> Some p"
  shows "k = pv_AddrMe req \<and> p_ident p = next_peer net"
proof -
  obtain now1 now2 now3 where clock: "clock = (now1, now2, now3)" by (metis prod_cases3)
  show ?thesis
  proof (cases "known_address net (pv_AddrMe req) (word_of_int now1)")
    case None
    then show ?thesis using assms clock by (auto simp: accept_version_def)
  next
    case (Some net1)
    have same: "PeerDb net1 = PeerDb net" "next_peer net1 = next_peer net"
      using Some by (auto simp: known_address_def alloc_def Let_def split: if_splits sum.splits prod.splits)
    obtain a where a: "adb_Get (AddressDB net1) (pv_AddrMe req) = Some a" "a_Addr (addr_store net1 ! a) = pv_AddrMe req"
      using known_address_ok [OF ok Some] by (auto simp: net_ok_def adb_Get_def)
    then show ?thesis
      using assms(2-4) clock Some same
      by (auto simp: accept_version_def pdb_Add_def pdb_Get_def peer_New_def update_conv' Let_def split: if_splits)
  qed
qed

lemma ln_Version_parts:
  assumes "ln_Version clock B req = (reply, B')"
  shows "B' = B \<or> (\<exists>r net. accept_version (lc_VersionTimeout (ln_Config B)) clock (ln_net B) req = (r, net) \<and> B' = B\<lparr>ln_net := net\<rparr>)"
  using assms by (auto simp: ln_Version_def Let_def split: if_splits prod.splits)

text \<open>A channel is opened only when the other node knows the caller as its peer, and then on both sides.\<close>

lemma OpenChannel_parts:
  assumes "OpenChannel E (r1, r2, r3) B req = Some (resp, B')"
  shows "B' = B \<and> (\<forall>r. resp \<noteq> Inr (Some r)) \<or>
    (\<exists>q c. pdb_Get (PeerDb (ln_net B)) (pocq_Address req) = Some q \<and> B' = B\<lparr>Channels := AList.update (p_ident q) c (Channels B)\<rparr>)"
proof (cases "pdb_Get (PeerDb (ln_net B)) (pocq_Address req)")
  case None
  then show ?thesis using assms by (auto simp: OpenChannel_def)
next
  case (Some q)
  show ?thesis
  proof (cases "map_of (Channels B) (p_ident q)")
    case None
    with assms Some obtain fund refund where "ValidateAndSign E r1 B (DecodeTransaction (pocq_FundingTransaction req)) = Some fund"
      "ValidateAndSign E r2 B (DecodeTransaction (pocq_RefundTransaction req)) = Some refund"
      by (auto simp: OpenChannel_def bind_eq_Some_conv)
    with assms Some None show ?thesis
      by (cases fund; cases refund) (auto simp: OpenChannel_def bind_eq_Some_conv Let_def)
  next
    case (Some c)
    with assms \<open>pdb_Get (PeerDb (ln_net B)) (pocq_Address req) = Some q\<close> show ?thesis by (auto simp: OpenChannel_def)
  qed
qed

lemma open_round_parts:
  assumes "open_round E rA rB wallet A p B pk amount fee = Some (A', B')"
  shows "ln_Address A' = ln_Address A \<and> ln_net A' = ln_net A" and "ln_Address B' = ln_Address B \<and> ln_net B' = ln_net B"
    and "map_of (Channels A') i \<noteq> None \<Longrightarrow> map_of (Channels A) i \<noteq> None \<or> i = p_ident p \<and> pdb_Get (PeerDb (ln_net B)) (ln_Address A) \<noteq> None"
    and "map_of (Channels B') i \<noteq> None \<Longrightarrow>
      map_of (Channels B) i \<noteq> None \<or> (\<exists>q. pdb_Get (PeerDb (ln_net B)) (ln_Address A) = Some q \<and> i = p_ident q)"
proof -
  from assms obtain req k resp txs where req: "CreateChannel_request E (fst rA) (snd rA) wallet A pk amount fee = Some (req, k)"
    and opened: "OpenChannel E rB B req = Some (resp, B')"
    and created: "CreateChannel E (fst rA) (snd rA) wallet (\<lambda>_. case resp of Inr r \<Rightarrow> r | Inl _ \<Rightarrow> None) A p pk amount fee = Some (A', txs)"
    by (auto simp: open_round_def bind_eq_Some_conv)
  have addr: "pocq_Address req = ln_Address A"
    using req by (auto simp: CreateChannel_request_def bind_eq_Some_conv Let_def)
  have A: "A' = A \<or> (\<exists>r c. resp = Inr (Some r) \<and> A' = A\<lparr>Channels := AList.update (p_ident p) c (Channels A)\<rparr>)"
    using created by (cases resp) (auto simp: CreateChannel_def bind_eq_Some_conv Let_def split: option.splits)
  have B: "B' = B \<and> (\<forall>r. resp \<noteq> Inr (Some r)) \<or>
      (\<exists>q c. pdb_Get (PeerDb (ln_net B)) (ln_Address A) = Some q \<and> B' = B\<lparr>Channels := AList.update (p_ident q) c (Channels B)\<rparr>)"
    using OpenChannel_parts [of E "fst rB" "fst (snd rB)" "snd (snd rB)" B req resp B'] opened addr by simp
  show "ln_Address A' = ln_Address A \<and> ln_net A' = ln_net A" "ln_Address B' = ln_Address B \<and> ln_net B' = ln_net B"
    using A B by auto
  show "map_of (Channels A) i \<noteq> None \<or> i = p_ident p \<and> pdb_Get (PeerDb (ln_net B)) (ln_Address A) \<noteq> None" if "map_of (Channels A') i \<noteq> None"
    using A B that by (auto simp: update_conv' split: if_splits)
  show "map_of (Channels B) i \<noteq> None \<or> (\<exists>q. pdb_Get (PeerDb (ln_net B)) (ln_Address A) = Some q \<and> i = p_ident q)"
    if "map_of (Channels B') i \<noteq> None"
    using B that by (auto simp: update_conv' split: if_splits)
qed

text \<open>An update changes at most channels that exist.\<close>

definition keeps_channels :: "LightningNode \<Rightarrow> LightningNode \<Rightarrow> bool" where
  "keeps_channels ln ln' \<longleftrightarrow> ln_Address ln' = ln_Address ln \<and> ln_net ln' = ln_net ln \<and>
     (\<forall>i. map_of (Channels ln') i \<noteq> None \<longrightarrow> map_of (Channels ln) i \<noteq> None)"

lemma keeps_channels_refl [simp]: "keeps_channels ln ln"
  by (simp add: keeps_channels_def)

lemma keeps_channels_set [simp]: "get_channel ln p = Some c \<Longrightarrow> keeps_channels ln (set_channel ln p c')"
  by (auto simp: keeps_channels_def set_channel_def get_channel_def update_conv' split: if_splits)

lemma GetUpdatedTransactions_keeps: "GetUpdatedTransactions E r1 r2 B req = Some (resp, B') \<Longrightarrow> keeps_channels B B'"
  by (cases "pdb_Get (PeerDb (ln_net B)) (pta_Address req)") (auto simp: GetUpdatedTransactions_def bind_eq_Some_conv Let_def)

lemma GetRevocationKey_keeps:
  assumes "GetRevocationKey E B req = Some (resp, B')"
  shows "keeps_channels B B'"
proof (cases "pdb_Get (PeerDb (ln_net B)) (psk_Address req)")
  case None
  then show ?thesis using assms by (simp add: GetRevocationKey_def)
next
  case (Some p)
  with assms obtain c ptx pout where c: "get_channel B p = Some c" "psk_SignedTransaction req = Some ptx"
    "slice_get (pt_Outputs ptx) (if Funder c then 0 else 1) = Some pout"
    by (auto simp: GetRevocationKey_def bind_eq_Some_conv Let_def)
  obtain ty ok where "DetermineScriptType E (po_LockingScript pout) = (ty, ok)" by fastforce
  with assms Some c show ?thesis by (cases ok) (auto simp: GetRevocationKey_def bind_eq_Some_conv Let_def)
qed

lemma UpdateState_keeps:
  assumes "UpdateState E r f g A p tx = Some (A', req)"
  shows "keeps_channels A A'"
proof -
  from assms obtain c where c: "get_channel A p = Some c" by (auto simp: UpdateState_def bind_eq_Some_conv Let_def)
  with assms have "\<exists>c'. A' = set_channel A p c'" by (auto simp: UpdateState_def bind_eq_Some_conv Let_def split: option.splits)
  then show ?thesis using c by auto
qed

lemma update_round_parts:
  assumes "update_round E rnds A p B tx = Some (A', B')"
  shows "keeps_channels A A'" and "keeps_channels B B'"
proof -
  from assms obtain r1 r2 r3 resp B1 req resp' where "rnds = (r1, r2, r3)"
    "GetUpdatedTransactions E r1 r2 B (EncodeTransactionWithAddress tx (ln_Address A)) = Some (resp, B1)"
    "UpdateState E r3 (\<lambda>_. resp) (rpc_revocation_key E B1) A p tx = Some (A', req)" "GetRevocationKey E B1 req = Some (resp', B')"
    by (cases rnds) (auto simp: update_round_def bind_eq_Some_conv)
  then show "keeps_channels A A'" "keeps_channels B B'"
    using UpdateState_keeps GetUpdatedTransactions_keeps [of E r1 r2 B] GetRevocationKey_keeps [of E B1] by (blast, fastforce simp: keeps_channels_def)
qed

section \<open>Who can have a channel\<close>

text \<open>
  Peers have connected, peers have identities of their own, and a channel belongs to a peer that has connected and that was connected to.
\<close>

definition node_peering :: "(string \<times> string) set \<Rightarrow> LightningNode \<Rightarrow> bool" where
  "node_peering C A \<longleftrightarrow> net_ok (ln_net A) \<and>
     (\<forall>k p. pdb_Get (PeerDb (ln_net A)) k = Some p \<longrightarrow> (k, ln_Address A) \<in> C) \<and>
     (\<forall>k k' p p'. pdb_Get (PeerDb (ln_net A)) k = Some p \<longrightarrow> pdb_Get (PeerDb (ln_net A)) k' = Some p' \<longrightarrow> p_ident p = p_ident p' \<longrightarrow> k = k') \<and>
     (\<forall>i. map_of (Channels A) i \<noteq> None \<longrightarrow>
        (\<exists>k p. pdb_Get (PeerDb (ln_net A)) k = Some p \<and> p_ident p = i \<and> (ln_Address A, k) \<in> C))"

definition peering_ok :: "lightning_net \<Rightarrow> bool" where
  "peering_ok L \<longleftrightarrow> (\<forall>a A. ln_hosts L a = Some A \<longrightarrow> ln_Address A = a \<and> node_peering (ln_connected L) A)"

lemma node_peering_mono: "node_peering C A \<Longrightarrow> C \<subseteq> C' \<Longrightarrow> node_peering C' A"
  unfolding node_peering_def by blast

lemma node_peering_keeps: "node_peering C A \<Longrightarrow> keeps_channels A A' \<Longrightarrow> node_peering C A'"
  unfolding node_peering_def keeps_channels_def by metis

lemma node_peering_version:
  assumes "node_peering C B" and "ln_Version clock B req = (reply, B')" and "(pv_AddrMe req, ln_Address B) \<in> C"
  shows "node_peering C B' \<and> ln_Address B' = ln_Address B"
proof -
  consider "B' = B" | r net where "accept_version (lc_VersionTimeout (ln_Config B)) clock (ln_net B) req = (r, net)" "B' = B\<lparr>ln_net := net\<rparr>"
    using ln_Version_parts [OF assms(2)] by blast
  then show ?thesis
  proof cases
    case 1
    then show ?thesis using assms(1) by simp
  next
    case 2
    have ok: "net_ok (ln_net B)" using assms(1) by (simp add: node_peering_def)
    note kept = accept_version_ok [OF ok 2(1)] and fresh = accept_version_new_peer [OF ok 2(1)]
    have below: "p_ident p < next_peer (ln_net B)" if "pdb_Get (PeerDb (ln_net B)) k = Some p" for k p
      using ok that by (auto simp: net_ok_def pdb_Get_def)
    have "(k, ln_Address B) \<in> C" if "pdb_Get (PeerDb net) k = Some p" for k p
      using fresh [OF that] assms(1,3) that by (auto simp: node_peering_def)
    moreover have "k = k'" if "pdb_Get (PeerDb net) k = Some p" "pdb_Get (PeerDb net) k' = Some p'" "p_ident p = p_ident p'" for k k' p p'
    proof -
      have "k = k'" if "pdb_Get (PeerDb (ln_net B)) k = Some p" "pdb_Get (PeerDb (ln_net B)) k' = Some p'"
        using assms(1) that \<open>p_ident p = p_ident p'\<close> unfolding node_peering_def by blast
      then show ?thesis using fresh [OF that(1)] fresh [OF that(2)] below [of k p] below [of k' p'] that(3) by fastforce
    qed
    moreover have "\<exists>k p. pdb_Get (PeerDb net) k = Some p \<and> p_ident p = i \<and> (ln_Address B, k) \<in> C" if "map_of (Channels B) i \<noteq> None" for i
      using assms(1) that kept unfolding node_peering_def by metis
    ultimately show ?thesis using kept 2(2) by (auto simp: node_peering_def)
  qed
qed

lemma node_peering_opened:
  assumes A: "node_peering C A" and B: "node_peering C B" and p: "pdb_Get (PeerDb (ln_net A)) (ln_Address B) = Some p"
    and round: "open_round E rA rB wallet A p B pk amount fee = Some (A', B')"
  shows "node_peering C A'" and "node_peering C B'"
proof -
  note parts = open_round_parts [OF round]
  have AB: "(ln_Address A, ln_Address B) \<in> C" if "pdb_Get (PeerDb (ln_net B)) (ln_Address A) = Some q" for q
    using B that by (simp add: node_peering_def)
  have BA: "(ln_Address B, ln_Address A) \<in> C" using A p by (simp add: node_peering_def)
  have "\<exists>k p. pdb_Get (PeerDb (ln_net A)) k = Some p \<and> p_ident p = i \<and> (ln_Address A, k) \<in> C" if "map_of (Channels A') i \<noteq> None" for i
    using parts(3) [OF that] A p AB by (auto simp: node_peering_def)
  then show "node_peering C A'" using A parts(1) by (simp add: node_peering_def)
  have "\<exists>k p. pdb_Get (PeerDb (ln_net B)) k = Some p \<and> p_ident p = i \<and> (ln_Address B, k) \<in> C" if "map_of (Channels B') i \<noteq> None" for i
    using parts(4) [OF that] B BA by (auto simp: node_peering_def)
  then show "node_peering C B'" using B parts(2) by (simp add: node_peering_def)
qed

lemma peering_ok_update:
  assumes "peering_ok L" and "node_peering (ln_connected L) A'" and "ln_Address A' = a"
  shows "peering_ok (L\<lparr>ln_hosts := (ln_hosts L)(a \<mapsto> A')\<rparr>)"
  using assms by (simp add: peering_ok_def)

lemma connect_lightning_ok:
  assumes "peering_ok L"
  shows "peering_ok (connect_lightning clock L a b)"
proof (cases "ln_hosts L a")
  case None
  then show ?thesis using assms by (simp add: connect_lightning_def)
next
  case (Some A)
  let ?req = "ln_ConnectToPeer A b" and ?C = "insert (a, b) (ln_connected L)"
  have grown: "peering_ok (L\<lparr>ln_connected := ?C\<rparr>)"
    using assms node_peering_mono [of "ln_connected L" _ ?C] by (auto simp: peering_ok_def)
  show ?thesis
  proof (cases "ln_hosts L b")
    case None
    then show ?thesis using Some grown by (simp add: connect_lightning_def lightning_version_call_def)
  next
    case B: (Some B)
    obtain reply B' where v: "ln_Version clock B ?req = (reply, B')" by fastforce
    have "pv_AddrMe ?req = a" "ln_Address B = b" "node_peering ?C B"
      using Some B assms grown by (auto simp: peering_ok_def ln_ConnectToPeer_def)
    then have "node_peering ?C B' \<and> ln_Address B' = b" using node_peering_version [OF _ v] by simp
    then have "peering_ok (L\<lparr>ln_connected := ?C, ln_hosts := (ln_hosts L)(b \<mapsto> B')\<rparr>)"
      using peering_ok_update [OF grown, of B' b] by simp
    moreover have "connect_lightning clock L a b = L\<lparr>ln_connected := ?C, ln_hosts := (ln_hosts L)(b \<mapsto> B')\<rparr>"
      using Some B v by (simp add: connect_lightning_def lightning_version_call_def coin_version_call_def ln_services_def Let_def split: option.split)
    ultimately show ?thesis by simp
  qed
qed

lemma peering_ok_step:
  assumes ok: "peering_ok L" and "lightning_step E L L'"
  shows "peering_ok L'"
proof -
  have at: "ln_Address A = a" "node_peering (ln_connected L) A" if "ln_hosts L a = Some A" for a A
    using ok that by (simp_all add: peering_ok_def)
  have two: "peering_ok (L\<lparr>ln_hosts := (ln_hosts L)(a \<mapsto> A', b \<mapsto> B')\<rparr>)"
    if "node_peering (ln_connected L) A'" "node_peering (ln_connected L) B'" "ln_Address A' = a" "ln_Address B' = b" for a b A' B'
    using ok that by (simp add: peering_ok_def)
  show ?thesis
    using assms(2)
  proof cases
    case (connects clock a b)
    then show ?thesis using connect_lightning_ok [OF ok] by simp
  next
    case (opens a A b B p rA rB wallet pk amount fee A' B')
    have "pdb_Get (PeerDb (ln_net A)) (ln_Address B) = Some p" using opens at by simp
    from node_peering_opened [OF at(2) [OF opens(2)] at(2) [OF opens(3)] this opens(6)] show ?thesis
      unfolding opens(1) using at opens open_round_parts(1,2) [OF opens(6)] by (intro two) simp_all
  next
    case (updates a A b B p rnds tx A' B')
    note keep = update_round_parts [OF updates(6)]
    show ?thesis
      unfolding updates(1) using keep at updates
      by (intro two node_peering_keeps [OF _ keep(1)] node_peering_keeps [OF _ keep(2)]) (simp_all add: keeps_channels_def)
  next
    case (counts a A)
    have "node_peering (ln_connected L) (IncrementBlockHeight A)"
      by (rule node_peering_keeps [OF at(2) [OF counts(2)]]) (simp add: keeps_channels_def IncrementBlockHeight_def)
    then show ?thesis unfolding counts(1) using peering_ok_update [OF ok] at(1) [OF counts(2)] by (simp add: IncrementBlockHeight_def)
  qed
qed

text \<open>Lightning nodes that were just started.\<close>

definition fresh_lightning :: "lightning_net \<Rightarrow> bool" where
  "fresh_lightning L \<longleftrightarrow> ln_connected L = {} \<and>
     (\<forall>a A. ln_hosts L a = Some A \<longrightarrow> ln_Address A = a \<and> Channels A = [] \<and> net_ok (ln_net A) \<and> peers (PeerDb (ln_net A)) = [])"

interpretation peering: state_machine fresh_lightning "lightning_step E" peering_ok
  for E :: "('db, 'z) ext_scheme"
  by unfold_locales (simp add: fresh_lightning_def peering_ok_def node_peering_def pdb_Get_def, rule peering_ok_step)

text \<open>
  C16: Lightning nodes have a channel only when each of them has called \<open>ConnectToPeer\<close> for the other: the answer to a version message is
  a call of the coin service, which no lightning node registers, so the node that connects does not learn its peer, and without it
  neither can open a channel.
\<close>

theorem channel_needs_both_connects:
  assumes "fresh_lightning L" and "(lightning_step E)\<^sup>*\<^sup>* L L'" and "ln_hosts L' a = Some A"
    and "pdb_Get (PeerDb (ln_net A)) b = Some p"
  shows "(b, a) \<in> ln_connected L' \<and> (get_channel A p \<noteq> None \<longrightarrow> (a, b) \<in> ln_connected L')"
proof -
  have ok: "ln_Address A = a" "node_peering (ln_connected L') A"
    using peering.invariant [OF assms(1,2)] assms(3) by (simp_all add: peering_ok_def)
  have "(a, b) \<in> ln_connected L'" if ch: "get_channel A p \<noteq> None"
  proof -
    obtain k q where k: "pdb_Get (PeerDb (ln_net A)) k = Some q" "p_ident q = p_ident p" "(a, k) \<in> ln_connected L'"
      using ok ch unfolding node_peering_def get_channel_def by blast
    then have "k = b" using ok(2) assms(4) unfolding node_peering_def by blast
    with k(3) show ?thesis by simp
  qed
  then show ?thesis using ok assms(4) by (auto simp: node_peering_def)
qed

section \<open>Opening a channel after both have connected\<close>

lemma connect_lightning_stranger:
  assumes "ln_hosts L a = Some A" and "ln_hosts L b = Some B" and "a \<noteq> b" and "ln_Address A = a" and "stranger (ln_net B) a"
    and "lc_Version (ln_Config A) = lc_Version (ln_Config B)"
  obtains net where "ln_hosts (connect_lightning clock L a b) = (ln_hosts L)(b \<mapsto> B\<lparr>ln_net := net\<rparr>)" and "acquainted net a"
    and "ln_connected (connect_lightning clock L a b) = insert (a, b) (ln_connected L)"
proof -
  let ?req = "ln_ConnectToPeer A b"
  obtain reply net where acc: "accept_version (lc_VersionTimeout (ln_Config B)) clock (ln_net B) ?req = (reply, net)" by fastforce
  have "pv_AddrMe ?req = a" using assms(4) by (simp add: ln_ConnectToPeer_def)
  then have known: "acquainted net a" using accept_version_stranger [OF _ acc] assms(5) by simp
  have "\<exists>r. ln_Version clock B ?req = (r, B\<lparr>ln_net := net\<rparr>)"
    using acc assms(6) by (auto simp: ln_Version_def ln_ConnectToPeer_def)
  then have "ln_hosts (connect_lightning clock L a b) = (ln_hosts L)(b \<mapsto> B\<lparr>ln_net := net\<rparr>)"
    and "ln_connected (connect_lightning clock L a b) = insert (a, b) (ln_connected L)"
    using assms(1,2) by (auto simp: connect_lightning_def lightning_version_call_def coin_version_call_def ln_services_def Let_def split: option.split)
  then show ?thesis using known by (intro that)
qed

text \<open>What a node needs for a channel besides its peer: a key that signs.\<close>

definition can_sign :: "('db, 'z) ext_scheme \<Rightarrow> LightningNode \<Rightarrow> bool" where
  "can_sign E A \<longleftrightarrow> (\<exists>sk. id_PrivateKey (ln_Id A) = Some sk \<and> (\<forall>r h. utils_Sign E r sk h \<noteq> None))"

lemma both_connects_open:
  fixes rA :: "nat \<times> nat" and rB :: "nat \<times> nat \<times> nat" and fund :: Transaction and wallet :: wallet_reply
  assumes hosts: "ln_hosts L a = Some A" "ln_hosts L b = Some B" "a \<noteq> b" "ln_Address A = a" "ln_Address B = b"
    and strangers: "stranger (ln_net A) b" "stranger (ln_net B) a" and version: "lc_Version (ln_Config A) = lc_Version (ln_Config B)"
    and sign: "can_sign E A" "can_sign E B" and none: "Channels B = []"
    and keys: "GenerateRevocationKey E (fst rA) \<noteq> None" "GenerateRevocationKey E (snd (snd rB)) \<noteq> None"
    and fund: "3 \<le> length (Outputs fund)" "wallet \<lparr>wr_Amount = amount, wr_Fee = fee, wr_CounterPartyPubKey = pk\<rparr> = Some (Some fund)"
  shows "\<exists>L' A' B' p q cA cB. (lightning_step E)\<^sup>*\<^sup>* L L' \<and> ln_hosts L' a = Some A' \<and> ln_hosts L' b = Some B' \<and>
    linked_nodes A' p cA B' q cB \<and> mirrored cA cB \<and> ch_State cA = 0"
proof -
  define L1 where "L1 = connect_lightning (0, 0, 0) L a b"
  define L2 where "L2 = connect_lightning (0, 0, 0) L1 b a"
  obtain nb where b: "ln_hosts L1 = (ln_hosts L)(b \<mapsto> B\<lparr>ln_net := nb\<rparr>)" "acquainted nb a"
    using connect_lightning_stranger [OF hosts(1,2,3,4) strangers(2) version, of "(0, 0, 0)"] unfolding L1_def by blast
  obtain na where a: "ln_hosts L2 = (ln_hosts L1)(a \<mapsto> A\<lparr>ln_net := na\<rparr>)" "acquainted na b"
    using connect_lightning_stranger [of L1 b "B\<lparr>ln_net := nb\<rparr>" a A "(0, 0, 0)"] hosts strangers(1) version b(1) unfolding L2_def by force
  obtain p q where pq: "pdb_Get (PeerDb na) b = Some p" "pdb_Get (PeerDb nb) a = Some q" using a(2) b(2) by (auto simp: acquainted_def)
  let ?A = "A\<lparr>ln_net := na\<rparr>" and ?B = "B\<lparr>ln_net := nb\<rparr>"
  have "can_open E rA rB ?A p ?B q fund"
    using pq hosts sign keys fund(1) none by (auto simp: can_open_def can_sign_def get_channel_def)
  from open_round_mirrored [where wallet = wallet, OF this fund(2)] obtain A' B' cA cB where
    round: "open_round E rA rB wallet ?A p ?B pk amount fee = Some (A', B')" "linked_nodes A' p cA B' q cB" "mirrored cA cB" "ch_State cA = 0"
    by blast
  let ?L = "L2\<lparr>ln_hosts := (ln_hosts L2)(a \<mapsto> A', b \<mapsto> B')\<rparr>"
  have "lightning_step E L2 ?L"
    by (rule lightning_step.opens [where A = ?A and B = ?B, OF _ _ _ _ round(1)]) (use a(1) b(1) hosts(3) pq in simp_all)
  moreover have "lightning_step E L L1" "lightning_step E L1 L2" unfolding L1_def L2_def by (rule lightning_step.connects)+
  ultimately have "(lightning_step E)\<^sup>*\<^sup>* L ?L" by (meson converse_rtranclp_into_rtranclp rtranclp.rtrancl_refl)
  then show ?thesis using round(2-4) hosts(3) by (intro exI [of _ ?L] exI [of _ A'] exI [of _ B'] exI) auto
qed

end
