(* ===== verification/Flooding.thy ===== *)
theory Flooding
  imports Main
begin

text \<open>
  The contract of a flooded message, and what follows from it. Processes exchange messages in any order. A process that handles the
  flooded message for the first time passes it to its targets; when it comes again, nothing more is sent. Messages on the side, such as
  goroutines inside a process, send nothing.
\<close>

locale flooding =
  fixes react :: "'c \<Rightarrow> 'n \<Rightarrow> 'e \<Rightarrow> ('n \<times> 'e list) option" and dest :: "'e \<Rightarrow> 'a"
    and flooded :: "'e \<Rightarrow> bool" and aside :: "'n \<Rightarrow> 'e \<Rightarrow> bool"
    and fresh :: "'n \<Rightarrow> bool" and done' :: "'n \<Rightarrow> bool" and targets :: "'n \<Rightarrow> 'a list" and width :: "'n \<Rightarrow> nat"
  assumes exclusive: "fresh n \<Longrightarrow> done' n \<Longrightarrow> False"
    and first: "fresh n \<Longrightarrow> flooded e \<Longrightarrow> \<exists>n' out. react c n e = Some (n', out) \<and> done' n' \<and> targets n' = targets n \<and> aside n' = aside n \<and>
      length out \<le> width n \<and> dest ` {m \<in> set out. flooded m} = set (targets n) \<and>
      (\<forall>m \<in> set out. flooded m \<or> aside n m \<and> dest m = dest e)"
    and again: "done' n \<Longrightarrow> flooded e \<Longrightarrow> \<exists>n'. react c n e = Some (n', []) \<and> done' n' \<and> targets n' = targets n \<and> aside n' = aside n"
    and besides: "fresh n \<or> done' n \<Longrightarrow> aside n e \<Longrightarrow> \<exists>n'. react c n e = Some (n', []) \<and> fresh n' = fresh n \<and> done' n' = done' n \<and>
      targets n' = targets n \<and> aside n' = aside n \<and> width n' = width n"
begin

definition flood_step :: "('a \<Rightarrow> 'n option) \<times> 'e list \<Rightarrow> ('a \<Rightarrow> 'n option) \<times> 'e list \<Rightarrow> bool" where
  "flood_step s s' \<longleftrightarrow> (\<exists>xs e ys n c n' out. snd s = xs @ e # ys \<and> fst s (dest e) = Some n \<and> react c n e = Some (n', out) \<and>
     s' = ((fst s)(dest e \<mapsto> n'), xs @ ys @ out))"

text \<open>
  The processes \<open>H\<close> with their targets \<open>G\<close>, the messages on the side \<open>A\<close> they handle and the widths \<open>W\<close>; the
  sources \<open>S\<close>. Every target of a process that has handled the message has handled it or will receive it.
\<close>

definition reached :: "('a \<Rightarrow> 'n option) \<times> 'e list \<Rightarrow> 'a \<Rightarrow> bool" where
  "reached s k \<longleftrightarrow> (\<exists>n. fst s k = Some n \<and> done' n) \<or> (\<exists>e \<in> set (snd s). flooded e \<and> dest e = k)"

definition flood_inv :: "'a set \<Rightarrow> ('a \<Rightarrow> 'a list) \<Rightarrow> ('a \<Rightarrow> 'e \<Rightarrow> bool) \<Rightarrow> ('a \<Rightarrow> nat) \<Rightarrow> 'a set \<Rightarrow> ('a \<Rightarrow> 'n option) \<times> 'e list \<Rightarrow> bool" where
  "flood_inv H G A W S s \<longleftrightarrow>
     (\<forall>k \<in> H. set (G k) \<subseteq> H \<and> (\<exists>n. fst s k = Some n \<and> targets n = G k \<and> aside n = A k \<and> (fresh n \<and> width n \<le> W k \<or> done' n))) \<and>
     (\<forall>e \<in> set (snd s). dest e \<in> H \<and> (flooded e \<or> A (dest e) e)) \<and>
     (\<forall>k \<in> S. reached s k) \<and>
     (\<forall>k \<in> H. \<forall>n. fst s k = Some n \<longrightarrow> done' n \<longrightarrow> (\<forall>t \<in> set (G k). reached s t))"

definition to_do :: "'a set \<Rightarrow> ('a \<Rightarrow> nat) \<Rightarrow> ('a \<Rightarrow> 'n option) \<times> 'e list \<Rightarrow> nat" where
  "to_do H W s = length (snd s) + sum W {k \<in> H. \<exists>n. fst s k = Some n \<and> fresh n}"

lemma flood_stepI:
  "snd s = xs @ e # ys \<Longrightarrow> fst s (dest e) = Some n \<Longrightarrow> react c n e = Some (n', out) \<Longrightarrow>
   flood_step s ((fst s)(dest e \<mapsto> n'), xs @ ys @ out)"
  unfolding flood_step_def by blast

lemma flood_inv_process: "flood_inv H G A W S s \<Longrightarrow> k \<in> H \<Longrightarrow> fst s k = Some n \<Longrightarrow> fresh n \<or> done' n"
  unfolding flood_inv_def by (drule conjunct1, drule (1) bspec) auto

lemma flood_inv_message: "flood_inv H G A W S s \<Longrightarrow> e \<in> set (snd s) \<Longrightarrow> dest e \<in> H \<and> (flooded e \<or> A (dest e) e)"
  by (simp add: flood_inv_def)

text \<open>One step: the three cases of the contract, in one form.\<close>

lemma react_cases:
  assumes "fresh n \<or> done' n" and "flooded e \<or> aside n e"
  obtains n' out where "react c n e = Some (n', out)" and "targets n' = targets n" and "aside n' = aside n"
    and "\<forall>m \<in> set out. flooded m \<and> dest m \<in> set (targets n) \<or> aside n m \<and> dest m = dest e"
    and "done' n \<Longrightarrow> done' n'" and "flooded e \<Longrightarrow> done' n'"
    and "done' n' \<Longrightarrow> \<not> done' n \<Longrightarrow> set (targets n) \<subseteq> dest ` {m \<in> set out. flooded m}"
    and "fresh n' \<and> fresh n \<and> width n' = width n \<and> out = [] \<or> done' n' \<and> length out \<le> (if fresh n then width n else 0)"
proof (cases "flooded e")
  case True
  show ?thesis
  proof (cases "fresh n")
    case fr: True
    then obtain n' out where r: "react c n e = Some (n', out)" "done' n'" "targets n' = targets n" "aside n' = aside n" "length out \<le> width n"
      "dest ` {m \<in> set out. flooded m} = set (targets n)" "\<forall>m \<in> set out. flooded m \<or> aside n m \<and> dest m = dest e"
      using first [OF _ True] by blast
    have "\<forall>m \<in> set out. flooded m \<and> dest m \<in> set (targets n) \<or> aside n m \<and> dest m = dest e"
      unfolding r(6) [symmetric] using r(7) by blast
    then show ?thesis by (rule that [OF r(1,3,4)]) (use r fr in simp_all)
  next
    case False
    then obtain n' where r: "react c n e = Some (n', [])" "done' n'" "targets n' = targets n" "aside n' = aside n"
      using assms(1) again [OF _ True] by blast
    show ?thesis by (rule that [OF r(1,3,4)]) (use r False assms(1) in simp_all)
  qed
next
  case False
  then obtain n' where r: "react c n e = Some (n', [])" "fresh n' = fresh n" "done' n' = done' n" "targets n' = targets n" "aside n' = aside n"
    "width n' = width n"
    using besides [OF assms(1)] assms(2) by blast
  show ?thesis by (rule that [OF r(1,4,5)]) (use r assms(1) False in auto)
qed

text \<open>A step, with what the contract says of it.\<close>

lemma flood_step_cases:
  assumes inv: "flood_inv H G A W S s" and "flood_step s s'"
  obtains xs e ys n n' out where "snd s = xs @ e # ys" and "dest e \<in> H" and "fst s (dest e) = Some n" and "targets n = G (dest e)" and "aside n = A (dest e)"
    and "s' = ((fst s)(dest e \<mapsto> n'), xs @ ys @ out)" and "targets n' = targets n" and "aside n' = aside n"
    and "fresh n \<and> width n \<le> W (dest e) \<or> done' n"
    and "\<forall>m \<in> set out. flooded m \<and> dest m \<in> set (targets n) \<or> aside n m \<and> dest m = dest e"
    and "done' n \<Longrightarrow> done' n'" and "flooded e \<Longrightarrow> done' n'"
    and "done' n' \<Longrightarrow> \<not> done' n \<Longrightarrow> set (targets n) \<subseteq> dest ` {m \<in> set out. flooded m}"
    and "fresh n' \<and> fresh n \<and> width n' = width n \<and> out = [] \<or> done' n' \<and> length out \<le> (if fresh n then width n else 0)"
proof -
  from assms(2) obtain xs e ys n c n' out where s: "snd s = xs @ e # ys" "fst s (dest e) = Some n" "react c n e = Some (n', out)"
    "s' = ((fst s)(dest e \<mapsto> n'), xs @ ys @ out)"
    unfolding flood_step_def by blast
  have e: "dest e \<in> H" "flooded e \<or> A (dest e) e" using inv s(1) by (auto simp: flood_inv_def)
  then have n: "targets n = G (dest e)" "aside n = A (dest e)" "fresh n \<and> width n \<le> W (dest e) \<or> done' n"
    using inv s(2) by (auto simp: flood_inv_def)
  then show thesis
    by (rule_tac c = c and n = n and e = e in react_cases)
      (use s e n in \<open>auto intro!: that [of xs e ys n n' out]\<close>)
qed

lemma reached_step:
  assumes "flood_inv H G A W S s" and "flood_step s s'" and "reached s k"
  shows "reached s' k"
  using assms(1,2)
proof (cases rule: flood_step_cases)
  case (1 xs e ys n n' out)
  from assms(3) consider n0 where "fst s k = Some n0" "done' n0" | e' where "e' \<in> set (snd s)" "flooded e'" "dest e' = k"
    unfolding reached_def by blast
  then show ?thesis
    using 1 by cases (auto simp: reached_def)
qed

lemma flood_inv_step:
  assumes inv: "flood_inv H G A W S s" and step: "flood_step s s'"
  shows "flood_inv H G A W S s'"
  using inv step
proof (cases rule: flood_step_cases)
  case (1 xs e ys n n' out)
  note keep = reached_step [OF inv step]
  have targets: "reached s' t" if k: "k \<in> H" "fst s' k = Some m" "done' m" "t \<in> set (G k)" for k m t
  proof (cases "k = dest e \<and> \<not> done' n")
    case True
    then have "t \<in> dest ` {m \<in> set out. flooded m}" using 1 k by auto
    then show ?thesis using 1(6) by (auto simp: reached_def)
  next
    case False
    then obtain m0 where "fst s k = Some m0" "done' m0" using 1(3,6) k(2,3) by (cases "k = dest e") auto
    then show ?thesis using inv k(1,4) keep by (auto simp: flood_inv_def)
  qed
  have "set (G (dest e)) \<subseteq> H" using inv 1(2) by (simp add: flood_inv_def)
  then have out: "dest m \<in> H" "flooded m \<or> A (dest m) m" if "m \<in> set out" for m using 1(2,4,5,10) that by auto
  have sources: "\<forall>k \<in> S. reached s' k" using inv keep by (simp add: flood_inv_def)
  have messages: "\<forall>m \<in> set (snd s'). dest m \<in> H \<and> (flooded m \<or> A (dest m) m)"
    using inv out by (auto simp: 1(1,6) flood_inv_def)
  have "\<forall>k \<in> H. set (G k) \<subseteq> H \<and> (\<exists>m. fst s' k = Some m \<and> targets m = G k \<and> aside m = A k \<and> (fresh m \<and> width m \<le> W k \<or> done' m))"
    using inv 1(2,4-9,11,14) by (auto simp: flood_inv_def)
  with targets sources messages show ?thesis by (simp add: flood_inv_def)
qed

lemma to_do_step:
  assumes inv: "flood_inv H G A W S s" and step: "flood_step s s'" and "finite H"
  shows "to_do H W s' < to_do H W s"
  using inv step
proof (cases rule: flood_step_cases)
  case (1 xs e ys n n' out)
  let ?F = "\<lambda>s. {k \<in> H. \<exists>n. fst s k = Some n \<and> fresh n}"
  have fin: "finite (?F s)" "finite (?F s')" using assms(3) by auto
  show ?thesis
  proof (cases "done' n' \<and> fresh n")
    case True
    then have eq: "?F s = insert (dest e) (?F s')" and new: "dest e \<notin> ?F s'"
      using 1(2,3,6) exclusive by auto
    have "width n \<le> W (dest e)" "length out \<le> width n" using 1(9,14) True exclusive by auto
    then show ?thesis unfolding to_do_def eq using new fin(2) 1(1,6) by simp
  next
    case False
    then have "out = []" "?F s' \<subseteq> ?F s" using 1(3,6,14) exclusive by (auto split: if_splits)
    then show ?thesis using sum_mono2 [OF fin(1), of "?F s'" W] 1(1,6) by (simp add: to_do_def)
  qed
qed

lemma flood_progress:
  assumes inv: "flood_inv H G A W S s" and "snd s = xs @ e # ys"
  shows "\<exists>n n' out. fst s (dest e) = Some n \<and> react c n e = Some (n', out) \<and> flood_step s ((fst s)(dest e \<mapsto> n'), xs @ ys @ out)"
proof -
  have e: "dest e \<in> H" "flooded e \<or> A (dest e) e" using assms by (auto simp: flood_inv_def)
  then obtain n where n: "fst s (dest e) = Some n" "fresh n \<or> done' n" "flooded e \<or> aside n e"
    using inv by (auto simp: flood_inv_def)
  obtain n' out where "react c n e = Some (n', out)" by (rule react_cases [OF n(2,3), of c])
  then show ?thesis using flood_stepI [OF assms(2) n(1)] n(1) by blast
qed

text \<open>Every run is short, and when nothing is under way the message has reached every process that a source leads to.\<close>

lemma flood_bound:
  assumes "(flood_step ^^ m) s s'" and "flood_inv H G A W S s" and "finite H"
  shows "flood_inv H G A W S s' \<and> m + to_do H W s' \<le> to_do H W s"
  using assms(1)
proof (induction m arbitrary: s')
  case 0
  then show ?case using assms(2) by simp
next
  case (Suc m)
  then obtain t where t: "(flood_step ^^ m) s t" "flood_step t s'" by auto
  have IH: "flood_inv H G A W S t" "m + to_do H W t \<le> to_do H W s" using Suc.IH [OF t(1)] by simp_all
  show ?case using flood_inv_step [OF IH(1) t(2)] to_do_step [OF IH(1) t(2) assms(3)] IH(2) by simp
qed

lemma flood_complete:
  assumes inv: "flood_inv H G A W S s" and "snd s = []" and "S \<subseteq> H" and "k \<in> S" and "(\<lambda>a b. b \<in> set (G a))\<^sup>*\<^sup>* k t"
  shows "t \<in> H \<and> (\<exists>n. fst s t = Some n \<and> done' n)"
  using assms(5)
proof (induction rule: rtranclp_induct)
  case base
  then show ?case using inv assms(2-4) by (auto simp: flood_inv_def reached_def)
next
  case (step a b)
  then show ?case using inv assms(2) by (auto simp: flood_inv_def reached_def)
qed

end

end
