(* ===== verification/Active_Chain.thy ===== *)
theory Active_Chain
  imports Block_Chain
begin

text \<open>
  Correctness of the block chain of \<open>src/pkg/blockchain\<close>: the state stands for a list of
  blocks, \<open>HandleBlock\<close> extends the list and applies the block to the coins, and the readers
  \<open>GetBlocks\<close>, \<open>GetHashes\<close> and \<open>List\<close> return parts of it.
\<close>

section \<open>Reversal\<close>

lemma length_reverse_loop [simp]: "length (reverse_loop s i j) = length s"
  by (induction s i j rule: reverse_loop.induct) (subst reverse_loop.simps, simp)

lemma nth_reverse_loop:
  "j < length s \<Longrightarrow> k < length s \<Longrightarrow>
   reverse_loop s i j ! k = (if i \<le> k \<and> k \<le> j then s ! (i + j - k) else s ! k)"
proof (induction s i j rule: reverse_loop.induct)
  case (1 s i j)
  show ?case
  proof (cases "i < j")
    case True
    then have "reverse_loop s i j ! k = (if i + 1 \<le> k \<and> k \<le> j - 1
        then swap s i j ! (i + 1 + (j - 1) - k) else swap s i j ! k)"
      using 1 by (subst reverse_loop.simps) simp
    also have "\<dots> = (if i \<le> k \<and> k \<le> j then s ! (i + j - k) else s ! k)"
      using True 1(2,3) by (auto simp: swap_nth)
    finally show ?thesis .
  next
    case False
    then have "i + j - k = k" if "i \<le> k" "k \<le> j" using that by linarith
    with False show ?thesis by (subst reverse_loop.simps) simp
  qed
qed

lemma reverse_loop_rev: "reverse_loop s 0 (length s - 1) = rev s"
proof (cases "s = []")
  case True
  then show ?thesis by (subst reverse_loop.simps) simp
next
  case False
  then show ?thesis
    by (intro nth_equalityI) (auto simp: nth_reverse_loop rev_nth)
qed

lemma reverse_rev [simp]: "reverseBlocks bs = rev bs" "reverseHashes hs = rev hs"
  unfolding reverseBlocks_def reverseHashes_def reverse_loop_rev by (rule refl)+

section \<open>The invariant\<close>

definition no_inputs :: "Block \<Rightarrow> bool" where
  "no_inputs b \<longleftrightarrow> list_all (\<lambda>tx. Inputs tx = []) (Transactions b)"

text \<open>A block is stored at a height: its record and its bytes can be read.\<close>

definition stored ::
  "('db, 'z) ext_scheme \<Rightarrow> 'db BlockInfoDatabase \<Rightarrow> disk \<Rightarrow> nat \<Rightarrow> Block \<Rightarrow> bool" where
  "stored E db d n b \<longleftrightarrow>
     (let br = GetBlockRecord E db (Block_Hash E b) in
      br_Height br = word_of_nat n \<and> br_Header br = b_Header b \<and> ReadBlock E d (block_info br) = Some b \<and>
      (no_inputs b \<longrightarrow> br_UndoFile br = []))"

definition linked :: "('db, 'z) ext_scheme \<Rightarrow> Block list \<Rightarrow> bool" where
  "linked E chain \<longleftrightarrow>
     (\<forall>i. Suc i < length chain \<longrightarrow> h_PreviousHash (b_Header (chain ! Suc i)) = Block_Hash E (chain ! i))"

definition io_ok :: "('db, 'z) ext_scheme \<Rightarrow> 'db BlockChain \<Rightarrow> disk \<Rightarrow> bool" where
  "io_ok E bc d \<longleftrightarrow> leveldb_laws E \<and> proto_laws E \<and> cw_ok (bc_ChainWriter bc) d \<and> ascii_files (bc_ChainWriter bc)"

definition represents :: "('db, 'z) ext_scheme \<Rightarrow> 'db BlockChain \<Rightarrow> disk \<Rightarrow> Block list \<Rightarrow> bool" where
  "represents E bc d chain \<longleftrightarrow> io_ok E bc d \<and> chain \<noteq> [] \<and> length chain < 2 ^ 32 \<and>
     Length bc = word_of_nat (length chain) \<and> LastBlock bc = last chain \<and>
     LastHash bc = Block_Hash E (last chain) \<and>
     UnsafeHashes bc = map (Block_Hash E) (drop (length chain - 6) chain) \<and>
     linked E chain \<and> (\<forall>i < length chain. stored E (BlockInfoDB bc) d (Suc i) (chain ! i))"

lemma block_info_fold:
  "\<lparr>FileName = br_BlockFile br, StartOffset = br_BlockStartOffset br, EndOffset = br_BlockEndOffset br\<rparr> = block_info br"
  "\<lparr>FileName = br_UndoFile br, StartOffset = br_UndoStartOffset br, EndOffset = br_UndoEndOffset br\<rparr> = undo_info br"
  by (simp_all add: block_info_def undo_info_def)

lemma GetBlock_stored: "stored E (BlockInfoDB bc) d n b \<Longrightarrow> GetBlock E bc d (Block_Hash E b) = Some b"
  by (simp add: stored_def GetBlock_def Let_def block_info_fold)

section \<open>Undo blocks\<close>

definition undo_prefix :: "(CoinLocator \<rightharpoonup> TransactionOutput) \<Rightarrow> UndoBlock \<Rightarrow> CoinLocator set \<Rightarrow> bool" where
  "undo_prefix U ub D \<longleftrightarrow> wf_UndoBlock ub \<and> undo_loc ub ` {0..<length (TransactionInputHashes ub)} = D \<and>
     (\<forall>j < length (TransactionInputHashes ub). undo_loc ub j \<in> dom U \<longrightarrow> U (undo_loc ub j) = Some (undo_txo ub j))"

lemma undo_prefix_snoc:
  assumes "undo_prefix U ub D" and "locator h i \<in> dom U \<Longrightarrow> U (locator h i) = Some txo"
  shows "undo_prefix U \<lparr>TransactionInputHashes = TransactionInputHashes ub @ [h], OutputIndexes = OutputIndexes ub @ [i],
    Amounts = Amounts ub @ [Amount txo], LockingScripts = LockingScripts ub @ [LockingScript txo]\<rparr> (insert (locator h i) D)"
proof -
  let ?n = "length (TransactionInputHashes ub)"
  let ?ub = "\<lparr>TransactionInputHashes = TransactionInputHashes ub @ [h], OutputIndexes = OutputIndexes ub @ [i],
    Amounts = Amounts ub @ [Amount txo], LockingScripts = LockingScripts ub @ [LockingScript txo]\<rparr>"
  have wf: "wf_UndoBlock ub" using assms(1) by (simp add: undo_prefix_def)
  then have old: "undo_loc ?ub j = undo_loc ub j" "undo_txo ?ub j = undo_txo ub j" if "j < ?n" for j
    using that by (simp_all add: undo_loc_def undo_txo_def nth_append wf_UndoBlock_def)
  have new: "undo_loc ?ub ?n = locator h i" "undo_txo ?ub ?n = txo"
    using wf by (simp_all add: undo_loc_def undo_txo_def mk_txo_def nth_append wf_UndoBlock_def)
  have "undo_loc ?ub ` {0..<Suc ?n} = insert (locator h i) (undo_loc ub ` {0..<?n})"
    unfolding atLeast0_lessThan_Suc image_insert new(1) using old(1) by simp
  moreover have "U (undo_loc ?ub j) = Some (undo_txo ?ub j)" if "j < Suc ?n" "undo_loc ?ub j \<in> dom U" for j
  proof (cases "j < ?n")
    case True
    then show ?thesis using assms(1) old [OF True] that(2) by (simp add: undo_prefix_def)
  next
    case False
    then have j: "j = ?n" using that(1) by simp
    show ?thesis using assms(2) that(2) unfolding j new by blast
  qed
  ultimately show ?thesis using assms(1) by (simp add: undo_prefix_def wf_UndoBlock_def)
qed

lemma undo_inputs_ok:
  assumes wf: "coindb_wf E c" and "undo_prefix (utxo E c) ub D" and "list_all ascii (TransactionInputHashes ub)"
    and "list_all (\<lambda>txi. ascii (ReferenceTransactionHash txi)) txis"
  shows "\<exists>r. undo_inputs E c txis ub = Some r \<and>
    (\<forall>ub'. r = Some ub' \<longrightarrow> undo_prefix (utxo E c) ub' (D \<union> makeCoinLocator ` set txis) \<and>
       list_all ascii (TransactionInputHashes ub')) \<and>
    (makeCoinLocator ` set txis \<subseteq> dom (utxo E c) \<longrightarrow> r \<noteq> None)"
  using assms(2-)
proof (induction txis arbitrary: ub D)
  case (Cons txi txis)
  let ?cl = "locator (ReferenceTransactionHash txi) (OutputIndex txi)"
  obtain r where r: "GetCoin E c ?cl = Some r" "utxo E c ?cl = (case r of None \<Rightarrow> None | Some coin \<Rightarrow> unspent coin)"
    using GetCoin_utxo [OF wf] by blast
  show ?case
  proof (cases r)
    case None
    then show ?thesis using r by (simp add: locator_fold makeCoinLocator_locator domIff)
  next
    case (Some coin)
    let ?ub = "\<lparr>TransactionInputHashes = TransactionInputHashes ub @ [ReferenceTransactionHash txi],
      OutputIndexes = OutputIndexes ub @ [OutputIndex txi],
      Amounts = Amounts ub @ [Amount (c_TransactionOutput coin)],
      LockingScripts = LockingScripts ub @ [LockingScript (c_TransactionOutput coin)]\<rparr>"
    have ub: "undo_prefix (utxo E c) ?ub (insert ?cl D)"
      using r(2) Some by (intro undo_prefix_snoc [OF Cons.prems(1)]) (auto simp: unspent_def split: if_splits)
    have "list_all ascii (TransactionInputHashes ?ub)"
      "list_all (\<lambda>txi. ascii (ReferenceTransactionHash txi)) txis" using Cons.prems by simp_all
    from Cons.IH [OF ub this] obtain r' where "undo_inputs E c txis ?ub = Some r'"
      "\<forall>ub'. r' = Some ub' \<longrightarrow> undo_prefix (utxo E c) ub' (insert ?cl D \<union> makeCoinLocator ` set txis) \<and>
         list_all ascii (TransactionInputHashes ub')"
      "makeCoinLocator ` set txis \<subseteq> dom (utxo E c) \<longrightarrow> r' \<noteq> None" by blast
    then show ?thesis using r Some by (simp add: locator_fold makeCoinLocator_locator)
  qed
qed simp

lemma empty_undo_prefix: "undo_prefix U empty_UndoBlock {}"
  by (simp add: undo_prefix_def wf_UndoBlock_def empty_UndoBlock_def)

lemma undo_prefix_undo_for: "undo_prefix U ub D \<Longrightarrow> D \<subseteq> dom U \<Longrightarrow> undo_for ub U D"
  by (force simp: undo_prefix_def undo_for_def)

definition ascii_inputs :: "Transaction list \<Rightarrow> bool" where
  "ascii_inputs txs \<longleftrightarrow> list_all (\<lambda>tx. list_all (\<lambda>txi. ascii (ReferenceTransactionHash txi)) (Inputs tx)) txs"

lemma makeUndoBlock_ok:
  assumes wf: "coindb_wf E (CoinDB bc)" and asc: "ascii_inputs txs"
  shows "\<exists>ub. makeUndoBlock E bc txs = Some ub \<and> wf_UndoBlock ub \<and> list_all ascii (TransactionInputHashes ub) \<and>
    (inputs_of txs \<subseteq> dom (utxo E (CoinDB bc)) \<longrightarrow> undo_for ub (utxo E (CoinDB bc)) (inputs_of txs))"
proof -
  have eq: "makeCoinLocator ` set (concat (map Inputs txs)) = inputs_of txs"
    by (auto simp: inputs_of_def)
  have "list_all ascii (TransactionInputHashes empty_UndoBlock)" by (simp add: empty_UndoBlock_def)
  moreover have "list_all (\<lambda>txi. ascii (ReferenceTransactionHash txi)) (concat (map Inputs txs))"
    using asc by (auto simp: ascii_inputs_def list_all_iff)
  ultimately obtain r where r: "undo_inputs E (CoinDB bc) (concat (map Inputs txs)) empty_UndoBlock = Some r"
    "\<forall>ub'. r = Some ub' \<longrightarrow> undo_prefix (utxo E (CoinDB bc)) ub' (inputs_of txs) \<and> list_all ascii (TransactionInputHashes ub')"
    "inputs_of txs \<subseteq> dom (utxo E (CoinDB bc)) \<longrightarrow> r \<noteq> None"
    using undo_inputs_ok [OF wf empty_undo_prefix, of "concat (map Inputs txs)"] unfolding eq by auto
  show ?thesis
  proof (cases r)
    case None
    then show ?thesis using r by (simp add: makeUndoBlock_def wf_UndoBlock_def empty_UndoBlock_def)
  next
    case (Some ub)
    then have "undo_prefix (utxo E (CoinDB bc)) ub (inputs_of txs)" "list_all ascii (TransactionInputHashes ub)"
      using r(2) by auto
    moreover have "makeUndoBlock E bc txs = Some ub" using Some r(1) by (simp add: makeUndoBlock_def)
    moreover from calculation(1) have "wf_UndoBlock ub" by (simp add: undo_prefix_def)
    ultimately show ?thesis using undo_prefix_undo_for by blast
  qed
qed

lemma makeUndoBlock_no_inputs:
  assumes "no_inputs b" and "makeUndoBlock E bc (Transactions b) = Some ub"
  shows "Amounts ub = []"
proof -
  have "concat (map Inputs (Transactions b)) = []" using assms(1) by (auto simp: no_inputs_def list_all_iff)
  from assms(2) [unfolded makeUndoBlock_def this] show ?thesis by (auto simp: empty_UndoBlock_def)
qed

section \<open>Storing a block on disk\<close>

text \<open>The serialised block and its undo block fit into their files.\<close>

definition room_for :: "('db, 'z) ext_scheme \<Rightarrow> 'db BlockChain \<Rightarrow> Block \<Rightarrow> bool" where
  "room_for E bc b \<longleftrightarrow> (\<forall>ub p. makeUndoBlock E bc (Transactions b) = Some ub \<and> EncodeUndoBlock ub = Some p \<longrightarrow>
     cw_room (bc_ChainWriter bc) (fst (marshal_Block E (EncodeBlock b))) (fst (marshal_UndoBlock E p)))"

lemma ascii_inputs_block: "ascii_Block (EncodeBlock b) \<Longrightarrow> ascii_inputs (Transactions b)"
  by (auto simp: ascii_Block_def EncodeBlock_def ascii_inputs_def list_all_iff ascii_Transaction_def
      EncodeTransaction_def EncodeTransactionInput_def)

lemma ReadBlock_keeps:
  assumes "\<And>fi x. readFromDisk d fi = Some x \<Longrightarrow> readFromDisk d' fi = Some x" and "ReadBlock E d fi = Some b"
  shows "ReadBlock E d' fi = Some b"
  using assms(2) assms(1) [of fi] by (auto simp: ReadBlock_def split: option.splits)

lemma store_block_ok:
  assumes io: "io_ok E bc d" and wf: "coindb_wf E (CoinDB bc)" and asc: "ascii_Block (EncodeBlock b)"
    and room: "room_for E bc b"
    and n: "br_Height (GetBlockRecord E (BlockInfoDB bc) (h_PreviousHash (b_Header b))) = word_of_nat n"
  shows "\<exists>cw' db' d'. store_block E bc d b =
      Some (word_of_nat (Suc n), bc\<lparr>bc_ChainWriter := cw', BlockInfoDB := db'\<rparr>, d') \<and>
    io_ok E (bc\<lparr>bc_ChainWriter := cw', BlockInfoDB := db'\<rparr>) d' \<and> stored E db' d' (Suc n) b \<and>
    (\<forall>k b'. Block_Hash E b' \<noteq> Block_Hash E b \<longrightarrow> stored E (BlockInfoDB bc) d k b' \<longrightarrow> stored E db' d' k b')"
proof -
  have laws: "leveldb_laws E" "proto_laws E" and cw: "cw_ok (bc_ChainWriter bc) d" "ascii_files (bc_ChainWriter bc)"
    using io by (simp_all add: io_ok_def)
  obtain ub where ub: "makeUndoBlock E bc (Transactions b) = Some ub" "wf_UndoBlock ub"
    "list_all ascii (TransactionInputHashes ub)"
    using makeUndoBlock_ok [OF wf ascii_inputs_block [OF asc]] by blast
  have rm: "cw_room (bc_ChainWriter bc) (fst (marshal_Block E (EncodeBlock b))) (fst (marshal_UndoBlock E p))"
    if "EncodeUndoBlock ub = Some p" for p using room ub(1) that by (simp add: room_for_def)
  let ?h = "word_of_nat (Suc n) :: u32"
  obtain br cw' d' where st: "ChainWriter_StoreBlock E (bc_ChainWriter bc) d b ub ?h = Some (br, cw', d')"
    and cw': "cw_ok cw' d'" "ascii_files cw'"
    and br: "br_Height br = ?h" "br_Header br = b_Header b" "ReadBlock E d' (block_info br) = Some b"
      "Amounts ub = [] \<longrightarrow> br_UndoFile br = []" "ascii (br_BlockFile br)" "ascii (br_UndoFile br)"
    and keep: "\<And>fi x. readFromDisk d fi = Some x \<Longrightarrow> readFromDisk d' fi = Some x"
    using ChainWriter_StoreBlock_ok [OF laws(2) cw(1) ub(2) asc ub(3) rm, of ?h] cw(2) by blast
  have rk: "ReadBlock E d' fi = Some x" if "ReadBlock E d fi = Some x" for fi x
    using keep that by (rule ReadBlock_keeps)
  let ?db = "StoreBlockRecord E (BlockInfoDB bc) (Block_Hash E b) br"
  have "ascii_record br"
    using asc br by (simp add: ascii_record_def ascii_BlockRecord_def EncodeBlockRecord_def ascii_Block_def EncodeBlock_def)
  note get = GetBlockRecord_Store [OF laws this]
  have "stored E ?db d' (Suc n) b"
    using get br makeUndoBlock_no_inputs [OF _ ub(1)] by (simp add: stored_def)
  moreover have "stored E ?db d' k b'" if "Block_Hash E b' \<noteq> Block_Hash E b" "stored E (BlockInfoDB bc) d k b'" for k b'
    using that get rk by (simp add: stored_def Let_def)
  moreover have "store_block E bc d b = Some (?h, bc\<lparr>bc_ChainWriter := cw', BlockInfoDB := ?db\<rparr>, d')"
    using ub(1) st n by (simp add: store_block_def Let_def add.commute)
  moreover have "io_ok E (bc\<lparr>bc_ChainWriter := cw', BlockInfoDB := ?db\<rparr>) d'"
    using laws cw' by (simp add: io_ok_def)
  ultimately show ?thesis by blast
qed

section \<open>Handling blocks\<close>

lemma represents_io: "represents E bc d chain \<Longrightarrow> io_ok E bc d"
  by (simp add: represents_def)

lemma last_stored:
  assumes "represents E bc d chain"
  shows "stored E (BlockInfoDB bc) d (length chain) (last chain)"
proof -
  have ne: "chain \<noteq> []" and st: "\<And>i. i < length chain \<Longrightarrow> stored E (BlockInfoDB bc) d (Suc i) (chain ! i)"
    using assms by (auto simp: represents_def)
  then show ?thesis using st [of "length chain - 1"] by (simp add: last_conv_nth)
qed

lemma unsafe_window:
  "map f (drop (length (xs @ [x]) - 6) (xs @ [x])) =
   (if length (map f (drop (length xs - 6) xs)) \<ge> 6 then tl (map f (drop (length xs - 6) xs))
    else map f (drop (length xs - 6) xs)) @ [f x]"
proof (cases "length xs \<ge> 6")
  case True
  then have "length xs + 1 - 6 = Suc (length xs - 6)" by simp
  then show ?thesis using True by (simp add: tl_drop drop_Suc map_tl [symmetric])
next
  case False
  then show ?thesis by simp
qed

lemma linked_snoc:
  assumes "linked E chain" and "chain \<noteq> []" and "h_PreviousHash (b_Header b) = Block_Hash E (last chain)"
  shows "linked E (chain @ [b])"
  unfolding linked_def
proof (intro allI impI)
  fix i
  assume i: "Suc i < length (chain @ [b])"
  show "h_PreviousHash (b_Header ((chain @ [b]) ! Suc i)) = Block_Hash E ((chain @ [b]) ! i)"
  proof (cases "Suc i < length chain")
    case True
    then show ?thesis using assms(1) by (simp add: nth_append linked_def)
  next
    case False
    then have "i = length chain - 1" "Suc i = length chain" using i by auto
    then show ?thesis using assms(2,3) by (simp add: nth_append last_conv_nth)
  qed
qed

lemma represents_snoc:
  assumes rep: "represents E bc d chain" and prev: "h_PreviousHash (b_Header b) = Block_Hash E (last chain)"
    and len: "length chain + 1 < 2 ^ 32" and io: "io_ok E bc' d'"
    and hash: "Block_Hash E b \<notin> Block_Hash E ` set chain"
    and st: "stored E (BlockInfoDB bc') d' (length chain + 1) b"
    and keep: "\<And>k b'. Block_Hash E b' \<noteq> Block_Hash E b \<Longrightarrow> stored E (BlockInfoDB bc) d k b' \<Longrightarrow>
      stored E (BlockInfoDB bc') d' k b'"
    and fields: "Length bc' = Length bc + 1" "LastBlock bc' = b" "LastHash bc' = Block_Hash E b"
      "UnsafeHashes bc' = (if length (UnsafeHashes bc) \<ge> 6 then tl (UnsafeHashes bc) else UnsafeHashes bc) @ [Block_Hash E b]"
  shows "represents E bc' d' (chain @ [b])"
proof -
  have "stored E (BlockInfoDB bc') d' (Suc i) ((chain @ [b]) ! i)" if "i < length (chain @ [b])" for i
  proof (cases "i < length chain")
    case True
    then have "Block_Hash E (chain ! i) \<noteq> Block_Hash E b" using hash nth_mem [OF True] by (metis image_eqI)
    with True keep rep show ?thesis by (simp add: nth_append represents_def)
  next
    case False
    then have "i = length chain" using that by simp
    with st show ?thesis by simp
  qed
  moreover have "UnsafeHashes bc' = map (Block_Hash E) (drop (length (chain @ [b]) - 6) (chain @ [b]))"
    unfolding unsafe_window using rep fields(4) by (simp add: represents_def)
  moreover have "linked E (chain @ [b])" using rep prev by (intro linked_snoc) (auto simp: represents_def)
  ultimately show ?thesis using rep io len fields by (simp add: represents_def add.commute)
qed

lemma HandleBlock_append:
  assumes rep: "represents E bc d chain" and ok: "coindb_ok E (CoinDB bc)"
    and prev: "h_PreviousHash (b_Header b) = Block_Hash E (last chain)"
    and new: "new_block E (known_hashes (CoinDB bc)) (Transactions b)"
    and hash: "Block_Hash E b \<notin> Block_Hash E ` set chain"
    and inp: "inputs_of (Transactions b) \<subseteq> dom (utxo E (CoinDB bc))"
    and asc: "ascii_Block (EncodeBlock b)" and room: "room_for E bc b" and len: "length chain + 1 < 2 ^ 32"
  shows "\<exists>bc' d'. HandleBlock E bc d b = Some (bc', d') \<and> represents E bc' d' (chain @ [b]) \<and>
    coindb_ok E (CoinDB bc') \<and> utxo E (CoinDB bc') = apply_block E (utxo E (CoinDB bc)) (Transactions b) \<and>
    known_hashes (CoinDB bc') \<subseteq> known_hashes (CoinDB bc) \<union> Transaction_Hash E ` set (Transactions b)"
proof -
  have wf: "coindb_wf E (CoinDB bc)" using ok by (simp add: coindb_ok_def)
  have app: "appendsToActiveChain E bc b" using rep prev by (simp add: appendsToActiveChain_def represents_def)
  have "br_Height (GetBlockRecord E (BlockInfoDB bc) (h_PreviousHash (b_Header b))) = word_of_nat (length chain)"
    using last_stored [OF rep] prev by (simp add: stored_def Let_def)
  then obtain cw' db' d'
    where sb: "store_block E bc d b = Some (word_of_nat (Suc (length chain)),
        bc\<lparr>bc_ChainWriter := cw', BlockInfoDB := db'\<rparr>, d')"
      and io: "io_ok E (bc\<lparr>bc_ChainWriter := cw', BlockInfoDB := db'\<rparr>) d'"
      and st: "stored E db' d' (Suc (length chain)) b"
      and keep: "\<And>k b'. Block_Hash E b' \<noteq> Block_Hash E b \<Longrightarrow> stored E (BlockInfoDB bc) d k b' \<Longrightarrow> stored E db' d' k b'"
    using store_block_ok [OF represents_io [OF rep] wf asc room] by blast
  obtain c' where c': "CoinDatabase_StoreBlock E (CoinDB bc) (Transactions b) = Some c'" "coindb_ok E c'"
    "utxo E c' = apply_block E (utxo E (CoinDB bc)) (Transactions b)"
    "cached_outputs c' \<subseteq>\<^sub>m cached_outputs (CoinDB bc) ++ new_coins E (Transactions b)"
    using StoreBlock_refines [OF ok new inp] by blast
  let ?bc = "bc\<lparr>bc_ChainWriter := cw', BlockInfoDB := db', CoinDB := c', Length := Length bc + 1, LastBlock := b,
    LastHash := Block_Hash E b, UnsafeHashes := (if length (UnsafeHashes bc) \<ge> 6 then tl (UnsafeHashes bc)
      else UnsafeHashes bc) @ [Block_Hash E b]\<rparr>"
  have "HandleBlock E bc d b = Some (?bc, d')"
    using app sb c'(1) ValidateBlock_eq [OF wf, of "Transactions b"] inp
    by (simp add: HandleBlock_def append_block_def Let_def)
  moreover have "represents E ?bc d' (chain @ [b])"
    using io st keep hash prev len by (intro represents_snoc [OF rep]) (simp_all add: io_ok_def)
  ultimately show ?thesis using c'(2,3) known_hashes_step [OF c'(4)] by auto
qed

text \<open>
  C1: A valid block on top of the active chain is appended: the state stands for the chain with
  that block at its end, every earlier block can still be read, and the coins are those of the
  abstract ledger after the block. The hypotheses say that its hash and its transactions are
  new, that its strings are ASCII and that it fits into the current files.
\<close>

theorem handle_block_appends:
  assumes "represents E bc d chain" and "coindb_ok E (CoinDB bc)"
    and "h_PreviousHash (b_Header b) = Block_Hash E (last chain)"
    and "new_block E (known_hashes (CoinDB bc)) (Transactions b)"
    and "Block_Hash E b \<notin> Block_Hash E ` set chain"
    and "inputs_of (Transactions b) \<subseteq> dom (utxo E (CoinDB bc))"
    and "ascii_Block (EncodeBlock b)" and "room_for E bc b" and "length chain + 1 < 2 ^ 32"
  shows "\<exists>bc' d'. HandleBlock E bc d b = Some (bc', d') \<and> represents E bc' d' (chain @ [b]) \<and>
    coindb_ok E (CoinDB bc') \<and> utxo E (CoinDB bc') = apply_block E (utxo E (CoinDB bc)) (Transactions b)"
  using HandleBlock_append [OF assms] by blast

text \<open>
  C31: A block on top of the active chain that spends a coin that does not exist or was spent
  changes nothing, neither in memory nor on disk.
\<close>

theorem handle_block_rejects:
  assumes "represents E bc d chain" and "coindb_wf E (CoinDB bc)"
    and "h_PreviousHash (b_Header b) = Block_Hash E (last chain)"
    and "\<not> inputs_of (Transactions b) \<subseteq> dom (utxo E (CoinDB bc))"
  shows "HandleBlock E bc d b = Some (bc, d)"
  using assms ValidateBlock_eq [OF assms(2), of "Transactions b"]
  by (simp add: HandleBlock_def appendsToActiveChain_def represents_def Let_def)

text \<open>
  A block that does not extend the active chain and is not higher than it is stored, but the
  active chain and the coins stay as they are; no check of its transactions is made.
\<close>

theorem handle_block_stores_side_block:
  assumes rep: "represents E bc d chain" and wf: "coindb_wf E (CoinDB bc)"
    and prev: "h_PreviousHash (b_Header b) \<noteq> Block_Hash E (last chain)"
    and height: "br_Height (GetBlockRecord E (BlockInfoDB bc) (h_PreviousHash (b_Header b))) = word_of_nat n"
    and n: "n < length chain"
    and hash: "Block_Hash E b \<notin> Block_Hash E ` set chain"
    and asc: "ascii_Block (EncodeBlock b)" and room: "room_for E bc b"
  shows "\<exists>bc' d'. HandleBlock E bc d b = Some (bc', d') \<and> represents E bc' d' chain \<and> CoinDB bc' = CoinDB bc \<and>
    GetBlock E bc' d' (Block_Hash E b) = Some b"
proof -
  have app: "\<not> appendsToActiveChain E bc b" using rep prev by (auto simp: appendsToActiveChain_def represents_def)
  obtain cw' db' d'
    where sb: "store_block E bc d b = Some (word_of_nat (Suc n), bc\<lparr>bc_ChainWriter := cw', BlockInfoDB := db'\<rparr>, d')"
      and io: "io_ok E (bc\<lparr>bc_ChainWriter := cw', BlockInfoDB := db'\<rparr>) d'"
      and st: "stored E db' d' (Suc n) b"
      and keep: "\<And>k b'. Block_Hash E b' \<noteq> Block_Hash E b \<Longrightarrow> stored E (BlockInfoDB bc) d k b' \<Longrightarrow> stored E db' d' k b'"
    using store_block_ok [OF represents_io [OF rep] wf asc room height] by blast
  let ?bc = "bc\<lparr>bc_ChainWriter := cw', BlockInfoDB := db'\<rparr>"
  have "unat (word_of_nat (Suc n) :: u32) = Suc n" "unat (word_of_nat (length chain) :: u32) = length chain"
    using n rep by (auto intro!: u32_of_nat_less simp: represents_def simp del: of_nat_Suc)
  then have "\<not> word_of_nat (Suc n) > Length ?bc"
    using n rep by (simp add: represents_def word_less_nat_alt del: of_nat_Suc)
  then have "HandleBlock E bc d b = Some (?bc, d')"
    using app sb by (simp add: HandleBlock_def Let_def del: of_nat_Suc)
  moreover have "Block_Hash E (chain ! i) \<noteq> Block_Hash E b" if "i < length chain" for i
    using hash nth_mem [OF that] by (metis image_eqI)
  then have "represents E ?bc d' chain"
    using rep io keep by (simp add: represents_def)
  ultimately show ?thesis using st GetBlock_stored [of E ?bc d' "Suc n" b] by auto
qed

section \<open>Reading the chain\<close>

text \<open>The part of the chain from height \<open>start\<close> to height \<open>end'\<close>, both included.\<close>

definition chain_part :: "u32 \<Rightarrow> u32 \<Rightarrow> nat \<Rightarrow> Block list \<Rightarrow> Block list" where
  "chain_part start end' k chain = drop (unat start - 1) (take (min k (unat end')) chain)"

lemma chain_part_Suc:
  assumes "m < length chain" and "1 \<le> unat start" and "unat start \<le> Suc m"
  shows "chain_part start end' (Suc m) chain =
    (if Suc m \<le> unat end' then chain_part start end' m chain @ [chain ! m] else chain_part start end' m chain)"
  using assms by (auto simp: chain_part_def take_Suc_conv_app_nth min_def not_less_eq_eq)

lemma chain_part_below: "k < unat start \<Longrightarrow> chain_part start end' k chain = []"
  by (auto simp: chain_part_def)

lemma stored_link:
  assumes rep: "represents E bc d chain" and m: "m < length chain"
  shows "stored E (BlockInfoDB bc) d (Suc m) (chain ! m)"
    "0 < m \<Longrightarrow> h_PreviousHash (br_Header (GetBlockRecord E (BlockInfoDB bc) (Block_Hash E (chain ! m)))) =
       Block_Hash E (chain ! (m - 1))"
proof -
  show st: "stored E (BlockInfoDB bc) d (Suc m) (chain ! m)" using assms by (simp add: represents_def)
  assume "0 < m"
  then have "h_PreviousHash (b_Header (chain ! m)) = Block_Hash E (chain ! (m - 1))"
    using rep m by (cases m) (auto simp: represents_def linked_def)
  with st show "h_PreviousHash (br_Header (GetBlockRecord E (BlockInfoDB bc) (Block_Hash E (chain ! m)))) =
       Block_Hash E (chain ! (m - 1))" by (simp add: stored_def Let_def)
qed

lemma u32_height:
  assumes "k < 2 ^ 32"
  shows "start \<le> (word_of_nat k :: u32) \<longleftrightarrow> unat start \<le> k" "(word_of_nat k :: u32) \<le> end' \<longleftrightarrow> k \<le> unat end'"
  using u32_of_nat_less [OF assms] by (simp_all add: word_le_nat_alt)

lemma u32_pred: "(word_of_nat (Suc m) :: u32) - 1 = word_of_nat m"
  by simp

lemma get_hashes_loop_ok:
  assumes rep: "represents E bc d chain" and start: "1 \<le> unat start"
  shows "k \<le> length chain \<Longrightarrow> (0 < k \<Longrightarrow> nh = Block_Hash E (chain ! (k - 1))) \<Longrightarrow>
    get_hashes_loop E bc start end' (word_of_nat k) nh acc =
      Some (acc @ rev (map (Block_Hash E) (chain_part start end' k chain)))"
proof (induction k arbitrary: nh acc)
  case 0
  then show ?case using start by (subst get_hashes_loop.simps) (simp add: u32_height [of 0, simplified] chain_part_below)
next
  case (Suc m)
  have len: "Suc m < 2 ^ 32" using rep Suc.prems(1) by (simp add: represents_def)
  have m: "m < length chain" and nh: "nh = Block_Hash E (chain ! m)" using Suc.prems by auto
  note link = stored_link [OF rep m]
  show ?case
  proof (cases "unat start \<le> Suc m")
    case True
    show ?thesis
      using True Suc.IH [of "h_PreviousHash (br_Header (GetBlockRecord E (BlockInfoDB bc) nh))"] link(2) m
      unfolding nh
      by (subst get_hashes_loop.simps)
        (simp add: u32_height [OF len] u32_pred chain_part_Suc [OF m start True] del: of_nat_Suc)
  next
    case False
    then show ?thesis
      by (subst get_hashes_loop.simps) (simp add: u32_height [OF len] chain_part_below del: of_nat_Suc)
  qed
qed

lemma get_blocks_loop_ok:
  assumes rep: "represents E bc d chain" and start: "1 \<le> unat start"
  shows "k \<le> length chain \<Longrightarrow> (0 < k \<Longrightarrow> nh = Block_Hash E (chain ! (k - 1))) \<Longrightarrow>
    get_blocks_loop E bc d start end' (word_of_nat k) nh acc = Some (acc @ rev (chain_part start end' k chain))"
proof (induction k arbitrary: nh acc)
  case 0
  then show ?case using start by (subst get_blocks_loop.simps) (simp add: u32_height [of 0, simplified] chain_part_below)
next
  case (Suc m)
  have len: "Suc m < 2 ^ 32" using rep Suc.prems(1) by (simp add: represents_def)
  have m: "m < length chain" and nh: "nh = Block_Hash E (chain ! m)" using Suc.prems by auto
  note link = stored_link [OF rep m]
  show ?case
  proof (cases "unat start \<le> Suc m")
    case True
    have "ReadBlock E d (block_info (GetBlockRecord E (BlockInfoDB bc) (Block_Hash E (chain ! m)))) = Some (chain ! m)"
      using link(1) by (simp add: stored_def Let_def)
    then show ?thesis
      using True Suc.IH [of "h_PreviousHash (br_Header (GetBlockRecord E (BlockInfoDB bc) nh))"] link(2) m
      unfolding nh
      by (subst get_blocks_loop.simps)
        (simp add: u32_height [OF len] u32_pred chain_part_Suc [OF m start True] block_info_fold Let_def del: of_nat_Suc)
  next
    case False
    then show ?thesis
      by (subst get_blocks_loop.simps) (simp add: u32_height [OF len] chain_part_below del: of_nat_Suc)
  qed
qed

lemma GetBlocks_eq:
  assumes rep: "represents E bc d chain" and start: "1 \<le> unat start"
  shows "GetBlocks E bc d start end' = Some (drop (unat start - 1) (take (unat end') chain))"
    "GetHashes E bc start end' = Some (map (Block_Hash E) (drop (unat start - 1) (take (unat end') chain)))"
proof -
  have "chain_part start end' (length chain) chain = drop (unat start - 1) (take (unat end') chain)"
    by (cases "unat end' \<le> length chain") (auto simp: chain_part_def min_def)
  moreover have "Length bc = word_of_nat (length chain)" "LastBlock bc = chain ! (length chain - 1)"
    using rep by (auto simp: represents_def last_conv_nth)
  ultimately show "GetBlocks E bc d start end' = Some (drop (unat start - 1) (take (unat end') chain))"
    "GetHashes E bc start end' = Some (map (Block_Hash E) (drop (unat start - 1) (take (unat end') chain)))"
    using get_blocks_loop_ok [OF rep start, of "length chain"] get_hashes_loop_ok [OF rep start, of "length chain"]
    by (simp_all add: GetBlocks_def GetHashes_def)
qed

text \<open>
  C32: For a start height of at least 1, \<open>GetBlocks\<close> and \<open>GetHashes\<close> return the blocks and hashes
  from height \<open>start\<close> to height \<open>end\<close> of the active chain, both included, in order; heights
  beyond the chain are ignored. \<open>List\<close> returns the whole chain.
\<close>

theorem get_blocks_correct:
  assumes "represents E bc d chain" and "1 \<le> unat start"
  shows "GetBlocks E bc d start end' = Some (drop (unat start - 1) (take (unat end') chain)) \<and>
    GetHashes E bc start end' = Some (map (Block_Hash E) (drop (unat start - 1) (take (unat end') chain))) \<and>
    BlockChain_List E bc d = Some chain"
proof -
  have "unat (Length bc) = length chain"
    using assms(1) by (auto simp: represents_def intro!: u32_of_nat_less)
  then show ?thesis
    using GetBlocks_eq [OF assms] GetBlocks_eq(1) [OF assms(1), of 1 "Length bc"]
    by (simp add: BlockChain_List_def)
qed

lemma get_hashes_loop_zero:
  assumes "get_hashes_loop E bc start end' h nh acc = Some r"
  shows "start \<noteq> 0"
proof (rule get_hashes_loop.raw_induct [where P = "\<lambda>E bc start end' h nh acc r. start \<noteq> 0", OF _ assms])
  fix f :: "('a, 'b) ext_scheme \<Rightarrow> 'a BlockChain \<Rightarrow> u32 \<Rightarrow> u32 \<Rightarrow> u32 \<Rightarrow> string \<Rightarrow> string list \<Rightarrow> string list option"
    and E bc start end' h nh acc r
  assume IH: "\<And>E bc start end' h nh acc r. f E bc start end' h nh acc = Some r \<Longrightarrow> start \<noteq> 0"
    and eq: "(if start \<le> h then let br = GetBlockRecord E (BlockInfoDB bc) nh
         in f E bc start end' (h - 1) (h_PreviousHash (br_Header br)) (if h \<le> end' then acc @ [nh] else acc)
       else Some acc) = Some r"
  show "start \<noteq> 0"
  proof
    assume "start = 0"
    then show False using eq by (auto simp: Let_def split: if_splits dest!: IH)
  qed
qed

text \<open>
  \<open>GetHashes\<close> with start height 0 never returns, on any chain: the height is unsigned, so
  the loop condition always holds. The range check at the start only writes to the log.
\<close>

theorem get_hashes_from_zero_diverges: "GetHashes E bc 0 end' = None"
  using get_hashes_loop_zero [of E bc 0 end' "Length bc" "Block_Hash E (LastBlock bc)" "[]"]
  by (cases "get_hashes_loop E bc 0 end' (Length bc) (Block_Hash E (LastBlock bc)) []") (auto simp: GetHashes_def)

section \<open>Forks\<close>

text \<open>
  A reorganisation panics when the last block of the active chain spends nothing (it holds
  only a coinbase): such a block has no undo file, and \<open>handleFork\<close> reads its undo block.
\<close>

theorem reorg_of_coinbase_block_panics:
  assumes rep: "represents E bc d chain" and "no_inputs (last chain)" and "d [] = None"
    and fork: "fst (getForkLengthAndAncestor E bc (Block_Hash E b)) > 0"
  shows "handleFork E bc d b height = None"
proof -
  obtain k a where ka: "getForkLengthAndAncestor E bc (Block_Hash E b) = (k, a)" by fastforce
  with fork obtain n where n: "nat k = Suc n" using not0_implies_Suc [of "nat k"] by auto
  have st: "stored E (BlockInfoDB bc) d (length chain) (last chain)" by (rule last_stored [OF rep])
  then have "br_UndoFile (GetBlockRecord E (BlockInfoDB bc) (LastHash bc)) = []"
    using assms(2) rep by (simp add: stored_def Let_def represents_def)
  then have "getUndoBlock E bc d (LastHash bc) = None"
    using assms(3) by (simp add: getUndoBlock_def ReadUndoBlock_def readFromDisk_def)
  then have "getBlocksAndUndoBlocks E bc d (nat k) (LastHash bc) = None"
    unfolding n by (cases "GetBlock E bc d (LastHash bc)") simp_all
  then show ?thesis using ka fork by (simp add: handleFork_def)
qed

section \<open>A new chain\<close>

lemma genesis_simps:
  "Transactions (GenesisBlock config) = [hd (Transactions (GenesisBlock config))]"
  "Inputs (hd (Transactions (GenesisBlock config))) = []"
  "length (Outputs (hd (Transactions (GenesisBlock config)))) = 1"
  "ascii_Block (EncodeBlock (GenesisBlock config))" "no_inputs (GenesisBlock config)"
  by (simp_all add: GenesisBlock_def ascii_Block_def EncodeBlock_def ascii_Header_def EncodeHeader_def
      EncodeTransaction_def ascii_Transaction_def no_inputs_def)

definition genesis_fits :: "('db, 'z) ext_scheme \<Rightarrow> bc_Config \<Rightarrow> bool" where
  "genesis_fits E config \<longleftrightarrow> length (fst (marshal_Block E (EncodeBlock (GenesisBlock config)))) < 2 ^ 32 \<and>
     (\<forall>p. length (fst (marshal_UndoBlock E p)) < 2 ^ 32 \<or> EncodeUndoBlock empty_UndoBlock \<noteq> Some p)"

lemma BlockChain_New_genesis:
  assumes laws: "leveldb_laws E" "proto_laws E" and asc: "ascii (ChainWriterDBPath config)"
    and fits: "genesis_fits E config" and dir: "mkdir (ChainWriterDBPath config)"
  shows "\<exists>bc d. BlockChain_New E mkdir (leveldb_empty E) (leveldb_empty E) (\<lambda>_. None) config = Some (bc, d) \<and>
    represents E bc d [GenesisBlock config] \<and> coindb_ok E (CoinDB bc) \<and>
    utxo E (CoinDB bc) = outputs_of E (hd (Transactions (GenesisBlock config)))"
proof -
  let ?g = "GenesisBlock config" and ?tx = "hd (Transactions (GenesisBlock config))"
  let ?cc = "cdb_DefaultConfig\<lparr>cdbc_DatabasePath := CoinDBPath config\<rparr>"
  let ?cw = "fresh_ChainWriter (cw_DefaultConfig\<lparr>cwc_DataDirectory := ChainWriterDBPath config\<rparr>)"
  let ?h = "Block_Hash E ?g" and ?idb = "BlockInfoDatabase_New (leveldb_empty E)"
  note new = coindb_ok_New [OF laws, of ?cc]
  have inp: "inputs_of (Transactions ?g) = {}" using genesis_simps(1,2) [of config] by (simp add: inputs_of_def GenesisBlock_def)
  have nb: "new_block E (known_hashes (CoinDatabase_New (leveldb_empty E) ?cc)) (Transactions ?g)"
    using new(3) by (simp add: new_block_def GenesisBlock_def)
  obtain c where c: "CoinDatabase_StoreBlock E (CoinDatabase_New (leveldb_empty E) ?cc) (Transactions ?g) = Some c"
    "coindb_ok E c" "utxo E c = apply_block E Map.empty (Transactions ?g)"
    using StoreBlock_refines [OF new(1) nb] inp new(2) by auto
  have u: "utxo E c = outputs_of E ?tx"
    using c(3) by (simp add: apply_block_def GenesisBlock_def new_coins_single)
  have cwok: "cw_ok ?cw (\<lambda>_. None)" by (rule cw_ok_New) (simp add: cw_DefaultConfig_def)
  have cwasc: "ascii_files ?cw" using asc by (simp add: ascii_files_def fresh_ChainWriter_def cw_DefaultConfig_def)
  have room: "cw_room ?cw (fst (marshal_Block E (EncodeBlock ?g))) (fst (marshal_UndoBlock E p))"
    if "EncodeUndoBlock empty_UndoBlock = Some p" for p
    using fits that by (auto simp: cw_room_def log_room_def fresh_ChainWriter_def genesis_fits_def)
  have wfu: "wf_UndoBlock empty_UndoBlock" "list_all ascii (TransactionInputHashes empty_UndoBlock)"
    by (simp_all add: wf_UndoBlock_def empty_UndoBlock_def)
  obtain br cw d where st: "ChainWriter_StoreBlock E ?cw (\<lambda>_. None) ?g empty_UndoBlock 1 = Some (br, cw, d)"
    and cw: "cw_ok cw d" "ascii_files cw"
    and br: "br_Height br = 1" "br_Header br = b_Header ?g" "ReadBlock E d (block_info br) = Some ?g"
      "Amounts empty_UndoBlock = [] \<longrightarrow> br_UndoFile br = []" "ascii (br_BlockFile br)" "ascii (br_UndoFile br)"
    using ChainWriter_StoreBlock_ok [OF laws(2) cwok wfu(1) genesis_simps(4) wfu(2) room, of 1] cwasc by blast
  have "ascii_record br"
    using br genesis_simps(4) [of config]
    by (simp add: ascii_record_def ascii_BlockRecord_def EncodeBlockRecord_def ascii_Block_def EncodeBlock_def)
  then have "GetBlockRecord E (StoreBlockRecord E ?idb ?h br) ?h = br" by (simp add: GetBlockRecord_Store [OF laws])
  then have "stored E (StoreBlockRecord E ?idb ?h br) d 1 ?g"
    using br by (simp add: stored_def empty_UndoBlock_def)
  then show ?thesis
    using c st u cw laws dir
    by (simp add: BlockChain_New_def ChainWriter_New_def represents_def io_ok_def linked_def Let_def)
qed

text \<open>
  A new block chain on empty databases and an empty disk stands for the chain that holds the
  genesis block alone; its only coin is the output of the genesis transaction. The data directory can be created.
\<close>

theorem new_chain_is_genesis:
  assumes laws: "leveldb_laws E" "proto_laws E" and asc: "ascii (ChainWriterDBPath config)"
    and fits: "genesis_fits E config" and dir: "mkdir (ChainWriterDBPath config)"
  shows "\<exists>bc d. BlockChain_New E mkdir (leveldb_empty E) (leveldb_empty E) (\<lambda>_. None) config = Some (bc, d) \<and>
    represents E bc d [GenesisBlock config] \<and> coindb_ok E (CoinDB bc) \<and>
    utxo E (CoinDB bc) = outputs_of E (hd (Transactions (GenesisBlock config)))"
  using assms by (rule BlockChain_New_genesis)

end
