(* ===== verification/Node_Sync.thy ===== *)
theory Node_Sync
  imports Node Active_Chain
begin

text \<open>
  Blocks on the network: what \<open>ForwardBlock\<close>, \<open>GetBlocks\<close>, \<open>GetData\<close> and \<open>Bootstrap\<close>
  (\<open>src/pkg/server.go\<close>, \<open>node.go\<close>) do to the active chain of a node, over the lemmas of the
  block chain.
\<close>

section \<open>Receiving blocks\<close>

lemma map_of_note_block:
  "map_of (snd (note_block seen h)) =
     (map_of seen)(h \<mapsto> (case map_of seen h of None \<Rightarrow> 1 | Some c \<Rightarrow> c + 1))"
  by (simp add: note_block_def update_conv' split: option.split)

text \<open>The counters after a list of receipts: each hash is counted modulo \<open>2 ^ 32\<close>.\<close>

abbreviation received :: "('db, 'z) ext_scheme \<Rightarrow> pro_Block list \<Rightarrow> string \<Rightarrow> nat" where
  "received E pbs h \<equiv> length (filter (\<lambda>pb. Block_Hash E (DecodeBlock pb) = h) pbs)"

fun forward_blocks :: "('db, 'z) ext_scheme \<Rightarrow> 'db Node \<Rightarrow> pro_Block list \<Rightarrow> 'db Node option" where
  "forward_blocks E n [] = Some n"
| "forward_blocks E n (pb # pbs) =
     (case ForwardBlock E n pb of None \<Rightarrow> None | Some (_, n', _) \<Rightarrow> forward_blocks E n' pbs)"

lemma ForwardBlock_seen:
  assumes "ForwardBlock E n pb = Some (r, n', tasks)"
  shows "SeenBlocks n' = snd (note_block (SeenBlocks n) (Block_Hash E (DecodeBlock pb)))"
  using assms by (auto simp: ForwardBlock_def Let_def case_prod_unfold bind_eq_Some_conv split: if_splits)

lemma forward_blocks_seen:
  assumes "forward_blocks E n pbs = Some n'" and "map_of (SeenBlocks n) h = Some c"
  shows "map_of (SeenBlocks n') h = Some (c + word_of_nat (received E pbs h))"
  using assms
proof (induction pbs arbitrary: n c)
  case (Cons pb pbs)
  from Cons.prems(1) obtain r n1 ts where step: "ForwardBlock E n pb = Some (r, n1, ts)"
    and rest: "forward_blocks E n1 pbs = Some n'"
    by (auto split: option.splits)
  show ?case
    using Cons.IH [OF rest] Cons.prems(2) ForwardBlock_seen [OF step]
    by (simp add: map_of_note_block add.assoc add.commute)
qed simp

lemma forward_blocks_count:
  assumes "forward_blocks E n pbs = Some n'" and "map_of (SeenBlocks n) h = None"
  shows "map_of (SeenBlocks n') h =
    (if received E pbs h = 0 then None else Some (word_of_nat (received E pbs h)))"
  using assms
proof (induction pbs arbitrary: n)
  case (Cons pb pbs)
  from Cons.prems(1) obtain r n1 ts where step: "ForwardBlock E n pb = Some (r, n1, ts)"
    and rest: "forward_blocks E n1 pbs = Some n'"
    by (auto split: option.splits)
  show ?case
  proof (cases "Block_Hash E (DecodeBlock pb) = h")
    case True
    then have "map_of (SeenBlocks n1) h = Some 1"
      using Cons.prems(2) ForwardBlock_seen [OF step] by (simp add: map_of_note_block)
    then show ?thesis using forward_blocks_seen [OF rest] True by simp
  next
    case False
    then have "map_of (SeenBlocks n1) h = None"
      using Cons.prems(2) ForwardBlock_seen [OF step] by (simp add: map_of_note_block)
    then show ?thesis using Cons.IH [OF rest] False by simp
  qed
qed simp

text \<open>
  C26: Start from a node that never saw the hash \<open>h\<close> and let it receive any blocks from the network. As long
  as the 32-bit counter has not wrapped, the next block with that hash is handled exactly when it was
  received less than twice before; from the third receipt on, it is only counted, and neither checked,
  stored nor forwarded.
\<close>

theorem block_handled_at_most_twice:
  assumes "forward_blocks E n pbs = Some n'" and "map_of (SeenBlocks n) h = None"
    and "received E pbs h < 2 ^ 32" and "Block_Hash E (DecodeBlock pb) = h"
  shows "(fst (note_block (SeenBlocks n') h) \<longleftrightarrow> received E pbs h < 2) \<and>
    (2 \<le> received E pbs h \<longrightarrow> (\<exists>seen k. ForwardBlock E n' pb = Some (Inr (), n'\<lparr>SeenBlocks := seen, next_object := k\<rparr>, [])))"
proof -
  have "fst (note_block (SeenBlocks n') h) \<longleftrightarrow> received E pbs h < 2"
    using forward_blocks_count [OF assms(1,2)] assms(3)
    by (auto simp: note_block_def word_less_nat_alt unat_of_nat take_bit_eq_mod)
  then show ?thesis
    using assms(4) by (auto simp: ForwardBlock_def Let_def case_prod_unfold)
qed

section \<open>Appending a received block\<close>

text \<open>The conditions of the chain under which it appends \<open>b\<close>.\<close>

definition appendable :: "('db, 'z) ext_scheme \<Rightarrow> 'db BlockChain \<Rightarrow> Block \<Rightarrow> bool" where
  "appendable E bc b \<longleftrightarrow> new_block E (known_hashes (CoinDB bc)) (Transactions b) \<and>
     inputs_of (Transactions b) \<subseteq> dom (utxo E (CoinDB bc)) \<and> ascii_Block (EncodeBlock b) \<and> room_for E bc b"

lemma HandleBlock_appendable:
  assumes "represents E bc d chain" and "coindb_ok E (CoinDB bc)" and "appendable E bc b"
    and "h_PreviousHash (b_Header b) = Block_Hash E (last chain)"
    and "Block_Hash E b \<notin> Block_Hash E ` set chain" and "length chain + 1 < 2 ^ 32"
  obtains bc' d' where "HandleBlock E bc d b = Some (bc', d')" and "represents E bc' d' (chain @ [b])"
    and "coindb_ok E (CoinDB bc')" and "utxo E (CoinDB bc') = apply_block E (utxo E (CoinDB bc)) (Transactions b)"
  using HandleBlock_append [OF assms(1,2,4) _ assms(5) _ _ _ assms(6)] assms(3)
  by (auto simp: appendable_def)

lemma mt_tx_allocate: "map mt_tx (fst (allocate_txs k ts)) = ts"
  by (induction k ts rule: allocate_txs.induct) (simp_all add: Let_def case_prod_unfold)

lemma ForwardBlock_append:
  assumes "represents E (n_BlockChain n) (n_disk n) chain" and "coindb_ok E (CoinDB (n_BlockChain n))"
    and "appendable E (n_BlockChain n) b"
    and "h_PreviousHash (b_Header b) = Block_Hash E (last chain)"
    and "Block_Hash E b \<notin> Block_Hash E ` set chain" and "length chain + 1 < 2 ^ 32"
    and "map_of (SeenBlocks n) (Block_Hash E b) = None"
  obtains bc d seen k txs where "ForwardBlock E n (EncodeBlock b) = Some (Inr (),
      n\<lparr>SeenBlocks := seen, next_object := k, n_BlockChain := bc, n_disk := d\<rparr>,
      (if HasMiner (MinerConfig (n_Config n)) then [MinerHandlesBlock b] else []) @
      (if HasWallet (WalletConfig (n_Config n)) then [WalletHandlesBlock txs] else []) @
      map (\<lambda>a. ForwardBlockTo a (EncodeBlock b)) (peer_addrs n))" and "map mt_tx txs = Transactions b"
    and "represents E bc d (chain @ [b])" and "coindb_ok E (CoinDB bc)"
    and "utxo E (CoinDB bc) = apply_block E (utxo E (CoinDB (n_BlockChain n))) (Transactions b)"
proof -
  obtain bc d where step: "HandleBlock E (n_BlockChain n) (n_disk n) b = Some (bc, d)"
    "represents E bc d (chain @ [b])" "coindb_ok E (CoinDB bc)"
    "utxo E (CoinDB bc) = apply_block E (utxo E (CoinDB (n_BlockChain n))) (Transactions b)"
    using HandleBlock_appendable [OF assms(1-6)] .
  have valid: "ValidateBlock E (CoinDB (n_BlockChain n)) (Transactions b) = Some True"
    using ValidateBlock_eq [of E "CoinDB (n_BlockChain n)" "Transactions b"] assms(2,3)
    by (simp add: coindb_ok_def appendable_def)
  have tip: "LastHash (n_BlockChain n) = h_PreviousHash (b_Header b)"
    using assms(1,4) by (simp add: represents_def)
  show thesis
    by (rule that [where seen = "snd (note_block (SeenBlocks n) (Block_Hash E b))" and bc = bc and d = d
          and k = "snd (allocate_txs (next_object n) (Transactions b))" and txs = "fst (allocate_txs (next_object n) (Transactions b))"])
      (use step valid tip assms(7) mt_tx_allocate in
        \<open>simp_all add: ForwardBlock_def CheckBlock_def block_wire.decode_encode note_block_def peer_addrs_def Let_def case_prod_unfold\<close>)
qed

text \<open>
  C12: A block that arrives from the network, extends the active chain, spends existing coins and
  has new transactions is appended: afterwards the node stands for the longer chain with the coins
  the block leaves, the miner and the wallet are told (when the node has them), and the block goes to every peer.
\<close>

theorem forward_block_appends:
  assumes "represents E (n_BlockChain n) (n_disk n) chain" and "coindb_ok E (CoinDB (n_BlockChain n))"
    and "appendable E (n_BlockChain n) b"
    and "h_PreviousHash (b_Header b) = Block_Hash E (last chain)"
    and "Block_Hash E b \<notin> Block_Hash E ` set chain" and "length chain + 1 < 2 ^ 32"
    and "map_of (SeenBlocks n) (Block_Hash E b) = None"
  shows "\<exists>n' txs. ForwardBlock E n (EncodeBlock b) = Some (Inr (), n',
      (if HasMiner (MinerConfig (n_Config n)) then [MinerHandlesBlock b] else []) @
      (if HasWallet (WalletConfig (n_Config n)) then [WalletHandlesBlock txs] else []) @
      map (\<lambda>a. ForwardBlockTo a (EncodeBlock b)) (peer_addrs n)) \<and> map mt_tx txs = Transactions b \<and>
    represents E (n_BlockChain n') (n_disk n') (chain @ [b]) \<and> coindb_ok E (CoinDB (n_BlockChain n')) \<and>
    utxo E (CoinDB (n_BlockChain n')) = apply_block E (utxo E (CoinDB (n_BlockChain n))) (Transactions b)"
proof -
  obtain bc d seen k txs where "ForwardBlock E n (EncodeBlock b) = Some (Inr (),
      n\<lparr>SeenBlocks := seen, next_object := k, n_BlockChain := bc, n_disk := d\<rparr>,
      (if HasMiner (MinerConfig (n_Config n)) then [MinerHandlesBlock b] else []) @
      (if HasWallet (WalletConfig (n_Config n)) then [WalletHandlesBlock txs] else []) @
      map (\<lambda>a. ForwardBlockTo a (EncodeBlock b)) (peer_addrs n))" "map mt_tx txs = Transactions b"
    "represents E bc d (chain @ [b])" "coindb_ok E (CoinDB bc)"
    "utxo E (CoinDB bc) = apply_block E (utxo E (CoinDB (n_BlockChain n))) (Transactions b)"
    by (rule ForwardBlock_append [OF assms])
  then show ?thesis by auto
qed

section \<open>Catching up with a peer\<close>

lemma represents_hash_inj:
  assumes "represents E bc d chain" and "i < length chain" and "j < length chain"
    and "Block_Hash E (chain ! i) = Block_Hash E (chain ! j)"
  shows "i = j"
proof -
  have "word_of_nat (Suc i) = (word_of_nat (Suc j) :: u32)"
    using stored_link(1) [OF assms(1,2)] stored_link(1) [OF assms(1,3)] assms(4)
    by (simp add: stored_def Let_def del: of_nat_Suc)
  moreover have "Suc i < 2 ^ 32" "Suc j < 2 ^ 32" using assms(1-3) by (auto simp: represents_def)
  ultimately show ?thesis by (metis Suc_inject u32_of_nat_less)
qed

text \<open>
  \<open>GetBlocks\<close> on a block of the active chain: the hashes of the next blocks, 500 at most. The bound on the
  height keeps \<open>ind + 500\<close> from wrapping.
\<close>

lemma Node_GetBlocks_eq:
  assumes rep: "represents E (n_BlockChain n) (n_disk n) chain" and i: "i < length chain"
    and len: "length chain + 500 < 2 ^ 32"
  shows "Node_GetBlocks E n (Block_Hash E (chain ! i)) = Some (map (Block_Hash E) (take 500 (drop (Suc i) chain)))"
proof -
  have h: "br_Height (GetBlockRecord E (BlockInfoDB (n_BlockChain n)) (Block_Hash E (chain ! i))) = word_of_nat (Suc i)"
    using stored_link(1) [OF rep i] by (simp add: stored_def Let_def)
  have L: "Length (n_BlockChain n) = word_of_nat (length chain)" using rep by (simp add: represents_def)
  have u: "unat (word_of_nat k :: u32) = k" if "k \<le> length chain + 500" for k
    using that len by (intro u32_of_nat_less) simp
  have u': "unat ((word_of_nat (Suc i) :: u32) + 1) = Suc (Suc i)" "unat ((word_of_nat (Suc i) :: u32) + 500) = Suc i + 500"
    using u32_add_no_wrap [of "word_of_nat (Suc i)" 1] u32_add_no_wrap [of "word_of_nat (Suc i)" 500] u [of "Suc i"] i len
    by (simp_all del: of_nat_Suc)
  note gb = GetBlocks_eq(1) [OF rep, of "word_of_nat (Suc i) + 1", unfolded u'(1)]
  show ?thesis
  proof (cases "Suc i < length chain")
    case True
    then have lt: "(word_of_nat (Suc i) :: u32) < word_of_nat (length chain)"
      using u [of "Suc i"] u [of "length chain"] by (simp add: word_less_nat_alt del: of_nat_Suc)
    have "take (500 + Suc i) chain = take (Suc i + 500) chain" by (simp add: add.commute)
    then show ?thesis
      using gb lt u [of "length chain"] u'(2)
      by (simp add: Node_GetBlocks_def h L Let_def word_less_nat_alt take_drop del: of_nat_Suc)
  next
    case False
    then have "Suc i = length chain" using i by simp
    then show ?thesis by (simp add: Node_GetBlocks_def h L Let_def)
  qed
qed

lemma GetData_eq:
  assumes "represents E (n_BlockChain n) (n_disk n) chain" and "i < length chain"
  shows "GetData E n (Block_Hash E (chain ! i)) = Some (EncodeBlock (chain ! i))"
  using GetBlock_stored [OF stored_link(1) [OF assms]] by (simp add: GetData_def)

text \<open>The blocks can be appended one after the other.\<close>

fun extendable :: "('db, 'z) ext_scheme \<Rightarrow> 'db BlockChain \<Rightarrow> disk \<Rightarrow> Block list \<Rightarrow> bool" where
  "extendable E bc d [] \<longleftrightarrow> True"
| "extendable E bc d (b # bs) \<longleftrightarrow> appendable E bc b \<and>
     (case HandleBlock E bc d b of None \<Rightarrow> True | Some (bc', d') \<Rightarrow> extendable E bc' d' bs)"

lemma linked_append_hash:
  assumes "represents E bc d (chain @ b # bs)" and "chain \<noteq> []"
  shows "h_PreviousHash (b_Header b) = Block_Hash E (last chain)" "Block_Hash E b \<notin> Block_Hash E ` set chain"
proof -
  have "linked E (chain @ b # bs)" using assms(1) by (simp add: represents_def)
  then have "h_PreviousHash (b_Header ((chain @ b # bs) ! length chain)) = Block_Hash E ((chain @ b # bs) ! (length chain - 1))"
    using assms(2) unfolding linked_def by (cases "length chain") simp_all
  then show "h_PreviousHash (b_Header b) = Block_Hash E (last chain)"
    using assms(2) by (simp add: nth_append last_conv_nth)
  show "Block_Hash E b \<notin> Block_Hash E ` set chain"
  proof
    assume "Block_Hash E b \<in> Block_Hash E ` set chain"
    then obtain j where "j < length chain" "Block_Hash E b = Block_Hash E (chain ! j)"
      by (auto simp: in_set_conv_nth)
    then show False using represents_hash_inj [OF assms(1), of "length chain" j] by (simp add: nth_append)
  qed
qed

lemma bootstrap_blocks:
  assumes "represents E (n_BlockChain n) (n_disk n) chain" and "coindb_ok E (CoinDB (n_BlockChain n))"
    and "represents E pbc pd (chain @ bs @ later)" and "extendable E (n_BlockChain n) (n_disk n) bs"
    and "\<And>b. b \<in> set bs \<Longrightarrow> getData a (Block_Hash E b) = Some (Some (EncodeBlock b))"
  shows "\<exists>n'. fold_opt (bootstrap_block E getData a) n (map (Block_Hash E) bs) = Some n' \<and>
    represents E (n_BlockChain n') (n_disk n') (chain @ bs) \<and> coindb_ok E (CoinDB (n_BlockChain n')) \<and>
    utxo E (CoinDB (n_BlockChain n')) = foldl (apply_block E) (utxo E (CoinDB (n_BlockChain n))) (map Transactions bs)"
  using assms
proof (induction bs arbitrary: n chain)
  case (Cons b bs)
  have ne: "chain \<noteq> []" using Cons.prems(1) by (simp add: represents_def)
  have peer: "represents E pbc pd (chain @ b # (bs @ later))" using Cons.prems(3) by simp
  have len: "length chain + 1 < 2 ^ 32" using peer by (simp add: represents_def)
  have app: "appendable E (n_BlockChain n) b" using Cons.prems(4) by simp
  obtain bc d where step: "HandleBlock E (n_BlockChain n) (n_disk n) b = Some (bc, d)" "represents E bc d (chain @ [b])"
    "coindb_ok E (CoinDB bc)" "utxo E (CoinDB bc) = apply_block E (utxo E (CoinDB (n_BlockChain n))) (Transactions b)"
    using HandleBlock_appendable [OF Cons.prems(1,2) app linked_append_hash [OF peer ne] len] .
  let ?n = "n\<lparr>SeenBlocks := AList.update (Block_Hash E b) 1 (SeenBlocks n), n_BlockChain := bc, n_disk := d\<rparr>"
  have "bootstrap_block E getData a n (Block_Hash E b) = Some ?n"
    using step(1) Cons.prems(5) [of b]
    by (simp add: bootstrap_block_def nil_default_def block_wire.decode_encode Let_def)
  moreover have "extendable E (n_BlockChain ?n) (n_disk ?n) bs" using Cons.prems(4) step(1) by simp
  ultimately show ?case
    using Cons.IH [of ?n "chain @ [b]"] step peer Cons.prems(5) by simp
qed simp

text \<open>The longest answer wins.\<close>

lemma longest_response:
  assumes "\<forall>(p, r) \<in> set rs. (p, r) = (a, Some hs) \<or> r = None \<or> (\<exists>ks. r = Some ks \<and> length ks < length hs)"
    and "acc = Some (a, hs) \<or> ((a, Some hs) \<in> set rs \<and> (acc = None \<or> (\<exists>p ks. acc = Some (p, ks) \<and> length ks < length hs)))"
  shows "foldl longer_response acc rs = Some (a, hs)"
  using assms
proof (induction rs arbitrary: acc)
  case (Cons r rs)
  show ?case
    unfolding foldl_Cons
    by (rule Cons.IH) (use Cons.prems in \<open>auto simp: longer_response_def split: option.splits if_split_asm if_split\<close>)
qed simp

lemma Bootstrap_extends:
  assumes "represents E (n_BlockChain n) (n_disk n) chain" and "coindb_ok E (CoinDB (n_BlockChain n))"
    and "represents E (n_BlockChain peer) (n_disk peer) (chain @ bs)" and "length (chain @ bs) + 500 < 2 ^ 32"
    and "extendable E (n_BlockChain n) (n_disk n) (take 500 bs)"
    and "peer_addrs n \<noteq> []"
    and "Node_GetBlocks E peer (LastHash (n_BlockChain n)) = Some hs" and "(a, Some hs) \<in> set responses"
    and "\<forall>(p, r) \<in> set responses. (p, r) = (a, Some hs) \<or> r = None \<or> (\<exists>ks. r = Some ks \<and> length ks < length hs)"
    and "\<And>h pb. GetData E peer h = Some pb \<Longrightarrow> getData a h = Some (Some pb)"
  shows "\<exists>n'. Bootstrap E responses getData n = Some (Inr n') \<and>
    represents E (n_BlockChain n') (n_disk n') (chain @ take 500 bs) \<and> coindb_ok E (CoinDB (n_BlockChain n')) \<and>
    utxo E (CoinDB (n_BlockChain n')) =
      foldl (apply_block E) (utxo E (CoinDB (n_BlockChain n))) (map Transactions (take 500 bs))"
proof -
  have ne: "chain \<noteq> []" and tip: "LastHash (n_BlockChain n) = Block_Hash E ((chain @ bs) ! (length chain - 1))"
    using assms(1) by (auto simp: represents_def last_conv_nth nth_append)
  have "Node_GetBlocks E peer (LastHash (n_BlockChain n)) =
      Some (map (Block_Hash E) (take 500 (drop (Suc (length chain - 1)) (chain @ bs))))"
    unfolding tip by (rule Node_GetBlocks_eq [OF assms(3) _ assms(4)]) (use ne in \<open>cases chain, simp_all\<close>)
  then have hs: "hs = map (Block_Hash E) (take 500 bs)" using assms(7) ne by simp
  have long: "foldl longer_response None responses = Some (a, hs)"
    using longest_response [OF assms(9)] assms(8) by simp
  have "getData a (Block_Hash E b) = Some (Some (EncodeBlock b))" if b: "b \<in> set (take 500 bs)" for b
  proof -
    have "b \<in> set (chain @ bs)" using in_set_takeD [OF b] by simp
    then obtain i where "i < length (chain @ bs)" "b = (chain @ bs) ! i"
      by (metis in_set_conv_nth)
    then show ?thesis using GetData_eq [OF assms(3)] assms(10) by simp
  qed
  then show ?thesis
    using bootstrap_blocks [OF assms(1,2) _ assms(5), of "n_BlockChain peer" "n_disk peer" "drop 500 bs" getData a]
      assms(3,6) long by (auto simp: Bootstrap_def hs)
qed

text \<open>
  Bootstrapping catches up. Let a peer stand for a chain that extends the chain of the node, answer \<open>GetBlocks\<close>
  and \<open>GetData\<close> by its handlers, and let every other answer be an error or shorter. When the missing blocks can
  be appended, \<open>Bootstrap\<close> returns without error and the node stands for the chain of the peer, 500 blocks
  further at most, with the coins those blocks leave.
\<close>

theorem bootstrap_catches_up:
  assumes "represents E (n_BlockChain n) (n_disk n) chain" and "coindb_ok E (CoinDB (n_BlockChain n))"
    and "represents E (n_BlockChain peer) (n_disk peer) (chain @ bs)" and "length (chain @ bs) + 500 < 2 ^ 32"
    and "extendable E (n_BlockChain n) (n_disk n) (take 500 bs)"
    and "peer_addrs n \<noteq> []"
    and "Node_GetBlocks E peer (LastHash (n_BlockChain n)) = Some hs" and "(a, Some hs) \<in> set responses"
    and "\<forall>(p, r) \<in> set responses. (p, r) = (a, Some hs) \<or> r = None \<or> (\<exists>ks. r = Some ks \<and> length ks < length hs)"
    and "\<And>h pb. GetData E peer h = Some pb \<Longrightarrow> getData a h = Some (Some pb)"
  shows "\<exists>n'. Bootstrap E responses getData n = Some (Inr n') \<and>
    represents E (n_BlockChain n') (n_disk n') (chain @ take 500 bs) \<and> coindb_ok E (CoinDB (n_BlockChain n')) \<and>
    utxo E (CoinDB (n_BlockChain n')) =
      foldl (apply_block E) (utxo E (CoinDB (n_BlockChain n))) (map Transactions (take 500 bs))"
  using assms by (rule Bootstrap_extends)

end
