(* ===== verification/Net_Flood.thy ===== *)
theory Net_Flood
  imports Network Flooding Node_Sync Node_Machine
begin

text \<open>
  A block on a network of nodes. \<open>ForwardBlock\<close> (\<open>src/pkg/server.go\<close>) sends a block on to every peer; here the contract of
  flooding is shown for it, which gives the end of the exchange and its result for networks of any shape.
\<close>

section \<open>Nodes before and after the block\<close>

text \<open>
  A node whose goroutines and prints cannot panic: the miner and the wallet of its configuration exist, the channels of a running
  miner are open, and its own address and those of its peers have the form \<open>host:port\<close>.
\<close>

definition sound_node :: "'db Node \<Rightarrow> bool" where
  "sound_node n \<longleftrightarrow>
     (HasMiner (MinerConfig (n_Config n)) \<longrightarrow> (\<exists>m. n_Miner n = Some m \<and> \<not> (Active m \<and> channels_closed m))) \<and>
     (HasWallet (WalletConfig (n_Config n)) \<longrightarrow> n_Wallet n \<noteq> None) \<and>
     FmtAddr (n_Address n) \<noteq> None \<and> (\<forall>a \<in> set (peer_addresses n). FmtAddr a \<noteq> None)"

text \<open>A node that can append the block to \<open>chain\<close>, and one that has done so; the block spends a coin.\<close>

definition block_pending :: "('db, 'z) ext_scheme \<Rightarrow> Block list \<Rightarrow> Block \<Rightarrow> 'db Node \<Rightarrow> bool" where
  "block_pending E chain b n \<longleftrightarrow> sound_node n \<and>
     represents E (n_BlockChain n) (n_disk n) chain \<and> coindb_ok E (CoinDB (n_BlockChain n)) \<and> appendable E (n_BlockChain n) b \<and>
     h_PreviousHash (b_Header b) = Block_Hash E (last chain) \<and> Block_Hash E b \<notin> Block_Hash E ` set chain \<and>
     length chain + 1 < 2 ^ 32 \<and> map_of (SeenBlocks n) (Block_Hash E b) = None \<and> inputs_of (Transactions b) \<noteq> {}"

definition block_stored :: "('db, 'z) ext_scheme \<Rightarrow> Block list \<Rightarrow> Block \<Rightarrow> 'db Node \<Rightarrow> bool" where
  "block_stored E chain b n \<longleftrightarrow> sound_node n \<and>
     represents E (n_BlockChain n) (n_disk n) (chain @ [b]) \<and> coindb_wf E (CoinDB (n_BlockChain n)) \<and>
     \<not> inputs_of (Transactions b) \<subseteq> dom (utxo E (CoinDB (n_BlockChain n)))"

definition block_envelope :: "Block \<Rightarrow> envelope \<Rightarrow> bool" where
  "block_envelope b e \<longleftrightarrow> env_msg e = BlockMsg (EncodeBlock b) \<and> (\<forall>a \<in> set (env_logs e). FmtAddr a \<noteq> None)"

definition block_goroutine :: "'db Node \<Rightarrow> envelope \<Rightarrow> bool" where
  "block_goroutine n e \<longleftrightarrow> env_logs e = [] \<and>
     (case env_msg e of
        MinerBlockTask b \<Rightarrow> HasMiner (MinerConfig (n_Config n))
      | WalletTask txs \<Rightarrow> HasWallet (WalletConfig (n_Config n))
      | _ \<Rightarrow> False)"

definition react :: "('db, 'z) ext_scheme \<Rightarrow> choices \<Rightarrow> 'db Node \<Rightarrow> envelope \<Rightarrow> ('db Node \<times> envelope list) option" where
  "react E c n e = map_option (\<lambda>(ok, n', tasks). (n', concat (map (dispatch n' e) tasks))) (handle E c n (env_msg e))"

section \<open>The contract\<close>

text \<open>The coins a block spends are gone after it: its own outputs have new hashes.\<close>

lemma inputs_spent:
  assumes "new_block E (known_hashes c) (Transactions b)" and "coindb_ok E c"
    and "inputs_of (Transactions b) \<subseteq> dom (utxo E c)" and "inputs_of (Transactions b) \<noteq> {}"
  shows "\<not> inputs_of (Transactions b) \<subseteq> dom (apply_block E (utxo E c) (Transactions b))"
proof
  assume sub: "inputs_of (Transactions b) \<subseteq> dom (apply_block E (utxo E c) (Transactions b))"
  obtain cl where cl: "cl \<in> inputs_of (Transactions b)" using assms(4) by blast
  then have "utxo E c cl \<noteq> None" using assms(3) by blast
  moreover have "cached_at E c cl" using assms(2) by (simp add: coindb_ok_def)
  ultimately have "new_coins E (Transactions b) cl = None"
    by (intro new_coins_hash notI) (simp add: new_block_hashes(3) [OF assms(1)])
  then have "cl \<notin> dom (apply_block E (utxo E c) (Transactions b))"
    using cl by (auto simp: apply_block_def map_add_def restrict_map_def)
  then show False using sub cl by blast
qed

lemma sound_miner:
  assumes "sound_node n" and "HasMiner (MinerConfig (n_Config n))"
  obtains m m' ev where "n_Miner n = Some m" and "Miner_HandleBlock E m (Some b) = Some (m', ev)"
    and "sound_node (n\<lparr>n_Miner := Some m'\<rparr>)"
proof -
  obtain m where m: "n_Miner n = Some m" "\<not> (Active m \<and> channels_closed m)" using assms by (auto simp: sound_node_def)
  have "\<exists>m' ev. Miner_HandleBlock E m (Some b) = Some (m', ev) \<and> Active m' = Active m \<and> channels_closed m' = channels_closed m"
    using m(2) by (auto simp: Miner_HandleBlock_def UpdateTXPool_def IncrementChainLength_def send_PoolUpdated_def Let_def)
  then obtain m' ev where "Miner_HandleBlock E m (Some b) = Some (m', ev)" "Active m' = Active m" "channels_closed m' = channels_closed m"
    by blast
  then show thesis using m assms that [of m m' ev]
    by (simp add: sound_node_def peer_addresses_def peer_addrs_def ptr_address_def)
qed

lemma peer_addresses_update [simp]:
  "peer_addresses (n\<lparr>n_Miner := m\<rparr>) = peer_addresses n" "peer_addresses (n\<lparr>n_Wallet := w\<rparr>) = peer_addresses n"
  "peer_addresses (n\<lparr>SeenBlocks := seen, next_object := k\<rparr>) = peer_addresses n"
  "peer_addresses (n\<lparr>SeenBlocks := seen, next_object := k, n_BlockChain := bc, n_disk := d\<rparr>) = peer_addresses n"
  by (simp_all add: peer_addresses_def peer_addrs_def ptr_address_def)

lemma block_goroutine_update [simp]:
  "block_goroutine (n\<lparr>n_Miner := m\<rparr>) = block_goroutine n" "block_goroutine (n\<lparr>n_Wallet := w\<rparr>) = block_goroutine n"
  "block_goroutine (n\<lparr>SeenBlocks := seen, next_object := k\<rparr>) = block_goroutine n"
  "block_goroutine (n\<lparr>SeenBlocks := seen, next_object := k, n_BlockChain := bc, n_disk := d\<rparr>) = block_goroutine n"
  by (auto simp: block_goroutine_def fun_eq_iff split: net_msg.split)

lemma react_goroutine:
  assumes "sound_node n" and "block_goroutine n e"
  obtains m where "react E c n e = Some (n\<lparr>n_Miner := m\<rparr>, [])" and "sound_node (n\<lparr>n_Miner := m\<rparr>)"
  | w where "react E c n e = Some (n\<lparr>n_Wallet := w\<rparr>, [])" and "sound_node (n\<lparr>n_Wallet := w\<rparr>)"
proof (cases "env_msg e")
  case (MinerBlockTask b)
  then have "HasMiner (MinerConfig (n_Config n))" using assms(2) by (simp add: block_goroutine_def)
  then obtain m m' ev where "n_Miner n = Some m" "Miner_HandleBlock E m (Some b) = Some (m', ev)" "sound_node (n\<lparr>n_Miner := Some m'\<rparr>)"
    by (rule sound_miner [OF assms(1)])
  then show thesis using that(1) MinerBlockTask by (simp add: react_def handle_def)
next
  case (WalletTask txs)
  then obtain w where "n_Wallet n = Some w" using assms by (auto simp: block_goroutine_def sound_node_def)
  then show thesis using that(2) WalletTask assms(1) by (simp add: react_def handle_def sound_node_def)
qed (use assms(2) in \<open>simp_all add: block_goroutine_def\<close>)

lemma react_pending:
  assumes pending: "block_pending E chain b n" and e: "block_envelope b e"
  obtains n' out where "react E c n e = Some (n', out)" and "block_stored E chain b n'" and "peer_addresses n' = peer_addresses n"
    and "block_goroutine n' = block_goroutine n" and "length out \<le> length (peer_addresses n) + 2"
    and "env_to ` {m \<in> set out. block_envelope b m} = set (peer_addresses n)"
    and "\<forall>m \<in> set out. block_envelope b m \<or> block_goroutine n m \<and> env_to m = env_to e"
proof -
  note p = pending [unfolded block_pending_def]
  from p obtain bc d seen k txs where step: "ForwardBlock E n (EncodeBlock b) = Some (Inr (),
      n\<lparr>SeenBlocks := seen, next_object := k, n_BlockChain := bc, n_disk := d\<rparr>,
      (if HasMiner (MinerConfig (n_Config n)) then [MinerHandlesBlock b] else []) @
      (if HasWallet (WalletConfig (n_Config n)) then [WalletHandlesBlock txs] else []) @
      map (\<lambda>a. ForwardBlockTo a (EncodeBlock b)) (peer_addrs n))"
    "represents E bc d (chain @ [b])" "coindb_ok E (CoinDB bc)"
    "utxo E (CoinDB bc) = apply_block E (utxo E (CoinDB (n_BlockChain n))) (Transactions b)"
    using ForwardBlock_append [of E n chain b] by metis
  let ?n = "n\<lparr>SeenBlocks := seen, next_object := k, n_BlockChain := bc, n_disk := d\<rparr>"
  let ?sends = "map (\<lambda>p. \<lparr>env_from = env_to e, env_to = ptr_address n p, env_msg = BlockMsg (EncodeBlock b),
      env_logs = peer_addresses n\<rparr>) (peer_addrs n)"
  let ?out = "(if HasMiner (MinerConfig (n_Config n)) then
        [\<lparr>env_from = env_to e, env_to = env_to e, env_msg = MinerBlockTask b, env_logs = []\<rparr>] else []) @
      (if HasWallet (WalletConfig (n_Config n)) then
        [\<lparr>env_from = env_to e, env_to = env_to e, env_msg = WalletTask txs, env_logs = []\<rparr>] else []) @ ?sends"
  have "concat (map (\<lambda>a. [f a]) xs) = map f xs" for f :: "addr_ptr \<Rightarrow> envelope" and xs by (induction xs) auto
  then have react: "react E c n e = Some (?n, ?out)"
    using step(1) e by (simp add: react_def handle_def block_envelope_def dispatch_def ptr_address_def Let_def comp_def)
  have fmt: "\<forall>a \<in> set (peer_addresses n). FmtAddr a \<noteq> None" using p by (simp add: sound_node_def)
  show thesis
  proof (rule that [OF react])
    show "block_stored E chain b ?n"
      using p step inputs_spent [of E "CoinDB (n_BlockChain n)" b]
      by (simp add: block_stored_def sound_node_def coindb_ok_def appendable_def)
    have "env_to ` {m \<in> set ?out. block_envelope b m} = env_to ` set ?sends"
      using fmt by (auto simp: block_envelope_def)
    then show "env_to ` {m \<in> set ?out. block_envelope b m} = set (peer_addresses n)"
      by (simp add: image_image peer_addresses_def)
    show "\<forall>m \<in> set ?out. block_envelope b m \<or> block_goroutine n m \<and> env_to m = env_to e"
      using fmt by (auto simp: block_envelope_def block_goroutine_def)
    show "length ?out \<le> length (peer_addresses n) + 2" by (simp add: peer_addresses_def)
  qed simp_all
qed

lemma react_stored:
  assumes stored: "block_stored E chain b n" and e: "block_envelope b e"
  obtains seen k where "react E c n e = Some (n\<lparr>SeenBlocks := seen, next_object := k\<rparr>, [])"
    and "block_stored E chain b (n\<lparr>SeenBlocks := seen, next_object := k\<rparr>)"
proof -
  have "CheckBlock E m (Some b) = Some False" if "n_BlockChain m = n_BlockChain n" for m :: "'a Node"
    using stored that by (simp add: CheckBlock_def block_stored_def ValidateBlock_eq)
  then have "\<exists>seen k ok. handle E c n (env_msg e) = Some (ok, n\<lparr>SeenBlocks := seen, next_object := k\<rparr>, [])"
    using e by (auto simp: handle_def ForwardBlock_def block_wire.decode_encode block_envelope_def Let_def case_prod_unfold)
  then obtain seen k ok where "handle E c n (env_msg e) = Some (ok, n\<lparr>SeenBlocks := seen, next_object := k\<rparr>, [])" by blast
  then have "react E c n e = Some (n\<lparr>SeenBlocks := seen, next_object := k\<rparr>, [])" by (simp add: react_def)
  then show thesis by (rule that) (use stored in \<open>simp add: block_stored_def sound_node_def\<close>)
qed

interpretation block_flood: flooding "react E" env_to "block_envelope b" block_goroutine "block_pending E chain b"
  "block_stored E chain b" peer_addresses "\<lambda>n. length (peer_addresses n) + 2"
  for E :: "('db, 'z) ext_scheme" and chain b
proof
  fix n :: "'db Node" and e c
  show False if "block_pending E chain b n" "block_stored E chain b n"
    using that by (simp add: block_pending_def block_stored_def appendable_def)
  show "\<exists>n' out. react E c n e = Some (n', out) \<and> block_stored E chain b n' \<and> peer_addresses n' = peer_addresses n \<and>
      block_goroutine n' = block_goroutine n \<and> length out \<le> length (peer_addresses n) + 2 \<and>
      env_to ` {m \<in> set out. block_envelope b m} = set (peer_addresses n) \<and>
      (\<forall>m \<in> set out. block_envelope b m \<or> block_goroutine n m \<and> env_to m = env_to e)"
    if "block_pending E chain b n" "block_envelope b e"
    by (rule react_pending [OF that, of c]) blast
  show "\<exists>n'. react E c n e = Some (n', []) \<and> block_stored E chain b n' \<and> peer_addresses n' = peer_addresses n \<and>
      block_goroutine n' = block_goroutine n"
    if "block_stored E chain b n" "block_envelope b e"
    by (rule react_stored [OF that, of c]) (metis peer_addresses_update(3) block_goroutine_update(3))
  show "\<exists>n'. react E c n e = Some (n', []) \<and> block_pending E chain b n' = block_pending E chain b n \<and>
      block_stored E chain b n' = block_stored E chain b n \<and> peer_addresses n' = peer_addresses n \<and>
      block_goroutine n' = block_goroutine n \<and> length (peer_addresses n') + 2 = length (peer_addresses n) + 2"
    if "block_pending E chain b n \<or> block_stored E chain b n" "block_goroutine n e"
  proof -
    have sound: "sound_node n" using that(1) by (auto simp: block_pending_def block_stored_def)
    show ?thesis
      by (rule react_goroutine [OF sound that(2), of E c])
        (use sound in \<open>simp_all add: block_pending_def block_stored_def\<close>)
  qed
qed

section \<open>The network\<close>

text \<open>
  Every process serves, its peers are processes, and it can append the block, or it has done so (as the node that mined the block)
  and its messages to its peers are under way. Nothing else is under way.
\<close>

definition flood_world :: "('db, 'z) ext_scheme \<Rightarrow> Block list \<Rightarrow> Block \<Rightarrow> 'db world \<Rightarrow> bool" where
  "flood_world E chain b w \<longleftrightarrow> finite (dom (hosts w)) \<and>
     (\<forall>k n. hosts w k = Some n \<longrightarrow> servers w k = Serving \<and> set (peer_addresses n) \<subseteq> dom (hosts w) \<and>
        (block_pending E chain b n \<or>
         block_stored E chain b n \<and> (\<forall>a \<in> set (peer_addresses n). \<exists>e \<in> set (inflight w). env_to e = a \<and> block_envelope b e))) \<and>
     (\<forall>e \<in> set (inflight w). env_to e \<in> dom (hosts w) \<and> block_envelope b e)"

definition peer_edge :: "'db world \<Rightarrow> string \<Rightarrow> string \<Rightarrow> bool" where
  "peer_edge w a b \<longleftrightarrow> (\<exists>n. hosts w a = Some n \<and> b \<in> set (peer_addresses n))"

abbreviation world_peers :: "'db world \<Rightarrow> string \<Rightarrow> string list" where
  "world_peers w k \<equiv> peer_addresses (the (hosts w k))"

text \<open>The invariant of the contract for the processes and peers of \<open>w0\<close>.\<close>

abbreviation spreading :: "('db, 'z) ext_scheme \<Rightarrow> Block list \<Rightarrow> Block \<Rightarrow> 'db world \<Rightarrow> 'db world \<Rightarrow> bool" where
  "spreading E chain b w0 w \<equiv> flooding.flood_inv env_to (block_envelope b) block_goroutine (block_pending E chain b)
     (block_stored E chain b) peer_addresses (\<lambda>n. length (peer_addresses n) + 2)
     (dom (hosts w0)) (world_peers w0) (\<lambda>k. block_goroutine (the (hosts w0 k))) (\<lambda>k. length (world_peers w0 k) + 2)
     (env_to ` set (inflight w0)) (hosts w, inflight w)"

abbreviation messages_left :: "('db, 'z) ext_scheme \<Rightarrow> Block list \<Rightarrow> Block \<Rightarrow> 'db world \<Rightarrow> 'db world \<Rightarrow> nat" where
  "messages_left E chain b w0 w \<equiv> flooding.to_do (block_pending E chain b) (dom (hosts w0))
     (\<lambda>k. length (world_peers w0 k) + 2) (hosts w, inflight w)"

definition world_ok :: "('db, 'z) ext_scheme \<Rightarrow> Block list \<Rightarrow> Block \<Rightarrow> 'db world \<Rightarrow> 'db world \<Rightarrow> bool" where
  "world_ok E chain b w0 w \<longleftrightarrow> dom (hosts w) = dom (hosts w0) \<and> (\<forall>k \<in> dom (hosts w). servers w k = Serving) \<and>
     spreading E chain b w0 w"

lemma flood_world_ok:
  assumes "flood_world E chain b w"
  shows "world_ok E chain b w w"
proof -
  have host: "servers w k = Serving" "set (peer_addresses n) \<subseteq> dom (hosts w)"
      "block_pending E chain b n \<or>
       block_stored E chain b n \<and> (\<forall>a \<in> set (peer_addresses n). \<exists>e \<in> set (inflight w). env_to e = a \<and> block_envelope b e)"
    if "hosts w k = Some n" for k n
    using assms that unfolding flood_world_def by blast+
  have msgs: "env_to e \<in> dom (hosts w) \<and> block_envelope b e" if "e \<in> set (inflight w)" for e
    using assms that by (simp add: flood_world_def)
  have "spreading E chain b w w"
    unfolding block_flood.flood_inv_def
  proof (intro conjI ballI allI impI)
    fix k assume "k \<in> dom (hosts w)"
    then obtain n where n: "hosts w k = Some n" by blast
    show "set (world_peers w k) \<subseteq> dom (hosts w)" using host(2) [OF n] n by simp
    show "\<exists>n. fst (hosts w, inflight w) k = Some n \<and> peer_addresses n = world_peers w k \<and>
        block_goroutine n = block_goroutine (the (hosts w k)) \<and>
        (block_pending E chain b n \<and> length (peer_addresses n) + 2 \<le> length (world_peers w k) + 2 \<or> block_stored E chain b n)"
      using host(3) [OF n] n by auto
  next
    fix k n t assume "k \<in> dom (hosts w)" and n: "fst (hosts w, inflight w) k = Some n" and st: "block_stored E chain b n"
      and t: "t \<in> set (world_peers w k)"
    have "\<not> block_pending E chain b n" using block_flood.exclusive [OF _ st] by blast
    then have "\<exists>e \<in> set (inflight w). env_to e = t \<and> block_envelope b e" using host(3) [of k n] n t by auto
    then show "flooding.reached env_to (block_envelope b) (block_stored E chain b) (hosts w, inflight w) t"
      by (auto simp: block_flood.reached_def)
  qed (use msgs in \<open>auto simp: block_flood.reached_def\<close>)
  then show ?thesis using host(1) by (auto simp: world_ok_def)
qed

text \<open>Nothing panics, so each step of the network is a step of the contract.\<close>

lemma world_sound:
  assumes ok: "world_ok E chain b w0 w" and n: "hosts w k = Some n"
  shows "sound_node n"
proof -
  have k: "k \<in> dom (hosts w0)" using ok n by (auto simp: world_ok_def)
  have "spreading E chain b w0 w" using ok by (simp add: world_ok_def)
  then have "block_pending E chain b n \<or> block_stored E chain b n"
    by (rule block_flood.flood_inv_process [OF _ k]) (simp add: n)
  then show ?thesis by (auto simp: block_pending_def block_stored_def)
qed

lemma world_envelope:
  assumes ok: "world_ok E chain b w0 w" and e: "e \<in> set (inflight w)"
  shows "reachable_host w e" and "\<forall>a \<in> set (env_logs e). FmtAddr a \<noteq> None"
proof -
  have "spreading E chain b w0 w" using ok by (simp add: world_ok_def)
  then have "env_to e \<in> dom (hosts w0) \<and> (block_envelope b e \<or> block_goroutine (the (hosts w0 (env_to e))) e)"
    by (rule block_flood.flood_inv_message) (simp add: e)
  then show "reachable_host w e" "\<forall>a \<in> set (env_logs e). FmtAddr a \<noteq> None"
    using ok by (auto simp: reachable_host_def world_ok_def block_envelope_def block_goroutine_def)
qed

lemma world_deliver:
  assumes ok: "world_ok E chain b w0 w" and w: "inflight w = xs @ e # ys" "hosts w (env_to e) = Some n"
    and "handle E c n (env_msg e) = Some (r, n', tasks)"
  defines "w' \<equiv> w\<lparr>hosts := (hosts w)(env_to e \<mapsto> n'), inflight := xs @ ys @ concat (map (dispatch n' e) tasks)\<rparr>"
  shows "flooding.flood_step (react E) env_to (hosts w, inflight w) (hosts w', inflight w')" and "world_ok E chain b w0 w'"
proof -
  have inv: "spreading E chain b w0 w" using ok by (simp add: world_ok_def)
  have "react E c n e = Some (n', concat (map (dispatch n' e) tasks))" using assms(4) by (simp add: react_def)
  then show step: "flooding.flood_step (react E) env_to (hosts w, inflight w) (hosts w', inflight w')"
    using block_flood.flood_stepI [of "(hosts w, inflight w)" xs e ys n E c] w by (simp add: w'_def)
  have "insert (env_to e) (dom (hosts w)) = dom (hosts w)" using w(2) by blast
  then show "world_ok E chain b w0 w'"
    using ok block_flood.flood_inv_step [OF inv step] by (auto simp: world_ok_def w'_def)
qed

lemma net_step_flood:
  assumes ok: "world_ok E chain b w0 w" and step: "net_step E w w'"
  shows "flooding.flood_step (react E) env_to (hosts w, inflight w) (hosts w', inflight w')" and "world_ok E chain b w0 w'"
proof -
  have inv: "spreading E chain b w0 w" using ok by (simp add: world_ok_def)
  have reacts: "handle E c n (env_msg e) \<noteq> None"
    if "inflight w = xs @ e # ys" "hosts w (env_to e) = Some n" for xs e ys c n
    using block_flood.flood_progress [OF inv, of xs e ys c] that by (auto simp: react_def)
  have quiet: "log_failure e printed ((hosts w)(env_to e \<mapsto> n')) = (hosts w)(env_to e \<mapsto> n')"
    if e: "inflight w = xs @ e # ys" "hosts w (env_to e) = Some n" "handle E c n (env_msg e) = Some (r, n', tasks)"
      and "may_print e printed" for xs e ys c n n' r tasks printed
  proof (rule log_failure_id)
    show "FmtAddr (n_Address m) \<noteq> None" if "((hosts w)(env_to e \<mapsto> n')) (env_from e) = Some m" for m
      using world_sound [OF world_deliver(2) [OF ok e], of "env_from e" m] that by (simp add: sound_node_def)
    show "FmtAddr a \<noteq> None" if "printed = Some a" for a
      using world_envelope(2) [OF ok, of e] that e(1) \<open>may_print e printed\<close> by (simp add: may_print_def)
  qed
  from step have "\<exists>xs e ys n c r n' tasks. inflight w = xs @ e # ys \<and> hosts w (env_to e) = Some n \<and>
      handle E c n (env_msg e) = Some (r, n', tasks) \<and>
      w' = w\<lparr>hosts := (hosts w)(env_to e \<mapsto> n'), inflight := xs @ ys @ concat (map (dispatch n' e) tasks)\<rparr>"
  proof cases
    case (net_deliver xs e ys n c n' tasks)
    then show ?thesis by blast
  next
    case (net_error xs e ys n c r n' tasks printed)
    then show ?thesis using quiet [OF net_error(2,4-6)] by metis
  next
    case (net_panic xs e ys n c printed)
    then show ?thesis using reacts [OF net_panic(2,4)] by simp
  next
    case (net_fail xs e ys printed)
    then show ?thesis using world_envelope(1) [OF ok, of e] by simp
  qed
  then show "flooding.flood_step (react E) env_to (hosts w, inflight w) (hosts w', inflight w')" "world_ok E chain b w0 w'"
    using world_deliver [OF ok] by blast+
qed

lemma net_steps_flood:
  assumes "world_ok E chain b w0 w" and "(net_step E ^^ m) w w'"
  shows "(flooding.flood_step (react E) env_to ^^ m) (hosts w, inflight w) (hosts w', inflight w') \<and> world_ok E chain b w0 w'"
  using assms(2)
proof (induction m arbitrary: w')
  case (Suc m)
  then obtain v where "(net_step E ^^ m) w v" "net_step E v w'" by auto
  then show ?case using Suc.IH net_step_flood [of E chain b w0 v w'] by auto
qed (simp add: assms(1))

text \<open>There is always a way to rest.\<close>

lemma world_rests:
  assumes "world_ok E chain b w0 w" and "finite (dom (hosts w0))"
  shows "\<exists>w'. (net_step E)\<^sup>*\<^sup>* w w' \<and> inflight w' = []"
  using assms(1)
proof (induction "messages_left E chain b w0 w" arbitrary: w rule: less_induct)
  case less
  have inv: "spreading E chain b w0 w" using less.prems by (simp add: world_ok_def)
  show ?case
  proof (cases "inflight w")
    case (Cons e ys)
    then obtain w1 where step: "net_step E w w1" using net_progress [of w "[]" e ys] by auto
    note w1 = net_step_flood [OF less.prems step]
    have "messages_left E chain b w0 w1 < messages_left E chain b w0 w"
      by (rule block_flood.to_do_step [OF inv w1(1) assms(2)])
    then obtain w' where "(net_step E)\<^sup>*\<^sup>* w1 w'" "inflight w' = []" using less.hyps w1(2) by blast
    then show ?thesis using step by (metis converse_rtranclp_into_rtranclp)
  qed blast
qed

text \<open>
  C10: A block that extends the chain of every process and spends a coin comes to rest. Whatever the order in which calls and goroutines are served,
  and whatever callers print, an exchange that starts with \<open>m\<close> messages takes at most \<open>m\<close> steps and, for each process, as many as
  it has peers and two more; no process stops.
\<close>

theorem block_flood_terminates:
  assumes "flood_world E chain b w" and "(net_step E ^^ m) w w'"
  shows "m + length (inflight w') \<le> length (inflight w) + (\<Sum>k \<in> dom (hosts w). length (peer_addresses (the (hosts w k))) + 2) \<and>
    dom (hosts w') = dom (hosts w)"
proof -
  have fin: "finite (dom (hosts w))" using assms(1) by (simp add: flood_world_def)
  have ok: "world_ok E chain b w w" by (rule flood_world_ok [OF assms(1)])
  then have inv: "spreading E chain b w w" by (simp add: world_ok_def)
  have run: "(flooding.flood_step (react E) env_to ^^ m) (hosts w, inflight w) (hosts w', inflight w')" "world_ok E chain b w w'"
    using net_steps_flood [OF ok assms(2)] by simp_all
  have "m + messages_left E chain b w w' \<le> messages_left E chain b w w"
    using block_flood.flood_bound [OF run(1) inv fin] by simp
  moreover have "length (inflight w') \<le> messages_left E chain b w w'" by (simp add: block_flood.to_do_def)
  moreover have "messages_left E chain b w w \<le> length (inflight w) + (\<Sum>k \<in> dom (hosts w). length (world_peers w k) + 2)"
    unfolding block_flood.to_do_def snd_conv using fin by (intro add_left_mono sum_mono2) auto
  ultimately show ?thesis using run(2) by (simp add: world_ok_def)
qed

text \<open>
  C3: When nothing is under way any more, every process that a receiver of the first messages leads to through peers stands for the
  chain with the block: the network agrees on it.
\<close>

theorem block_flood_reaches_all:
  assumes "flood_world E chain b w" and "(net_step E)\<^sup>*\<^sup>* w w'" and "inflight w' = []"
    and "e \<in> set (inflight w)" and "(peer_edge w)\<^sup>*\<^sup>* (env_to e) k"
  shows "\<exists>n. hosts w' k = Some n \<and> represents E (n_BlockChain n) (n_disk n) (chain @ [b])"
proof -
  have ok: "world_ok E chain b w w" by (rule flood_world_ok [OF assms(1)])
  obtain m where "(net_step E ^^ m) w w'" using assms(2) by (auto dest: rtranclp_imp_relpowp)
  then have inv: "spreading E chain b w w'" using net_steps_flood [OF ok] by (simp add: world_ok_def)
  have path: "(\<lambda>a t. t \<in> set (world_peers w a))\<^sup>*\<^sup>* (env_to e) k"
    using assms(5) by (rule rtranclp_mono [THEN predicate2D, rotated]) (auto simp: peer_edge_def)
  have "env_to ` set (inflight w) \<subseteq> dom (hosts w)" using assms(1) by (auto simp: flood_world_def)
  then have "\<exists>n. fst (hosts w', inflight w') k = Some n \<and> block_stored E chain b n"
    using block_flood.flood_complete [OF inv _ _ _ path] assms(3,4) by simp
  then show ?thesis by (auto simp: block_stored_def)
qed

end
