(* ===== verification/Net_Bootstrap.thy ===== *)
theory Net_Bootstrap
  imports Node_Sync Rpc_Client
begin

text \<open>
  \<open>Bootstrap\<close> of \<open>src/pkg/node.go\<close> over the client of \<open>src/pkg/address/client.go\<close>: the peers are called with a limit of two
  seconds, and their answers come in any order.
\<close>

section \<open>Remote calls of \<open>Bootstrap\<close>\<close>

text \<open>The peers in the order in which their answers arrive.\<close>

definition rpc_responses :: "transport \<Rightarrow> 'db Node \<Rightarrow> addr_ptr list \<Rightarrow> (addr_ptr \<times> string list option) list" where
  "rpc_responses T n order =
     map (\<lambda>p. (p, answer (GetBlocksRPC T (addr_store (n_net n) ! p) (LastHash (n_BlockChain n))))) order"

definition rpc_Bootstrap ::
  "('db, 'z) ext_scheme \<Rightarrow> transport \<Rightarrow> addr_ptr list \<Rightarrow> 'db Node \<Rightarrow> (node_error + 'db Node) option" where
  "rpc_Bootstrap E T order n =
     Bootstrap E (rpc_responses T n order) (\<lambda>a h. answer (GetDataRPC T (addr_store (n_net n) ! a) h)) n"

section \<open>Peers that answer and peers that do not\<close>

text \<open>A node behind an address: calls are connected and reach its handlers in time.\<close>

definition delivers :: "('db, 'z) ext_scheme \<Rightarrow> transport \<Rightarrow> string \<Rightarrow> 'db Node \<Rightarrow> bool" where
  "delivers E T addr m \<longleftrightarrow> grpc_Dial T addr \<and>
     (\<forall>h. \<exists>t < RPCTimeout. coin_GetBlocks T addr h =
        (t, case Node_GetBlocks E m h of None \<Rightarrow> Inl HandlerError | Some hs \<Rightarrow> Inr hs)) \<and>
     (\<forall>h. \<exists>t < RPCTimeout. coin_GetData T addr h = (t, Inr (GetData E m h)))"

text \<open>Nobody behind an address, or one that is too slow.\<close>

definition silent :: "transport \<Rightarrow> string \<Rightarrow> bool" where
  "silent T addr \<longleftrightarrow> \<not> grpc_Dial T addr \<or> (\<forall>h. fst (coin_GetBlocks T addr h) \<ge> RPCTimeout)"

lemma answer_silent:
  assumes "silent T (a_Addr a)"
  shows "answer (GetBlocksRPC T a h) = None"
  using assms
  by (cases "coin_GetBlocks T (a_Addr a) h")
    (auto simp: silent_def GetBlocksRPC_def GetConnection_def connectToServer_def unary_def clientUnaryInterceptor_def
      dest: spec [of _ h])

lemma answer_delivers:
  assumes "delivers E T (a_Addr a) m"
  shows "answer (GetBlocksRPC T a h) = Node_GetBlocks E m h" and "answer (GetDataRPC T a h) = Some (GetData E m h)"
proof -
  obtain t u where t: "t < RPCTimeout" "coin_GetBlocks T (a_Addr a) h =
      (t, case Node_GetBlocks E m h of None \<Rightarrow> Inl HandlerError | Some hs \<Rightarrow> Inr hs)"
    and u: "u < RPCTimeout" "coin_GetData T (a_Addr a) h = (u, Inr (GetData E m h))"
    using assms unfolding delivers_def by metis
  have "GetConnection T a = Inr (a_Addr a)" using assms by (simp add: delivers_def GetConnection_def connectToServer_def)
  then show "answer (GetBlocksRPC T a h) = Node_GetBlocks E m h" "answer (GetDataRPC T a h) = Some (GetData E m h)"
    using unary_in_time [of "coin_GetBlocks T", OF t(2,1)] unary_in_time [of "coin_GetData T", OF u(2,1)]
    by (auto simp: GetBlocksRPC_def GetDataRPC_def split: option.split)
qed

text \<open>
  C5: One good peer is enough. A node with several peers, one of which serves a chain that extends the node's own while the others
  cannot be reached or take longer than the limit, catches up with that peer by \<open>Bootstrap\<close>, in whatever order the calls end.
\<close>

theorem bootstrap_over_rpc:
  assumes "represents E (n_BlockChain n) (n_disk n) chain" and "coindb_ok E (CoinDB (n_BlockChain n))"
    and "represents E (n_BlockChain m) (n_disk m) (chain @ bs)" and "length (chain @ bs) + 500 < 2 ^ 32"
    and "extendable E (n_BlockChain n) (n_disk n) (take 500 bs)"
    and "set order = set (peer_addrs n)" and "a \<in> set order" and "delivers E T (a_Addr (addr_store (n_net n) ! a)) m"
    and "\<forall>p \<in> set order. p \<noteq> a \<longrightarrow> silent T (a_Addr (addr_store (n_net n) ! p))"
  shows "\<exists>n'. rpc_Bootstrap E T order n = Some (Inr n') \<and>
    represents E (n_BlockChain n') (n_disk n') (chain @ take 500 bs) \<and> coindb_ok E (CoinDB (n_BlockChain n')) \<and>
    utxo E (CoinDB (n_BlockChain n')) =
      foldl (apply_block E) (utxo E (CoinDB (n_BlockChain n))) (map Transactions (take 500 bs))"
proof -
  have ne: "chain \<noteq> []" and tip: "LastHash (n_BlockChain n) = Block_Hash E ((chain @ bs) ! (length chain - 1))"
    using assms(1) by (auto simp: represents_def last_conv_nth nth_append)
  obtain hs where hs: "Node_GetBlocks E m (LastHash (n_BlockChain n)) = Some hs"
    unfolding tip using Node_GetBlocks_eq [OF assms(3) _ assms(4), of "length chain - 1"] ne by (cases chain) auto
  note ans = answer_delivers [OF assms(8)]
  have resp: "(a, Some hs) \<in> set (rpc_responses T n order)"
    using assms(7) ans(1) hs by (force simp: rpc_responses_def)
  have others: "\<forall>(p, r) \<in> set (rpc_responses T n order). (p, r) = (a, Some hs) \<or> r = None \<or> (\<exists>ks. r = Some ks \<and> length ks < length hs)"
    using assms(9) ans(1) hs answer_silent by (fastforce simp: rpc_responses_def)
  have peers: "peer_addrs n \<noteq> []" using assms(6,7) by auto
  show ?thesis
    unfolding rpc_Bootstrap_def by (rule Bootstrap_extends [OF assms(1-5) peers hs resp others]) (simp add: ans(2))
qed

end
