(* ===== verification/Node_Tasks.thy ===== *)
theory Node_Tasks
  imports Network Node_Machine
begin

text \<open>
  The tasks that the handlers and the loop of a node start: the pointers they carry are those of live peers.
\<close>

section \<open>Pointers of tasks\<close>

definition task_peer :: "node_task \<Rightarrow> addr_ptr option" where
  "task_peer t =
     (case t of
        ForwardTransactionTo p _ \<Rightarrow> Some p
      | ForwardBlockTo p _ \<Rightarrow> Some p
      | SendAddressesTo p _ \<Rightarrow> Some p
      | _ \<Rightarrow> None)"

definition tasks_to_peers :: "'db Node \<Rightarrow> node_task list \<Rightarrow> bool" where
  "tasks_to_peers n tasks \<longleftrightarrow> (\<forall>t \<in> set tasks. \<forall>p. task_peer t = Some p \<longrightarrow> p \<in> set (peer_addrs n))"

lemma tasks_to_peers_simps [simp]:
  "tasks_to_peers n []" "tasks_to_peers n (t # ts) \<longleftrightarrow> (\<forall>p. task_peer t = Some p \<longrightarrow> p \<in> set (peer_addrs n)) \<and> tasks_to_peers n ts"
  "tasks_to_peers n (ts @ us) \<longleftrightarrow> tasks_to_peers n ts \<and> tasks_to_peers n us"
  by (auto simp: tasks_to_peers_def)

lemma tasks_to_peers_map:
  "(\<And>p. p \<in> set ps \<Longrightarrow> \<forall>q. task_peer (f p) = Some q \<longrightarrow> q \<in> set (peer_addrs n)) \<Longrightarrow> tasks_to_peers n (map f ps)"
  by (auto simp: tasks_to_peers_def)

lemma learn_address_tasks:
  "tasks_to_peers m (snd (snd st)) \<Longrightarrow> tasks_to_peers m (snd (snd (foldl learn_address st addrs)))"
  by (induction addrs arbitrary: st) (auto simp: learn_address_def Let_def case_prod_unfold task_peer_def)

lemma pdb_GetRandom_subset: "pdb_GetRandom shuffle pdb k ex = Some ps \<Longrightarrow> set ps \<subseteq> set (pdb_List pdb)"
proof -
  have *: "set ps \<subseteq> snd ` set m" if "those (map (map_of m) ks) = Some ps" for m :: "(string \<times> Peer) list" and ks ps
    using that
  proof (induction ks arbitrary: ps)
    case (Cons k ks)
    then obtain p qs where "map_of m k = Some p" "those (map (map_of m) ks) = Some qs" "ps = p # qs"
      by (auto split: option.splits)
    then show ?case using Cons.IH [of qs] map_of_SomeD [of m k p] by force
  qed simp
  show "pdb_GetRandom shuffle pdb k ex = Some ps \<Longrightarrow> set ps \<subseteq> set (pdb_List pdb)"
    using * [of "peers pdb"] by (auto simp: pdb_GetRandom_def pdb_List_def pdb_Get_def [abs_def] Let_def split: if_splits)
qed

lemma SendAddresses_tasks:
  assumes "SendAddresses shuffle n addrs = Some (n', tasks)"
  shows "tasks_to_peers n' tasks"
proof -
  obtain m f ts where l: "foldl learn_address (n, False, []) addrs = (m, f, ts)" by (metis prod_cases3)
  have ts: "tasks_to_peers m ts" using learn_address_tasks [of m "(n, False, [])" addrs] by (simp add: l)
  show ?thesis
  proof (cases f)
    case True
    then obtain ps where ps: "pdb_GetRandom shuffle (PeerDb (n_net m)) 2 [n_Address m] = Some ps"
      and r: "n' = m" "tasks = ts @ map (\<lambda>p. SendAddressesTo (p_Addr p) addrs) ps"
      using assms by (auto simp: SendAddresses_def l)
    have "p_Addr p \<in> set (peer_addrs m)" if "p \<in> set ps" for p
      using pdb_GetRandom_subset [OF ps] that by (simp add: peer_addrs_def subset_iff)
    then show ?thesis using ts by (auto simp: r task_peer_def intro!: tasks_to_peers_map)
  qed (use assms ts in \<open>simp add: SendAddresses_def l\<close>)
qed

lemma ForwardTransaction_tasks:
  assumes "ForwardTransaction E rpc reply n msg = Some (r, n', tasks)"
  shows "tasks_to_peers n' tasks"
  using assms
  by (auto simp: ForwardTransaction_def Let_def bind_eq_Some_conv peer_addrs_def task_peer_def
      intro!: tasks_to_peers_map split: option.splits sum.splits if_splits)

lemma ForwardBlock_tasks:
  assumes "ForwardBlock E n pb = Some (r, n', tasks)"
  shows "tasks_to_peers n' tasks"
  using assms
  by (auto simp: ForwardBlock_def Let_def case_prod_unfold bind_eq_Some_conv peer_addrs_def task_peer_def
      intro!: tasks_to_peers_map split: if_splits)

lemma handle_tasks:
  assumes "handle E c n m = Some (ok, n', tasks)"
  shows "tasks_to_peers n' tasks"
  using assms
  by (cases m) (auto simp: handle_def bind_eq_Some_conv Node_Version_def task_peer_def Let_def case_prod_unfold
      dest: SendAddresses_tasks ForwardTransaction_tasks ForwardBlock_tasks split: if_splits)

lemma node_handles_tasks:
  assumes "node_handles E n ev = Some (n', tasks)"
  shows "tasks_to_peers n' tasks"
  using assms
  by (cases ev) (auto simp: node_handles_def BroadcastTransaction_def HandleMinerBlock_def Let_def bind_eq_Some_conv
      peer_addrs_def task_peer_def intro!: tasks_to_peers_map)

section \<open>Pointers of peers\<close>

definition peers_distinct :: "'db Node \<Rightarrow> bool" where
  "peers_distinct n \<longleftrightarrow> distinct (map fst (peers (PeerDb (n_net n))))"

lemma accept_version_distinct:
  assumes "distinct (map fst (peers (PeerDb net)))"
  shows "distinct (map fst (peers (PeerDb (snd (accept_version timeout clock net req)))))"
proof -
  have "PeerDb net' = PeerDb net" if "known_address net a t = Some net'" for net' a t
    using that by (auto simp: known_address_def alloc_def Let_def split: if_splits prod.splits sum.splits)
  then show ?thesis
    using assms
    by (auto simp: accept_version_def Let_def pdb_Add_def case_prod_unfold distinct_update split: option.split)
qed

lemma foldl_learn_peers: "PeerDb (n_net (fst (foldl learn_address st addrs))) = PeerDb (n_net (fst st))"
proof (induction addrs arbitrary: st)
  case (Cons a addrs)
  have "PeerDb (n_net (fst (learn_address st a))) = PeerDb (n_net (fst st))"
    by (auto simp: learn_address_def alloc_def Let_def case_prod_unfold split: option.splits sum.splits)
  then show ?case using Cons.IH by simp
qed simp

lemma node_move_distinct:
  assumes "node_move E n n'" and "peers_distinct n"
  shows "peers_distinct n'"
  using assms
proof cases
  case (move_version clock req tasks)
  then show ?thesis
    using accept_version_distinct [of "n_net n" "VersionTimeout (n_Config n)" clock req] assms(2)
    by (auto simp: Node_Version_def peers_distinct_def Let_def case_prod_unfold split: if_splits)
next
  case (move_addresses shuffle addrs tasks)
  then show ?thesis
    using foldl_learn_peers [of "(n, False, [])" addrs] assms(2)
    by (auto simp: SendAddresses_def peers_distinct_def case_prod_unfold Let_def split: if_splits)
qed (use assms(2) in \<open>auto simp: peers_distinct_def Node_Start_def Let_def pdb_SetAddr_def peerCheck_def Node_GetBalance_def
    Node_StartMiner_def node_step_iff node_handles_keeps(1) bind_eq_Some_conv case_prod_unfold
    dest: ForwardTransaction_keeps ForwardBlock_keeps Bootstrap_keeps(2) split: if_splits\<close>)

interpretation peer_pointers: state_machine "new_node E" "node_move E" peers_distinct
  for E :: "('db, 'z) ext_scheme"
  by unfold_locales (simp add: peers_distinct_def Node_New_parts net_New_def peer_NewDb_def, rule node_move_distinct)

lemma handle_node:
  assumes "handle E c n m = Some (ok, n', tasks)"
  shows "n_net n' = n_net n \<or> node_move E n n'"
  using assms
  by (cases m) (auto simp: handle_def bind_eq_Some_conv intro: node_move.intros)

text \<open>
  C19: Tasks are well typed. Whatever a running node is asked by the network or its own loop, every task it starts for a peer carries
  a pointer into its store of addresses, to the object that its address database holds under that object's address.
\<close>

theorem node_tasks_well_typed:
  assumes "new_node E n" and "(node_move E)\<^sup>*\<^sup>* n n1"
    and "handle E c n1 m = Some (ok, n2, tasks) \<or> node_step E n1 ev tasks n2"
    and "t \<in> set tasks" and "task_peer t = Some p"
  shows "p < length (addr_store (n_net n2)) \<and> adb_Get (AddressDB (n_net n2)) (ptr_address n2 p) = Some p \<and>
    pdb_Get (PeerDb (n_net n2)) (ptr_address n2 p) \<noteq> None"
proof -
  have "n_net n2 = n_net n1 \<or> node_move E n1 n2"
    using assms(3) handle_node [of E c n1 m ok n2 tasks] by (auto intro: move_loop)
  then have net: "network_ok (n_net n2)" "peers_distinct n2"
    using network.invariant [OF assms(1)] peer_pointers.invariant [OF assms(1)] assms(2)
    by (metis rtranclp.rtrancl_into_rtrancl peers_distinct_def)+
  have "tasks_to_peers n2 tasks"
    using assms(3) handle_tasks [of E c n1 m ok n2 tasks] node_handles_tasks [of E n1 ev n2 tasks] by (auto simp: node_step_iff)
  then have "p \<in> set (peer_addrs n2)" using assms(4,5) by (auto simp: tasks_to_peers_def)
  then obtain k q where "(k, q) \<in> set (peers (PeerDb (n_net n2)))" "p = p_Addr q" by (auto simp: peer_addrs_def pdb_List_def)
  then have q: "map_of (peers (PeerDb (n_net n2))) k = Some q" "p = p_Addr q"
    using net(2) by (auto simp: peers_distinct_def)
  then have "map_of (addresses (AddressDB (n_net n2))) k = Some p" using net(1) by (auto simp: network_ok_def net_ok_def)
  moreover from this have "p < length (addr_store (n_net n2))" "ptr_address n2 p = k"
    using net(1) by (auto simp: network_ok_def net_ok_def ptr_address_def)
  ultimately show ?thesis using q by (simp add: adb_Get_def pdb_Get_def)
qed

end
