(* ===== verification/Node_Relay.thy ===== *)
theory Node_Relay
  imports Node
begin

text \<open>
  Transactions on the network: \<open>BroadcastTransaction\<close> of \<open>src/pkg/node.go\<close>, and \<open>ForwardTransaction\<close> and
  \<open>GetWitnesses\<close> of \<open>server.go\<close>.
\<close>

section \<open>Witnesses\<close>

lemma decode_stripped: "DecodeTransaction (Some ((EncodeTransaction t)\<lparr>pt_Witnesses := []\<rparr>)) = t\<lparr>Witnesses := []\<rparr>"
proof -
  have "(EncodeTransaction t)\<lparr>pt_Witnesses := []\<rparr> = EncodeTransaction (t\<lparr>Witnesses := []\<rparr>)"
    by (simp add: EncodeTransaction_def)
  then show ?thesis by (simp add: transaction_wire.decode_encode)
qed

text \<open>What a peer answers to \<open>GetWitnessesRPC\<close>.\<close>

definition serve_witnesses :: "('db, 'z) ext_scheme \<Rightarrow> 'db Node \<Rightarrow> pro_Transaction option \<Rightarrow> bytes list option" where
  "serve_witnesses E n ptx = (case GetWitnesses E n ptx of Inl _ \<Rightarrow> None | Inr ws \<Rightarrow> Some ws)"

lemma serve_witnesses_broadcast:
  assumes "BroadcastTransaction E n tx = (n', tasks)"
  shows "serve_witnesses E n' (Some ((EncodeTransaction tx)\<lparr>pt_Witnesses := []\<rparr>)) = Some (Witnesses tx)"
  using assms
  by (auto simp: serve_witnesses_def GetWitnesses_def BroadcastTransaction_def decode_stripped update_conv')

lemma theirTx_eq: "fst (DecodeTransactionWithAddress msg) = DecodeTransaction (pta_Transaction msg)"
  by (simp add: DecodeTransactionWithAddress_def DecodeTransaction_def Let_def)

text \<open>Handling a transaction that was noted: one message to every peer, with the transaction as it arrived.\<close>

definition forwards :: "'db Node \<Rightarrow> Transaction \<Rightarrow> node_task list" where
  "forwards n t = map (\<lambda>a. ForwardTransactionTo a \<lparr>pta_Transaction = Some (EncodeTransaction t), pta_Address = n_Address n\<rparr>)
     (peer_addrs n)"

lemma ForwardTransaction_noted:
  assumes "note_transaction E rpc n msg = Some (Inr n')" and "\<not> HasMiner (MinerConfig (n_Config n'))"
  shows "ForwardTransaction E rpc reply n msg = Some (Inr (), n', forwards n' (DecodeTransaction (pta_Transaction msg)))"
  using assms by (simp add: ForwardTransaction_def CheckTransaction_def forwards_def theirTx_eq Let_def)

lemma ForwardTransaction_noted_miner:
  assumes "note_transaction E rpc n msg = Some (Inr n')" and "HasMiner (MinerConfig (n_Config n'))" and "n_Miner n' = Some m"
    and "HandleTransaction m reply (Some (DecodeTransaction (pta_Transaction msg))) = Some (m', ev)"
  shows "ForwardTransaction E rpc reply n msg =
    Some (Inr (), n'\<lparr>n_Miner := Some m'\<rparr>, forwards n' (DecodeTransaction (pta_Transaction msg)))"
  using assms by (simp add: ForwardTransaction_def CheckTransaction_def forwards_def theirTx_eq Let_def)

text \<open>
  C38: Relay of a segwit transaction. A node broadcasts a transaction; a node that receives the message,
  knows the address of the sender and asks it for the witnesses stores the complete transaction
  under its hash, with its witnesses and count 1. What it hands to its miner and to its peers is the transaction without
  witnesses. The receiver has no miner or one that is not active; with an active miner the handler never gets to the peers.
\<close>

theorem segwit_relay:
  assumes "BroadcastTransaction E a tx = (a', tasks)" and "ForwardTransactionTo p msg \<in> set tasks" and "Segwit tx"
    and "map_of (SeenTransactions b) (Transaction_Hash E tx) = None"
    and "adb_Get (AddressDB (n_net b)) (n_Address a) = Some q"
    and "\<And>ptx. rpc q ptx = serve_witnesses E a' ptx"
    and "HasMiner (MinerConfig (n_Config b)) \<Longrightarrow>
      n_Miner b = Some m \<and> \<not> Active m \<and> HandleTransaction m reply (Some (tx\<lparr>Witnesses := []\<rparr>)) = Some (m', ev)"
  shows "\<exists>b'. ForwardTransaction E rpc reply b msg = Some (Inr (), b', forwards b (tx\<lparr>Witnesses := []\<rparr>)) \<and>
    map_of (SeenTransactions b') (Transaction_Hash E tx) = Some \<lparr>tc_Transaction = tx, tc_Count = 1\<rparr> \<and>
    n_Miner b' = (if HasMiner (MinerConfig (n_Config b)) then Some m' else n_Miner b)"
proof -
  have msg: "msg = \<lparr>pta_Transaction = Some ((EncodeTransaction tx)\<lparr>pt_Witnesses := []\<rparr>), pta_Address = n_Address a\<rparr>"
    using assms(1,2) by (auto simp: BroadcastTransaction_def split: if_splits)
  let ?b = "b\<lparr>SeenTransactions := AList.update (Transaction_Hash E tx) \<lparr>tc_Transaction = tx, tc_Count = 1\<rparr> (SeenTransactions b)\<rparr>"
  have noted: "note_transaction E rpc b msg = Some (Inr ?b)"
    using serve_witnesses_broadcast [OF assms(1)] assms(3-6)
    by (simp add: note_transaction_def msg decode_stripped Let_def)
  show ?thesis
    using ForwardTransaction_noted [OF noted, of reply] ForwardTransaction_noted_miner [OF noted, of m reply m' ev] assms(7)
    by (cases "HasMiner (MinerConfig (n_Config b))")
      (auto simp: msg decode_stripped forwards_def peer_addrs_def update_conv')
qed

section \<open>Circulation\<close>

text \<open>Two nodes hand a message to each other \<open>k\<close> times.\<close>

fun circulates ::
  "('db, 'z) ext_scheme \<Rightarrow> (addr_ptr \<Rightarrow> pro_Transaction option \<Rightarrow> bytes list option) \<Rightarrow> nat \<Rightarrow> 'db Node \<Rightarrow> 'db Node \<Rightarrow>
   pro_TransactionWithAddress \<Rightarrow> bool" where
  "circulates E rpc 0 a b msg \<longleftrightarrow> True"
| "circulates E rpc (Suc k) a b msg \<longleftrightarrow>
     (\<exists>a' tasks p msg'. ForwardTransaction E rpc None a msg = Some (Inr (), a', tasks) \<and>
        ForwardTransactionTo p msg' \<in> set tasks \<and> a_Addr (addr_store (n_net a) ! p) = n_Address b \<and>
        circulates E rpc k b a' msg')"

definition knows_peer :: "'db Node \<Rightarrow> string \<Rightarrow> bool" where
  "knows_peer a addr \<longleftrightarrow> (\<exists>p \<in> set (peer_addrs a). a_Addr (addr_store (n_net a) ! p) = addr)"

lemma note_plain:
  assumes "\<not> Segwit (DecodeTransaction (pta_Transaction msg))"
  shows "\<exists>seen. note_transaction E rpc n msg = Some (Inr (n\<lparr>SeenTransactions := seen\<rparr>))"
proof (cases "map_of (SeenTransactions n) (Transaction_Hash E (DecodeTransaction (pta_Transaction msg)))")
  case None
  then show ?thesis
    using assms by (simp add: note_transaction_def) (metis (no_types))
next
  case (Some tc)
  then show ?thesis by (simp add: note_transaction_def) (metis (no_types))
qed

text \<open>
  Counting a transaction does not stop its propagation: between two peers without miners, a
  transaction without segwit is sent back and forth for ever, however often both have seen it.
\<close>

theorem transactions_circulate:
  assumes "\<not> HasMiner (MinerConfig (n_Config a))" and "\<not> HasMiner (MinerConfig (n_Config b))"
    and "knows_peer a (n_Address b)" and "knows_peer b (n_Address a)"
    and "\<not> Segwit (DecodeTransaction (pta_Transaction msg))"
  shows "circulates E rpc k a b msg"
  using assms
proof (induction k arbitrary: a b msg)
  case (Suc k)
  let ?t = "DecodeTransaction (pta_Transaction msg)"
  obtain seen where noted: "note_transaction E rpc a msg = Some (Inr (a\<lparr>SeenTransactions := seen\<rparr>))"
    using note_plain [OF Suc.prems(5)] by blast
  let ?a = "a\<lparr>SeenTransactions := seen\<rparr>"
  let ?msg = "\<lparr>pta_Transaction = Some (EncodeTransaction ?t), pta_Address = n_Address a\<rparr>"
  have step: "ForwardTransaction E rpc None a msg = Some (Inr (), ?a, forwards ?a ?t)"
    using ForwardTransaction_noted [OF noted] Suc.prems(1) by simp
  obtain p where p: "p \<in> set (peer_addrs a)" "a_Addr (addr_store (n_net a) ! p) = n_Address b"
    using Suc.prems(3) by (auto simp: knows_peer_def)
  have "circulates E rpc k b ?a ?msg"
    by (rule Suc.IH) (use Suc.prems in \<open>simp_all add: knows_peer_def peer_addrs_def transaction_wire.decode_encode\<close>)
  moreover have "ForwardTransactionTo p ?msg \<in> set (forwards ?a ?t)"
    using p(1) by (auto simp: forwards_def peer_addrs_def)
  ultimately show ?case using step p(2) by auto
qed simp

end
