(* ===== verification/Chain_Instances.thy ===== *)
theory Chain_Instances
  imports Active_Chain
begin

text \<open>
  Instances of the properties of \<open>src/pkg/blockchain\<close>: a chain of one stored block on the
  reference libraries, with a fresh chain writer.
\<close>

lemma ref_Block_Hash_eq: "Block_Hash ref_ext b = Block_Hash ref_ext b' \<longleftrightarrow> b_Header b = b_Header b'"
  using inj_eq [OF ref_ext_header_inj, of "EncodeHeader (b_Header b)" "EncodeHeader (b_Header b')"]
  by (simp add: Block_Hash_def header_wire.encode_inj)

lemma length_ref_Block_Hash:
  "length (Block_Hash ref_ext b) = 2 * (15 + 2 * length (h_PreviousHash (b_Header b)) +
     2 * length (h_MerkleRoot (b_Header b)) + 2 * length (h_DifficultyTarget (b_Header b)))"
  by (simp add: Block_Hash_def ref_ext_def enc_Header_def EncodeHeader_def)

lemma ref_Block_Hash_longer: "length (Block_Hash ref_ext b) > 2"
  unfolding length_ref_Block_Hash by simp

definition sample_bytes :: bytes where
  "sample_bytes = fst (marshal_Block ref_ext (EncodeBlock sample_block))"

definition sample_disk :: disk where
  "sample_disk = writeToDisk (\<lambda>_. None) ''f'' sample_bytes"

definition sample_br :: BlockRecord where
  "sample_br = \<lparr>br_Header = b_Header sample_block, br_Height = 1, br_NumberOfTransactions = 0, br_BlockFile = ''f'',
     br_BlockStartOffset = 0, br_BlockEndOffset = word_of_nat (length sample_bytes), br_UndoFile = [],
     br_UndoStartOffset = 0, br_UndoEndOffset = 0\<rparr>"

abbreviation g_hash :: string where "g_hash \<equiv> Block_Hash ref_ext sample_block"

definition sample_infodb :: "(bytes \<times> bytes) list BlockInfoDatabase" where
  "sample_infodb = StoreBlockRecord ref_ext (BlockInfoDatabase_New (leveldb_empty ref_ext)) g_hash sample_br"

definition sample_bc :: "(bytes \<times> bytes) list BlockChain" where
  "sample_bc = \<lparr>bc_Address = [], Length = 1, LastBlock = sample_block, LastHash = g_hash, UnsafeHashes = [g_hash],
     maxHashes = 6, BlockInfoDB = sample_infodb, bc_ChainWriter = sample_cw, CoinDB = sample_db0\<rparr>"

lemma sample_bytes_length: "length sample_bytes < 2 ^ 32"
  by (simp add: sample_bytes_def ref_ext_def enc_Block_def EncodeBlock_def EncodeHeader_def enc_Header_def
      sample_block_def enc_opt_def enc_list_def)

lemma sample_br_ascii: "ascii_record sample_br"
  by (simp add: ascii_record_def ascii_BlockRecord_def EncodeBlockRecord_def sample_br_def ascii_Header_def
      EncodeHeader_def sample_block_def)

lemma ascii_sample_block: "ascii_Block (EncodeBlock sample_block)"
  by (simp add: ascii_Block_def EncodeBlock_def sample_block_def ascii_Header_def EncodeHeader_def)

lemma sample_read: "ReadBlock ref_ext sample_disk (block_info sample_br) = Some sample_block"
proof -
  have "readFromDisk sample_disk (block_info sample_br) = Some sample_bytes"
    using read_own_write [of "\<lambda>_. None" "''f''" 0 sample_bytes] sample_bytes_length
    by (simp add: sample_disk_def block_info_def sample_br_def file_size_def)
  then show ?thesis
    using unmarshal_marshal_Block [OF ref_ext_proto ascii_sample_block]
    by (simp add: ReadBlock_def sample_bytes_def block_wire.decode_encode)
qed

lemma sample_cw_disk: "cw_ok sample_cw sample_disk" "ascii_files sample_cw"
  by (simp_all add: cw_ok_def log_ok_def sample_cw_def fresh_ChainWriter_def cw_DefaultConfig_def sample_disk_def
      writeToDisk_def file_size_def block_file_def undo_file_def ascii_files_def)

lemma sample_record_get:
  "GetBlockRecord ref_ext sample_infodb h = (if h = g_hash then sample_br else DecodeBlockRecord zero_BlockRecord)"
  by (simp add: sample_infodb_def GetBlockRecord_Store [OF ref_ext_leveldb ref_ext_proto sample_br_ascii]
      GetBlockRecord_missing [OF ref_ext_proto] BlockInfoDatabase_New_def leveldb_Get_empty [OF ref_ext_leveldb])

lemma sample_stored:
  assumes "GetBlockRecord ref_ext db g_hash = sample_br"
  shows "stored ref_ext db sample_disk 1 sample_block"
  using assms sample_read by (simp add: stored_def sample_br_def)

lemma represents_sample:
  assumes "GetBlockRecord ref_ext db g_hash = sample_br"
  shows "represents ref_ext (sample_bc\<lparr>BlockInfoDB := db\<rparr>) sample_disk [sample_block]"
  using sample_stored [OF assms] sample_cw_disk ref_ext_leveldb ref_ext_proto
  by (simp add: represents_def io_ok_def sample_bc_def linked_def)

lemma sample_represents: "represents ref_ext sample_bc sample_disk [sample_block]"
  using represents_sample [of sample_infodb] sample_record_get [of g_hash] by (simp add: sample_bc_def)

definition sample_next :: "string \<Rightarrow> Transaction list \<Rightarrow> Block" where
  "sample_next prev txs = sample_block\<lparr>b_Header := (b_Header sample_block)\<lparr>h_Version := 1, h_PreviousHash := prev\<rparr>,
     Transactions := txs\<rparr>"

lemma sample_next_simps [simp]:
  "h_PreviousHash (b_Header (sample_next prev txs)) = prev" "Transactions (sample_next prev txs) = txs"
  "Block_Hash ref_ext (sample_next prev txs) \<noteq> g_hash"
  by (simp_all add: sample_next_def ref_Block_Hash_eq sample_block_def)

lemma sample_next_ascii: "ascii prev \<Longrightarrow> ascii_Block (EncodeBlock (sample_next prev []))"
  by (simp add: ascii_Block_def EncodeBlock_def sample_next_def sample_block_def ascii_Header_def EncodeHeader_def)

lemma sample_next_room:
  assumes "length prev < 1000"
  shows "room_for ref_ext sample_bc (sample_next prev [])"
  using assms by (auto simp: room_for_def cw_room_def log_room_def sample_bc_def sample_cw_def fresh_ChainWriter_def
      ref_ext_def enc_Block_def enc_UndoBlock_def EncodeBlock_def EncodeHeader_def enc_Header_def sample_next_def
      sample_block_def enc_opt_def enc_list_def makeUndoBlock_def empty_UndoBlock_def EncodeUndoBlock_def)

lemma sample_db_ok: "coindb_ok ref_ext (CoinDB sample_bc)" "coindb_wf ref_ext (CoinDB sample_bc)"
  "utxo ref_ext (CoinDB sample_bc) = Map.empty"
  using sample_db0_ok by (simp_all add: sample_bc_def coindb_ok_def)

theorem handle_block_appends_witness:
  "\<exists>bc d. HandleBlock ref_ext sample_bc sample_disk (sample_next g_hash []) = Some (bc, d) \<and>
     represents ref_ext bc d [sample_block, sample_next g_hash []]"
proof -
  have "length g_hash < 1000" by (simp add: length_ref_Block_Hash sample_block_def)
  then show ?thesis
    using handle_block_appends [OF sample_represents sample_db_ok(1), of "sample_next g_hash []"]
      sample_next_ascii [of g_hash] sample_next_room [of g_hash]
    by (auto simp: new_block_def inputs_of_def)
qed

theorem handle_block_rejects_witness:
  "HandleBlock ref_ext sample_bc sample_disk (sample_next g_hash [sample_spend]) = Some (sample_bc, sample_disk)"
  by (rule handle_block_rejects [OF sample_represents sample_db_ok(2)]) (simp_all add: sample_db_ok)

theorem handle_block_stores_side_block_witness:
  "\<exists>bc d. HandleBlock ref_ext sample_bc sample_disk (sample_next ''ab'' []) = Some (bc, d) \<and>
     represents ref_ext bc d [sample_block]"
proof -
  have g: "''ab'' \<noteq> g_hash"
  proof
    assume "''ab'' = g_hash"
    from arg_cong [OF this, of length] show False using ref_Block_Hash_longer [of sample_block] by simp
  qed
  then have "br_Height (GetBlockRecord ref_ext (BlockInfoDB sample_bc) ''ab'') = word_of_nat 0"
    by (simp add: sample_bc_def sample_record_get)
  then show ?thesis
    using handle_block_stores_side_block [OF sample_represents sample_db_ok(2), of "sample_next ''ab'' []" 0]
      sample_next_ascii [of "''ab''"] sample_next_room [of "''ab''"] g by auto
qed

theorem get_blocks_correct_witness:
  "GetBlocks ref_ext sample_bc sample_disk 1 1 = Some [sample_block] \<and>
   BlockChain_List ref_ext sample_bc sample_disk = Some [sample_block]"
  using get_blocks_correct [OF sample_represents, of 1 1] by simp

definition sample_fork_br :: BlockRecord where
  "sample_fork_br = sample_br\<lparr>br_Header := b_Header (sample_next g_hash [])\<rparr>"

theorem reorg_of_coinbase_block_panics_witness:
  "handleFork ref_ext (sample_bc\<lparr>BlockInfoDB := StoreBlockRecord ref_ext sample_infodb
      (Block_Hash ref_ext (sample_next g_hash [])) sample_fork_br\<rparr>) sample_disk (sample_next g_hash []) 2 = None"
proof -
  let ?b = "sample_next g_hash []"
  let ?db = "StoreBlockRecord ref_ext sample_infodb (Block_Hash ref_ext ?b) sample_fork_br"
  have "ascii_record sample_fork_br"
    by (simp add: sample_fork_br_def ascii_record_def ascii_BlockRecord_def EncodeBlockRecord_def sample_br_def
        ascii_Header_def EncodeHeader_def sample_next_def sample_block_def)
  note get = GetBlockRecord_Store [OF ref_ext_leveldb ref_ext_proto this]
  have "fst (getForkLengthAndAncestor ref_ext (sample_bc\<lparr>BlockInfoDB := ?db\<rparr>) (Block_Hash ref_ext ?b)) = 1"
    by (simp add: getForkLengthAndAncestor_def sample_bc_def get) (simp add: sample_fork_br_def)
  moreover have "GetBlockRecord ref_ext ?db g_hash = sample_br"
    using sample_next_simps(3) [of g_hash "[]", symmetric] by (simp add: get sample_record_get)
  moreover have "no_inputs sample_block" "sample_disk [] = None"
    by (simp_all add: no_inputs_def sample_block_def sample_disk_def writeToDisk_def)
  ultimately show ?thesis
    using reorg_of_coinbase_block_panics [OF represents_sample, of ?db ?b 2] by simp
qed

definition sample_config :: bc_Config where
  "sample_config = \<lparr>GenesisPublicKey = [1], bcc_InitialSubsidy = 50, HasChain = True, BlockInfoDBPath = ''i'',
     ChainWriterDBPath = ''w'', CoinDBPath = ''c''\<rparr>"

lemma sample_genesis_fits: "genesis_fits ref_ext sample_config"
  by (auto simp: genesis_fits_def ref_ext_def enc_Block_def enc_UndoBlock_def EncodeBlock_def EncodeHeader_def
        enc_Header_def GenesisBlock_def enc_opt_def enc_list_def empty_UndoBlock_def EncodeUndoBlock_def
        sample_config_def EncodeTransaction_def EncodeTransactionOutput_def enc_Tx_def enc_TxOut_def enc_bool_def)

lemma sample_config_ascii: "ascii (ChainWriterDBPath sample_config)"
  by (simp add: sample_config_def)

theorem new_chain_is_genesis_witness:
  "\<exists>bc d. BlockChain_New ref_ext (\<lambda>_. True) (leveldb_empty ref_ext) (leveldb_empty ref_ext) (\<lambda>_. None) sample_config = Some (bc, d) \<and>
     represents ref_ext bc d [GenesisBlock sample_config]"
  using new_chain_is_genesis [OF ref_ext_leveldb ref_ext_proto sample_config_ascii sample_genesis_fits, of "\<lambda>_. True"] by auto

end
