(* ===== verification/Mining.thy ===== *)
theory Mining
  imports Miner Active_Chain
begin

text \<open>
  What mining guarantees: the nonce search returns the first winning nonce and the hash it finds
  has the required leading zeros, the mined block starts with a coinbase and fits into the block
  size, the minting reward halves, and what all mined blocks have in common.
\<close>

section \<open>The nonce search\<close>

definition with_nonce :: "Block \<Rightarrow> u32 \<Rightarrow> Block" where
  "with_nonce b i = b\<lparr>b_Header := (b_Header b)\<lparr>h_Nonce := i\<rparr>\<rparr>"

definition wins :: "('db, 'z) ext_scheme \<Rightarrow> bytes \<Rightarrow> Block \<Rightarrow> u32 \<Rightarrow> bool" where
  "wins E target b i \<longleftrightarrow> bytes_less (bytes_of (Block_Hash E (with_nonce b i))) target"

lemma with_nonce_simps [simp]:
  "with_nonce (with_nonce b i) j = with_nonce b j" "wins E t (with_nonce b i) j = wins E t b j"
  "Transactions (with_nonce b i) = Transactions b" "h_PreviousHash (b_Header (with_nonce b i)) = h_PreviousHash (b_Header b)"
  "h_DifficultyTarget (b_Header (with_nonce b i)) = h_DifficultyTarget (b_Header b)"
  "h_MerkleRoot (b_Header (with_nonce b i)) = h_MerkleRoot (b_Header b)"
  by (simp_all add: with_nonce_def wins_def)

lemma nonce_loop_unfold:
  "nonce_loop E target limit ctx i b =
     (if i < limit
      then if ctx i then (False, b)
           else if wins E target b i then (True, with_nonce b i)
           else nonce_loop E target limit ctx (i + 1) (with_nonce b i)
      else (False, b))"
  by (subst nonce_loop.simps) (simp add: wins_def with_nonce_def Let_def)

lemma nonce_loop_finds:
  assumes "i \<le> j" and "j < limit" and "wins E target b j"
    and "\<forall>k. i \<le> k \<and> k \<le> j \<longrightarrow> \<not> ctx k"
  shows "\<exists>j' \<le> j. nonce_loop E target limit ctx i b = (True, with_nonce b j') \<and> wins E target b j' \<and>
    (\<forall>k. i \<le> k \<and> k < j' \<longrightarrow> \<not> wins E target b k)"
  using assms
proof (induction E target limit ctx i b rule: nonce_loop.induct)
  case (1 E target limit ctx i b)
  have lim: "i < limit" using "1.prems"(1,2) by simp
  have run: "\<not> ctx i" using "1.prems"(1,4) by simp
  show ?case
  proof (cases "wins E target b i")
    case True
    then show ?thesis
      using lim run "1.prems"(1) by (subst nonce_loop_unfold) (auto intro!: exI [of _ i])
  next
    case False
    then have "i < j" using "1.prems"(1,3) by (metis order_le_less)
    then have next_i: "i + 1 \<le> j" using inc_le by blast
    have "i < i + 1" using lim u32_Suc_less [OF lim] by (simp add: word_less_nat_alt)
    then have "\<forall>k. i + 1 \<le> k \<and> k \<le> j \<longrightarrow> \<not> ctx k" using "1.prems"(4) by (meson order_less_imp_le order_trans)
    then obtain j' where j': "j' \<le> j" "wins E target b j'"
      "nonce_loop E target limit ctx (i + 1) (with_nonce b i) = (True, with_nonce b j')"
      "\<forall>k. i + 1 \<le> k \<and> k < j' \<longrightarrow> \<not> wins E target b k"
      using "1.IH" [OF lim run refl _ next_i] "1.prems"(2,3) False by (auto simp: wins_def [symmetric] with_nonce_def [symmetric])
    moreover have "\<forall>k. i \<le> k \<and> k < j' \<longrightarrow> \<not> wins E target b k"
      using j'(4) False inc_le by (metis order_le_less)
    ultimately show ?thesis
      using lim run False by (intro exI [of _ j']) (subst nonce_loop_unfold, simp)
  qed
qed

lemma nonce_loop_True:
  "nonce_loop E target limit ctx i b = (True, b') \<Longrightarrow>
   \<exists>j < limit. b' = with_nonce b j \<and> wins E target b j"
proof (induction E target limit ctx i b rule: nonce_loop.induct)
  case (1 E target limit ctx i b)
  show ?case
  proof (cases "i < limit \<and> \<not> ctx i \<and> \<not> wins E target b i")
    case True
    then have "nonce_loop E target limit ctx (i + 1) (with_nonce b i) = (True, b')"
      using "1.prems" by (subst (asm) nonce_loop_unfold) simp
    then show ?thesis using "1.IH" True by (fastforce simp: wins_def [symmetric] with_nonce_def [symmetric])
  next
    case False
    then show ?thesis using "1.prems" by (subst (asm) nonce_loop_unfold) (auto split: if_splits)
  qed
qed

section \<open>The target\<close>

definition from_zero :: "string \<Rightarrow> bool" where
  "from_zero s \<longleftrightarrow> list_all (\<lambda>c. (48 :: byte) \<le> of_char c) s"

lemma hex_digit_from_zero: "i < 16 \<Longrightarrow> (48 :: byte) \<le> of_char (hex_digits ! i)"
proof -
  have "\<forall>c \<in> set hex_digits. (48 :: byte) \<le> of_char c" by (simp add: hex_digits_def)
  moreover assume "i < 16"
  then have "hex_digits ! i \<in> set hex_digits" by (intro nth_mem) (simp add: hex_digits_def)
  ultimately show ?thesis by blast
qed

lemma hex_from_zero: "from_zero (hex_EncodeToString bs)"
proof (induction bs)
  case (Cons b bs)
  have "unat b div 16 < 16" using unat_byte_less [of b] by simp
  with Cons show ?case
    by (simp add: from_zero_def hex_EncodeToString_def hex_pair_def hex_digit_from_zero)
qed (simp add: from_zero_def hex_EncodeToString_def)

lemma bytes_less_Nil [simp]: "\<not> bytes_less xs []"
  by (cases xs) simp_all

lemma not_below_zeros:
  "from_zero h \<Longrightarrow> n \<le> length h \<Longrightarrow> \<not> bytes_less (bytes_of h) (bytes_of (replicate n (CHR ''0'')))"
proof (induction n arbitrary: h)
  case (Suc n)
  then obtain c h' where h: "h = c # h'" "n \<le> length h'" by (cases h) simp_all
  then show ?case using Suc.IH [of h'] Suc.prems(1) by (auto simp: from_zero_def bytes_of_def)
qed (simp add: bytes_of_def)

lemma of_char_zero: "(of_char c :: byte) = 48 \<longleftrightarrow> c = CHR ''0''"
proof -
  have "(of_char c :: byte) = of_char (CHR ''0'') \<longleftrightarrow> c = CHR ''0''"
    by (metis unat_of_char_byte of_char_eq_iff)
  then show ?thesis by simp
qed

lemma below_target:
  assumes "from_zero h" and "z + 1 + n \<le> length h"
  shows "bytes_less (bytes_of h) (bytes_of (replicate z (CHR ''0'') @ CHR ''1'' # replicate n (CHR ''0''))) \<longleftrightarrow>
    take (z + 1) h = replicate (z + 1) (CHR ''0'')"
  using assms
proof (induction z arbitrary: h)
  case 0
  then obtain c h' where h: "h = c # h'" "n \<le> length h'" by (cases h) simp_all
  have "\<not> bytes_less (bytes_of h') (bytes_of (replicate n (CHR ''0'')))"
    using 0 h by (intro not_below_zeros) (simp_all add: from_zero_def)
  moreover have "(of_char c :: byte) < 49 \<longleftrightarrow> (of_char c :: byte) = 48"
    using 0 h by (auto simp: from_zero_def word_less_nat_alt word_le_nat_alt word_unat_eq_iff)
  ultimately show ?case using h by (simp add: bytes_of_def of_char_zero)
next
  case (Suc z)
  then obtain c h' where h: "h = c # h'" "z + 1 + n \<le> length h'" by (cases h) simp_all
  then have "\<not> (of_char c :: byte) < 48" "from_zero h'" using Suc.prems(1) by (auto simp: from_zero_def)
  then show ?case using Suc.IH [of h'] h by (auto simp: bytes_of_def of_char_zero)
qed

lemma wins_CalcPOWD:
  assumes "sha256_length E"
  shows "wins E (CalcPOWD n) b i \<longleftrightarrow>
    take (powd_zeros n + 1) (Block_Hash E (with_nonce b i)) = replicate (powd_zeros n + 1) (CHR ''0'')"
  unfolding wins_def CalcPOWD_eq
  using assms powd_zeros_less [of n]
  by (intro below_target) (simp_all add: Block_Hash_def hex_from_zero sha256_length_def)

text \<open>
  C25: When some nonce below the limit wins and the context is not cancelled up to it, the search
  returns, with the smallest winning nonce written into the header.
\<close>

theorem calculate_nonce_finds_first:
  assumes "j < NonceLimit (m_Config m)" and "wins E (DifficultyTarget m) b j" and "\<forall>k \<le> j. \<not> ctx k"
  shows "\<exists>j' \<le> j. CalculateNonce E m ctx b = (True, with_nonce b j') \<and>
    wins E (DifficultyTarget m) b j' \<and> (\<forall>k < j'. \<not> wins E (DifficultyTarget m) b k)"
  using nonce_loop_finds [of 0 j "NonceLimit (m_Config m)" E "DifficultyTarget m" b ctx] assms
  by (simp add: CalculateNonce_def)

section \<open>Mined blocks\<close>

lemma Mine_cases:
  assumes "Mine E oor m reply ctx = Some (Some b, m', ev)"
  obtains cb b0 j where
    "GenerateCoinbaseTransaction oor m reply (NewMiningPool (m_Config m) (m_TxPool m)) = Some cb"
    "Block_New E (m_PreviousHash m) (cb # NewMiningPool (m_Config m) (m_TxPool m))
       (string_of (DifficultyTarget m)) = Some b0"
    "b = with_nonce b0 j" "wins E (DifficultyTarget m) b0 j"
proof -
  let ?pool = "NewMiningPool (m_Config m) (m_TxPool m)"
  let ?m = "m\<lparr>Mining := True, MiningPool := ?pool\<rparr>"
  have "CalculateMintingReward oor ?m = CalculateMintingReward oor m" by (simp add: CalculateMintingReward_def)
  then have cb_eq: "GenerateCoinbaseTransaction oor ?m reply ?pool = GenerateCoinbaseTransaction oor m reply ?pool"
    by (cases "CalculateMintingReward oor m") (simp_all add: GenerateCoinbaseTransaction_def)
  have met: "PriorityMet (m_TxPool m)" using assms by (auto simp: Mine_def split: if_splits)
  obtain cb where cb: "GenerateCoinbaseTransaction oor m reply ?pool = Some cb"
    using assms met by (cases "GenerateCoinbaseTransaction oor m reply ?pool") (auto simp: Mine_def Let_def cb_eq)
  obtain b0 where b0: "Block_New E (m_PreviousHash m) (cb # ?pool) (string_of (DifficultyTarget m)) = Some b0"
    using assms met cb
    by (cases "Block_New E (m_PreviousHash m) (cb # ?pool) (string_of (DifficultyTarget m))")
      (auto simp: Mine_def Let_def cb_eq)
  obtain r b1 where r: "CalculateNonce E ?m ctx b0 = (r, b1)" by fastforce
  have b: "r" "b1 = b"
    using assms met cb b0 r by (auto simp: Mine_def Let_def cb_eq bind_eq_Some_conv split: if_splits)
  obtain j where "b = with_nonce b0 j" "wins E (DifficultyTarget m) b0 j"
    using nonce_loop_True [of E "DifficultyTarget m" "NonceLimit (m_Config m)" ctx 0 b0 b] r b
    by (auto simp: CalculateNonce_def)
  then show thesis using that cb b0 by blast
qed

lemma Block_New_fields:
  assumes "Block_New E prev txs target = Some b"
  shows "Transactions b = txs" "h_PreviousHash (b_Header b) = prev"
    "CalculateMerkleRoot E txs = Some (h_MerkleRoot (b_Header b))" "h_DifficultyTarget (b_Header b) = target"
  using assms by (auto simp: Block_New_def split: option.splits)

text \<open>
  C8: A mined block extends the miner's previous hash, commits to its transactions by their Merkle
  root, consists of a coinbase that pays fees and minting reward to the miner and of the mining
  pool, and its hash starts with one more zero digit than the configured number.
\<close>

theorem mined_block_correct:
  assumes sha: "sha256_length E" and target: "DifficultyTarget m = CalcPOWD n"
    and mine: "Mine E oor m reply ctx = Some (Some b, m', ev)"
  shows "take (powd_zeros n + 1) (Block_Hash E b) = replicate (powd_zeros n + 1) (CHR ''0'') \<and>
    h_PreviousHash (b_Header b) = m_PreviousHash m \<and>
    CalculateMerkleRoot E (Transactions b) = Some (h_MerkleRoot (b_Header b)) \<and>
    (\<exists>cb rwd. Transactions b = cb # NewMiningPool (m_Config m) (m_TxPool m) \<and> IsCoinbase cb \<and>
       CalculateMintingReward oor m = Some rwd \<and>
       Outputs cb = [\<lparr>Amount = CalculateFees reply (NewMiningPool (m_Config m) (m_TxPool m)) + rwd,
                      LockingScript = PublicKeyBytes (m_Id m)\<rparr>])"
  using mine
proof (rule Mine_cases)
  fix cb b0 j
  assume cb: "GenerateCoinbaseTransaction oor m reply (NewMiningPool (m_Config m) (m_TxPool m)) = Some cb"
    and b0: "Block_New E (m_PreviousHash m) (cb # NewMiningPool (m_Config m) (m_TxPool m))
      (string_of (DifficultyTarget m)) = Some b0"
    and b: "b = with_nonce b0 j" "wins E (DifficultyTarget m) b0 j"
  have "IsCoinbase cb \<and> (\<exists>rwd. CalculateMintingReward oor m = Some rwd \<and>
     Outputs cb = [\<lparr>Amount = CalculateFees reply (NewMiningPool (m_Config m) (m_TxPool m)) + rwd,
       LockingScript = PublicKeyBytes (m_Id m)\<rparr>])"
    using cb by (auto simp: GenerateCoinbaseTransaction_def IsCoinbase_def Let_def split: option.splits)
  then show ?thesis
    using b wins_CalcPOWD [OF sha, of n b0 j] target Block_New_fields [OF b0] by auto
qed

lemma block_size_eq: "Block_Size b = Some (sum_list (map Transaction_Size (Transactions b)) + 44)"
proof -
  have "foldl (\<lambda>sz t. sz + SizeOfTransaction t) a (map EncodeTransaction txs) =
    a + sum_list (map Transaction_Size txs)" for a txs
    by (induction txs arbitrary: a) (simp_all add: Transaction_Size_def add.assoc)
  from this [of 0 "Transactions b"] show ?thesis
    by (simp add: Block_Size_def SizeOfBlock_def EncodeBlock_def SizeOfHeader_def sizeof_string_def
        sizeof_uint32_def Let_def)
qed

lemma unat_tx_sizes:
  "tx_sizes txs < 2 ^ 32 \<Longrightarrow> unat (sum_list (map Transaction_Size txs)) = tx_sizes txs"
proof (induction txs)
  case (Cons t txs)
  then have "unat (sum_list (map Transaction_Size txs)) = tx_sizes txs" by (simp add: tx_sizes_def)
  with Cons.prems show ?case by (simp add: tx_sizes_def u32_add_no_wrap)
qed (simp add: tx_sizes_def)

text \<open>
  A mined block that holds more than its coinbase is smaller than the configured block size:
  the 100 bytes the miner sets aside cover the header and the coinbase. The sizes must be below
  \<open>2 ^ 31\<close>, so that no sum wraps around.
\<close>

theorem mined_block_fits:
  assumes "unat (BlockSize (m_Config m)) \<le> 2 ^ 31"
    and "\<forall>n \<in> set (TxQ (m_TxPool m)). unat (Transaction_Size (n_Transaction n)) < 2 ^ 31"
    and mine: "Mine E oor m reply ctx = Some (Some b, m', ev)"
  shows "\<exists>sz. Block_Size b = Some sz \<and> (length (Transactions b) = 1 \<or> unat sz < unat (BlockSize (m_Config m)))"
  using mine
proof (rule Mine_cases)
  let ?pool = "NewMiningPool (m_Config m) (m_TxPool m)"
  fix cb b0 j
  assume cb: "GenerateCoinbaseTransaction oor m reply ?pool = Some cb"
    and b0: "Block_New E (m_PreviousHash m) (cb # ?pool) (string_of (DifficultyTarget m)) = Some b0"
    and b: "b = with_nonce b0 j"
  have txs: "Transactions b = cb # ?pool" using b Block_New_fields(1) [OF b0] by simp
  have "Transaction_Size cb = 36"
    using cb by (auto simp: GenerateCoinbaseTransaction_def Transaction_Size_def SizeOfTransaction_eq
        EncodeTransaction_def Let_def split: option.splits)
  then have size: "Block_Size b = Some (sum_list (map Transaction_Size ?pool) + 80)"
    by (simp add: block_size_eq txs add.commute add.left_commute)
  show ?thesis
  proof (cases "?pool = []")
    case False
    then have fits: "100 + tx_sizes ?pool < unat (BlockSize (m_Config m))"
      using mining_pool_fits [OF assms(1,2)] by blast
    then have "unat (sum_list (map Transaction_Size ?pool)) = tx_sizes ?pool"
      using assms(1) by (intro unat_tx_sizes) simp
    then have "unat (sum_list (map Transaction_Size ?pool) + 80) = tx_sizes ?pool + 80"
      using fits assms(1) by (subst u32_add_no_wrap) simp_all
    then show ?thesis using size fits by simp
  qed (simp add: size txs)
qed

section \<open>The minting reward\<close>

text \<open>
  With a positive halving rate, a bound on the chain length that does not wrap around and at
  most 32 halvings, the minting reward is the initial subsidy halved once per completed period,
  and 0 from the configured number of halvings on; it never panics.
\<close>

theorem minting_reward_halves:
  assumes "SubsidyHalvingRate (m_Config m) \<noteq> 0" and "unat (MaxHalvings (m_Config m)) \<le> 32"
    and "unat (SubsidyHalvingRate (m_Config m)) * unat (MaxHalvings (m_Config m)) < 2 ^ 32"
  shows "\<exists>rwd. CalculateMintingReward oor m = Some rwd \<and>
    unat rwd = (let h = unat (ChainLength m) div unat (SubsidyHalvingRate (m_Config m)) in
                if h < unat (MaxHalvings (m_Config m)) then unat (mc_InitialSubsidy (m_Config m)) div 2 ^ h else 0)"
proof -
  let ?r = "SubsidyHalvingRate (m_Config m)" and ?k = "MaxHalvings (m_Config m)" and ?l = "ChainLength m"
  let ?h = "unat ?l div unat ?r"
  have r: "0 < unat ?r" using assms(1) by (simp add: unat_gt_0)
  have "unat (?r * ?k) = unat ?r * unat ?k" using assms(3) by (simp add: unat_word_ariths)
  then have le: "?r * ?k \<le> ?l \<longleftrightarrow> \<not> ?h < unat ?k"
    using r by (simp add: word_le_nat_alt div_less_iff_less_mult mult.commute not_less)
  show ?thesis
  proof (cases "?h < unat ?k")
    case True
    then have h: "?h < 32" using assms(2) by simp
    then have "(2 :: nat) ^ ?h < 2 ^ 32" by (intro power_strict_increasing) simp_all
    then have p: "unat (2 ^ ?h :: u32) = 2 ^ ?h" using u32_of_nat_less [of "2 ^ ?h"] by simp
    then have "(2 ^ ?h :: u32) \<noteq> 0" by (metis power_not_zero unat_0 zero_neq_numeral)
    then have "CalculateMintingReward oor m = Some (mc_InitialSubsidy (m_Config m) div 2 ^ ?h)"
      using le True h assms(1) by (simp add: CalculateMintingReward_def pow2_uint32_def Let_def unat_div)
    then show ?thesis using True p by (simp add: unat_div Let_def)
  next
    case False
    then show ?thesis using le by (simp add: CalculateMintingReward_def Let_def)
  qed
qed

section \<open>What every miner keeps\<close>

definition miner_inv :: "('db, 'z) ext_scheme \<Rightarrow> miner_Config \<Rightarrow> Miner \<Rightarrow> bool" where
  "miner_inv E c m \<longleftrightarrow> m_Config m = c \<and> m_PreviousHash m = Block_Hash E (GenesisBlock bc_DefaultConfig) \<and>
     DifficultyTarget m = InitialPOWDifficulty c \<and> pool_reaches E c (m_TxPool m)"

lemma miner_inv_simps [simp]:
  "miner_inv E c (m\<lparr>m_Address := a\<rparr>) = miner_inv E c m"
  "miner_inv E c (m\<lparr>Active := x\<rparr>) = miner_inv E c m"
  "miner_inv E c (m\<lparr>Mining := x\<rparr>) = miner_inv E c m"
  "miner_inv E c (m\<lparr>MiningPool := p\<rparr>) = miner_inv E c m"
  "miner_inv E c (m\<lparr>ChainLength := l\<rparr>) = miner_inv E c m"
  "miner_inv E c (m\<lparr>channels_closed := x\<rparr>) = miner_inv E c m"
  by (simp_all add: miner_inv_def)

lemma miner_inv_pool:
  "miner_inv E c m \<Longrightarrow> pool_reaches E c tp \<Longrightarrow> miner_inv E c (m\<lparr>m_TxPool := tp\<rparr>)"
  by (simp add: miner_inv_def)

lemma send_PoolUpdated_inv: "send_PoolUpdated m = Some (m', ev) \<Longrightarrow> m' = m"
  by (auto simp: send_PoolUpdated_def split: if_splits)

lemma UpdateTXPool_inv:
  assumes "miner_inv E c m" and "UpdateTXPool E m txs = Some (m', ev)"
  shows "miner_inv E c m'"
proof -
  have "pool_reaches E c (CheckTransactions E (m_TxPool m) (map Some txs))"
    using assms(1) by (auto simp: miner_inv_def intro: reaches_check)
  then have "miner_inv E c (m\<lparr>m_TxPool := CheckTransactions E (m_TxPool m) (map Some txs)\<rparr>)"
    using assms(1) miner_inv_pool by blast
  then show ?thesis
    using assms by (auto simp: UpdateTXPool_def Let_def dest: send_PoolUpdated_inv split: if_splits)
qed

lemma Miner_HandleBlock_inv:
  "miner_inv E c m \<Longrightarrow> Miner_HandleBlock E m b = Some (m', ev) \<Longrightarrow> miner_inv E c m'"
  by (auto simp: Miner_HandleBlock_def IncrementChainLength_def split: option.splits dest!: UpdateTXPool_inv [rotated])

lemma HandleTransaction_inv:
  assumes "miner_inv E c m" and "HandleTransaction m reply t = Some (m', ev)"
  shows "miner_inv E c m'"
proof (cases t)
  case (Some tx)
  then obtain s tp where "TxPool_Add (m_TxPool m) t s = Some tp" and "m' = m\<lparr>m_TxPool := tp\<rparr>"
    using assms(2)
    by (auto simp: HandleTransaction_def Let_def bind_eq_Some_conv dest: send_PoolUpdated_inv split: if_splits)
  moreover from this(1) have "pool_reaches E c tp"
    using assms(1) by (auto simp: miner_inv_def intro: reaches_add)
  ultimately show ?thesis using assms(1) miner_inv_pool by blast
qed (use assms in \<open>simp add: HandleTransaction_def\<close>)

lemma Mine_inv:
  assumes "miner_inv E c m" and "Mine E oor m reply ctx = Some (r, m', ev)"
  shows "miner_inv E c m'"
proof -
  let ?m = "m\<lparr>MiningPool := NewMiningPool (m_Config m) (m_TxPool m), Mining := False\<rparr>"
  have "m' = m \<or> m' = ?m \<or> (\<exists>b ev'. Miner_HandleBlock E ?m (Some b) = Some (m', ev'))"
    using assms(2) by (auto simp: Mine_def Let_def bind_eq_Some_conv case_prod_unfold split: if_splits)
  moreover have "miner_inv E c ?m" using assms(1) by simp
  ultimately show ?thesis using assms(1) Miner_HandleBlock_inv by blast
qed

lemma miner_reaches_inv: "miner_reaches E c m \<Longrightarrow> miner_inv E c m"
proof (induction rule: miner_reaches.induct)
  case (1 i m)
  then show ?case by (auto simp: Miner_New_def miner_inv_def intro: reaches_new split: if_splits)
qed (auto simp: Miner_SetAddress_def StartMiner_def SetChainLength_def IncrementChainLength_def Pause_def
    Resume_def Miner_Kill_def bind_eq_Some_conv dest!: send_PoolUpdated_inv split: if_splits
    intro: UpdateTXPool_inv Miner_HandleBlock_inv HandleTransaction_inv Mine_inv)

text \<open>
  C34: Whatever a miner is asked to do, each block it mines names the genesis block as its
  predecessor: no operation updates the previous hash. So the block chain never appends it to an
  active chain that has grown beyond the genesis block.
\<close>

theorem mined_blocks_extend_genesis:
  assumes "miner_reaches E c m" and "Mine E oor m reply ctx = Some (Some b, m', ev)"
    and "Block_Hash E (LastBlock bc) \<noteq> Block_Hash E (GenesisBlock bc_DefaultConfig)"
  shows "h_PreviousHash (b_Header b) = Block_Hash E (GenesisBlock bc_DefaultConfig) \<and>
    \<not> appendsToActiveChain E bc b"
proof -
  have "h_PreviousHash (b_Header b) = m_PreviousHash m"
    using assms(2) by (rule Mine_cases) (simp add: Block_New_fields(2))
  then show ?thesis
    using assms(3) miner_reaches_inv [OF assms(1)] by (simp add: miner_inv_def appendsToActiveChain_def)
qed

end
