(* ===== verification/Mining_Instances.thy ===== *)
theory Mining_Instances
  imports Mining Chain_Instances
begin

text \<open>
  Concrete miners: the hypotheses of the theorems on mining hold together, and the theorems say
  what they find. The hash keeps the first 32 bytes of the message, so that headers with
  version 0 win.
\<close>

definition mine_ext :: "(bytes \<times> bytes) list ext" where
  "mine_ext = ref_ext\<lparr>sha256 := \<lambda>bs. take 32 (bs @ replicate 32 0)\<rparr>"

lemma mine_ext_length: "sha256_length mine_ext"
  by (auto simp: sha256_length_def mine_ext_def min_def)

lemma mine_ext_hash:
  "Block_Hash mine_ext b = hex_EncodeToString (take 32 (enc_Header (EncodeHeader (b_Header b)) @ replicate 32 0))"
  by (simp add: Block_Hash_def mine_ext_def ref_ext_def)

lemma enc_digits_4:
  "enc_digits 4 n = [word_of_nat (n mod 256), word_of_nat (n div 256 mod 256),
     word_of_nat (n div 256 div 256 mod 256), word_of_nat (n div 256 div 256 div 256 mod 256)]"
proof -
  have "(4 :: nat) = Suc (Suc (Suc (Suc 0)))" by simp
  then show ?thesis by (simp only: enc_digits.simps)
qed

lemma enc_u32_0: "enc_u32 0 = [0, 0, 0, 0]" "enc_u32 1 = [1, 0, 0, 0]"
  by (simp_all add: enc_u32_def enc_digits_4)

lemma mine_ext_wins:
  assumes "h_Version (b_Header b) = 0"
  shows "wins mine_ext (CalcPOWD 3) b 0"
proof -
  have "take 4 (hex_EncodeToString (0 # 0 # 0 # 0 # (bs :: bytes))) = ''0000''" for bs
    by (simp add: hex_EncodeToString_def hex_pair_def hex_digits_def take_Cons')
  moreover have "replicate (powd_zeros 3 + 1) (CHR ''0'') = ''0000''"
    by (simp add: powd_zeros_def numeral_eq_Suc)
  ultimately show ?thesis
    using assms
    by (simp add: wins_CalcPOWD [OF mine_ext_length] mine_ext_hash powd_zeros_def enc_Header_def EncodeHeader_def
        enc_u32_0 with_nonce_def)
qed

lemma merkle_root_some: "txs \<noteq> [] \<Longrightarrow> \<exists>r. CalculateMerkleRoot E txs = Some r"
  using merkle_loop_returns [of "map (Transaction_Hash E) (txs @ [last txs])" E]
    merkle_loop_returns [of "map (Transaction_Hash E) txs" E]
  by (auto simp: CalculateMerkleRoot_def Let_def)

lemma length_Block_Hash: "sha256_length E \<Longrightarrow> length (Block_Hash E b) = 64"
  by (simp add: Block_Hash_def sha256_length_def)

lemma those_defined: "(\<And>x. x \<in> set xs \<Longrightarrow> f x \<noteq> None) \<Longrightarrow> those (map f xs) \<noteq> None"
  by (induction xs) (auto split: option.splits)

lemma mined_log_defined:
  assumes "sha256_length E" and "FmtAddr (m_Address m) \<noteq> None" and "10 \<le> length (h_PreviousHash (b_Header b))"
  shows "mined_log E m b \<noteq> None"
proof -
  obtain t where "Block_NameTag E b = Some t" using NameTag_defined(1) [OF assms(1)] by blast
  moreover obtain ts where "those (map (Transaction_NameTag E) (Transactions b)) = Some ts"
    using those_defined [of "Transactions b" "Transaction_NameTag E"] NameTag_defined(2) [OF assms(1)] by blast
  ultimately show ?thesis using assms(2,3) by (auto simp: mined_log_def Summarize_def go_prefix_def)
qed

lemma Mine_succeeds:
  assumes "PriorityMet (m_TxPool m)" and "CalculateMintingReward oor m = Some rwd"
    and wins: "\<And>b. h_Version (b_Header b) = 0 \<Longrightarrow> wins E (DifficultyTarget m) b 0"
    and "\<not> ctx 0" and "0 < NonceLimit (m_Config m)" and "\<not> channels_closed m" and "\<not> Active m"
    and sha: "sha256_length E" and addr: "FmtAddr (m_Address m) \<noteq> None" and prev: "10 \<le> length (m_PreviousHash m)"
  shows "\<exists>b m' ev. Mine E oor m reply ctx = Some (Some b, m', ev)"
proof -
  let ?pool = "NewMiningPool (m_Config m) (m_TxPool m)"
  let ?m = "m\<lparr>Mining := True, MiningPool := ?pool\<rparr>"
  have "CalculateMintingReward oor ?m = Some rwd" using assms(2) by (simp add: CalculateMintingReward_def)
  then obtain cb where cb: "GenerateCoinbaseTransaction oor ?m reply ?pool = Some cb"
    by (simp add: GenerateCoinbaseTransaction_def)
  obtain root where "CalculateMerkleRoot E (cb # ?pool) = Some root"
    using merkle_root_some [of "cb # ?pool" E] by blast
  then obtain b0 where b0: "Block_New E (m_PreviousHash m) (cb # ?pool) (string_of (DifficultyTarget m)) = Some b0"
    and "h_Version (b_Header b0) = 0"
    by (simp add: Block_New_def)
  then have "CalculateNonce E ?m ctx b0 = (True, with_nonce b0 0)"
    using wins [of b0] assms(4,5) by (simp add: CalculateNonce_def nonce_loop_unfold [where i = 0])
  moreover have "mined_log E (?m\<lparr>Mining := False\<rparr>) (with_nonce b0 0) \<noteq> None"
    using mined_log_defined [OF sha, of "?m\<lparr>Mining := False\<rparr>" "with_nonce b0 0"] addr prev Block_New_fields(2) [OF b0]
    by (simp add: with_nonce_def)
  ultimately show ?thesis
    using assms cb b0
    by (simp add: Mine_def Let_def Miner_HandleBlock_def UpdateTXPool_def IncrementChainLength_def)
qed

definition sample_id :: SimpleID where
  "sample_id = \<lparr>id_PrivateKey = Some \<lparr>sk_PublicKey = \<lparr>pk_X = 1, pk_Y = 0\<rparr>, sk_D = 1\<rparr>, PrivateKeyBytes = [1],
     id_PublicKey = Some \<lparr>pk_X = 1, pk_Y = 0\<rparr>, PublicKeyBytes = [2]\<rparr>"

definition sample_miner :: Miner where
  "sample_miner = \<lparr>m_Config = miner_DefaultConfig 3, m_Id = sample_id,
     m_TxPool = (NewTxPool (miner_DefaultConfig 3))\<lparr>TxQ := sample_heap, CurrentPriority := 13, Count := 2\<rparr>,
     MiningPool = [], m_PreviousHash = ''0123456789'', m_Address = ''a:1'', ChainLength = 25, DifficultyTarget = CalcPOWD 3,
     Active = False, Mining = False, channels_closed = False\<rparr>"

lemma sample_address: "\<exists>s. FmtAddr ''a:1'' = Some s" "\<exists>s. FmtAddr [] = Some s"
  using FmtAddr_host_port [of "''a''" "''1''"] by (simp_all add: FmtAddr_def)

lemma sample_miner_mines: "\<exists>b m' ev. Mine mine_ext 0 sample_miner (Some [9]) (\<lambda>_. False) = Some (Some b, m', ev)"
  by (rule Mine_succeeds [where rwd = 12])
    (simp_all add: sample_miner_def PriorityMet_def NewTxPool_def miner_DefaultConfig_def mine_ext_wins
      CalculateMintingReward_def pow2_uint32_def Let_def mine_ext_length sample_address)

theorem calculate_nonce_finds_first_witness:
  "\<exists>j' \<le> 0. CalculateNonce mine_ext sample_miner (\<lambda>k. k > 0) sample_block = (True, with_nonce sample_block j')"
  using calculate_nonce_finds_first [of 0 sample_miner mine_ext sample_block "\<lambda>k. k > 0"]
  by (auto simp: sample_miner_def miner_DefaultConfig_def mine_ext_wins sample_block_def)

theorem mined_block_correct_witness:
  "\<exists>b m' ev. Mine mine_ext 0 sample_miner (Some [9]) (\<lambda>_. False) = Some (Some b, m', ev) \<and>
     take 4 (Block_Hash mine_ext b) = ''0000'' \<and> h_PreviousHash (b_Header b) = ''0123456789''"
proof -
  obtain b m' ev where mine: "Mine mine_ext 0 sample_miner (Some [9]) (\<lambda>_. False) = Some (Some b, m', ev)"
    using sample_miner_mines by blast
  have "DifficultyTarget sample_miner = CalcPOWD 3" by (simp add: sample_miner_def)
  from mined_block_correct [OF mine_ext_length this mine] mine show ?thesis
    by (auto simp: powd_zeros_def sample_miner_def numeral_eq_Suc)
qed

theorem mined_block_fits_witness:
  "\<exists>b m' ev sz. Mine mine_ext 0 sample_miner (Some [9]) (\<lambda>_. False) = Some (Some b, m', ev) \<and>
     Block_Size b = Some sz \<and> (length (Transactions b) = 1 \<or> unat sz < 1000)"
proof -
  obtain b m' ev where mine: "Mine mine_ext 0 sample_miner (Some [9]) (\<lambda>_. False) = Some (Some b, m', ev)"
    using sample_miner_mines by blast
  have "unat (BlockSize (m_Config sample_miner)) = 1000"
    by (simp add: sample_miner_def miner_DefaultConfig_def)
  moreover have "\<forall>n \<in> set (TxQ (m_TxPool sample_miner)). unat (Transaction_Size (n_Transaction n)) < 2 ^ 31"
    by (simp add: sample_miner_def sample_heap_def sample_tx_def Transaction_Size_def EncodeTransaction_def
        SizeOfTransaction_eq)
  ultimately show ?thesis using mined_block_fits [OF _ _ mine] mine by auto
qed

theorem minting_reward_halves_witness:
  "\<exists>rwd. CalculateMintingReward 0 sample_miner = Some rwd \<and> unat rwd = 12"
  using minting_reward_halves [of sample_miner 0] by (simp add: sample_miner_def miner_DefaultConfig_def Let_def)

definition sample_config0 :: miner_Config where
  "sample_config0 = (miner_DefaultConfig 3)\<lparr>mc_PriorityLimit := 0\<rparr>"

theorem mined_blocks_extend_genesis_witness:
  "\<exists>m b m' ev. Miner_New mine_ext sample_config0 sample_id = Some m \<and>
     Mine mine_ext 0 m (Some []) (\<lambda>_. False) = Some (Some b, m', ev) \<and>
     h_PreviousHash (b_Header b) = Block_Hash mine_ext (GenesisBlock bc_DefaultConfig) \<and>
     \<not> appendsToActiveChain mine_ext
       (sample_bc\<lparr>LastBlock := sample_block\<lparr>b_Header := (b_Header sample_block)\<lparr>h_Version := 1\<rparr>\<rparr>\<rparr>) b"
proof -
  let ?bc = "sample_bc\<lparr>LastBlock := sample_block\<lparr>b_Header := (b_Header sample_block)\<lparr>h_Version := 1\<rparr>\<rparr>\<rparr>"
  obtain m where m: "Miner_New mine_ext sample_config0 sample_id = Some m"
    by (simp add: Miner_New_def sample_config0_def miner_DefaultConfig_def)
  then have r: "miner_reaches mine_ext sample_config0 m" by (rule miner_reaches.intros(1))
  have "\<exists>b m' ev. Mine mine_ext 0 m (Some []) (\<lambda>_. False) = Some (Some b, m', ev)"
    using m by (intro Mine_succeeds [where rwd = 50])
      (auto simp: Miner_New_def PriorityMet_def NewTxPool_def sample_config0_def miner_DefaultConfig_def mine_ext_wins
        CalculateMintingReward_def pow2_uint32_def Let_def word_le_nat_alt mine_ext_length sample_address length_Block_Hash [OF mine_ext_length])
  then obtain b m' ev where mine: "Mine mine_ext 0 m (Some []) (\<lambda>_. False) = Some (Some b, m', ev)" by blast
  have "Block_Hash mine_ext (LastBlock ?bc) \<noteq> Block_Hash mine_ext (GenesisBlock bc_DefaultConfig)"
    by (simp add: mine_ext_hash enc_Header_def EncodeHeader_def GenesisBlock_def enc_u32_0)
  from mined_blocks_extend_genesis [OF r mine this] show ?thesis using m mine by blast
qed

theorem tx_pool_invariant_witness:
  "\<exists>tp. TxPool_Add (NewTxPool (miner_DefaultConfig 3)) (Some (sample_tx 1)) 9 = Some tp \<and>
     is_heap Heap_Less (TxQ tp) \<and> unat (Count tp) = length (TxQ tp) \<and> length (TxQ tp) \<le> 50"
proof -
  obtain tp where tp: "TxPool_Add (NewTxPool (miner_DefaultConfig 3)) (Some (sample_tx 1)) 9 = Some tp"
    by (simp add: TxPool_Add_def NewTxPool_def miner_DefaultConfig_def CalculatePriority_def sample_tx_def
        Transaction_Size_def EncodeTransaction_def SizeOfTransaction_eq Let_def)
  then have "pool_reaches mine_ext (miner_DefaultConfig 3) tp"
    using reaches_new reaches_add by blast
  from tx_pool_invariant [OF this] tp show ?thesis by (simp add: miner_DefaultConfig_def)
qed

end
