(* ===== verification/Wallet_Instances.thy ===== *)
theory Wallet_Instances
  imports Wallet_Spend Mining_Instances
begin

text \<open>
  A concrete wallet that receives a coin and spends it: the hypotheses of the theorems on the wallet
  hold together.
\<close>

definition sample_wconfig :: wallet_Config where
  "sample_wconfig = wallet_DefaultConfig\<lparr>SafeBlockAmount := 0\<rparr>"

definition sample_wallet0 :: Wallet where
  "sample_wallet0 = \<lparr>w_Config = sample_wconfig, w_Id = sample_id, w_Address = '''', Balance = 0, CoinCollection = [],
     UnseenSpentCoins = [], UnconfirmedSpentCoins = [], UnconfirmedReceivedCoins = []\<rparr>"

lemma sample_wallet0_new: "Wallet_New sample_wconfig sample_id = Some sample_wallet0"
  by (simp add: Wallet_New_def sample_wallet0_def sample_wconfig_def wallet_DefaultConfig_def)

definition sample_paying :: MemTx where
  "sample_paying = \<lparr>mt_tx = (sample_tx 7)\<lparr>Outputs := [\<lparr>Amount = 9, LockingScript = fst (marshal_PayToPublicKey ref_ext
      \<lparr>p2pk_ScriptType = 0, p2pk_PublicKey = [2]\<rparr>)\<rparr>]\<rparr>, mt_addr = id\<rparr>"

definition sample_wallet1 :: Wallet where
  "sample_wallet1 = Wallet_HandleBlock ref_ext sample_wallet0 [sample_paying]"

lemma sample_wallet1_eq:
  "sample_wallet1 = sample_wallet0\<lparr>CoinCollection := [(output_coin ref_ext sample_paying 0, True)], Balance := 9\<rparr>"
proof -
  have "unmarshal_PayToPublicKey ref_ext (LockingScript (ptr_obj (output_ptr sample_paying 0))) =
      (\<lparr>p2pk_ScriptType = 0, p2pk_PublicKey = [2]\<rparr>, True)"
    by (simp add: output_ptr_def sample_paying_def unmarshal_marshal_PayToPublicKey [OF ref_ext_proto])
  then have "receive_output ref_ext sample_paying sample_wallet0 0 =
      sample_wallet0\<lparr>UnconfirmedReceivedCoins := [(output_coin ref_ext sample_paying 0, 0)]\<rparr>"
    by (simp add: receive_output_def sample_wallet0_def sample_id_def addCoin_def output_coin_def)
  moreover have "[0..<length (Outputs (mt_tx sample_paying))] = [0]" by (simp add: sample_paying_def)
  moreover have "coin_amount (output_coin ref_ext sample_paying 0) = 9"
    by (simp add: output_coin_def output_ptr_def sample_paying_def)
  ultimately show ?thesis
    by (simp add: sample_wallet1_def Wallet_HandleBlock_def handle_tx_def updateConfirmations_def confirm_received_def
        sample_wallet0_def sample_wconfig_def)
qed

lemma sample_wallet1_reached: "wallet_reaches ref_ext sample_wconfig sample_wallet1"
proof -
  have "fresh_block ref_ext sample_wallet0 [sample_paying]"
    by (simp add: fresh_block_def spendable_def spent_coins_def sample_wallet0_def)
  then show ?thesis
    unfolding sample_wallet1_def using wallet_reaches.reaches_new [OF sample_wallet0_new] by (intro reaches_block)
qed

lemma sample_wallet1_spendable: "spendable sample_wallet1 = [output_coin ref_ext sample_paying 0]"
  by (simp add: sample_wallet1_eq spendable_def)

lemma sample_coin_amount: "coin_amount (output_coin ref_ext sample_paying 0) = 9"
  by (simp add: output_coin_def output_ptr_def sample_paying_def)

theorem wallet_balance_invariant_witness:
  "Balance sample_wallet1 = 9 \<and> distinct (spendable sample_wallet1)"
  using wallet_balance_invariant [OF sample_wallet1_reached] by (simp add: sample_wallet1_spendable sample_coin_amount)

theorem request_transaction_conserves_witness:
  "\<exists>tx w' spent. RequestTransaction ref_ext (\<lambda>_. 0) (spendable sample_wallet1) sample_wallet1 4 2 [5] = Some (Some tx, w') \<and>
     Amount (hd (Outputs tx)) = 4 \<and> sum_list (map (unat \<circ> Amount) (Outputs tx)) + 2 = nat_amount spent \<and>
     unmarshal_PayToPublicKey ref_ext (LockingScript (hd (Outputs tx))) = (\<lparr>p2pk_ScriptType = ScriptType_P2PK, p2pk_PublicKey = [5]\<rparr>, True)"
proof -
  have key: "id_PrivateKey (w_Id sample_wallet1) \<noteq> None"
    by (simp add: sample_wallet1_eq sample_wallet0_def sample_id_def)
  show ?thesis
    using request_transaction_conserves [OF sample_wallet1_reached _ _ _ _ _ _ key,
        of "spendable sample_wallet1" 4 2 "[5]" "\<lambda>_. 0"]
    by (auto simp: sample_wallet1_spendable sample_coin_amount pay_to_key_reads [OF ref_ext_proto ref_ext_script])
qed

theorem funding_without_coins_mints_witness:
  "\<exists>tx. GenerateFundingTransaction ref_ext (\<lambda>_. 0) [] sample_wallet0 100 5 [3] = Some (Some tx) \<and> IsCoinbase tx \<and>
     SumOutputs tx = - 5 \<and> ValidateBlock ref_ext sample_db0 [tx] = Some True"
  using funding_without_coins_mints [OF ref_ext_script, of sample_wallet0 "[]" "\<lambda>_. 0" 100 5 "[3]" sample_db0]
  by (auto simp: spendable_def sample_wallet0_def)

end
