(* ===== verification/Channel_Instances.thy ===== *)
theory Channel_Instances
  imports Channel_Funding Wallet_Instances
begin

text \<open>Two concrete lightning nodes that open and update a channel.\<close>

definition peer_a :: Peer where "peer_a = \<lparr>p_ident = 0, p_Addr = 0, p_Version = 0, bestHeight = 0\<rparr>"
definition peer_b :: Peer where "peer_b = \<lparr>p_ident = 7, p_Addr = 0, p_Version = 0, bestHeight = 0\<rparr>"

definition sample_net :: "string \<Rightarrow> Peer \<Rightarrow> Net" where
  "sample_net a p = \<lparr>addr_store = [address_New a 0], AddressDB = \<lparr>addresses = [(a, 0)], adb_limit = 1000\<rparr>,
     PeerDb = \<lparr>peers = [(a, p)], pdb_limit = 200, pdb_Addr = ''''\<rparr>, next_peer = 8\<rparr>"

definition sample_node :: "string \<Rightarrow> string \<Rightarrow> Peer \<Rightarrow> LightningNode" where
  "sample_node addr a p = \<lparr>ln_Config = lightning_DefaultConfig 40, ln_Address = addr, ln_Id = sample_id, BlockHeight = 0,
     Channels = [], ln_net = sample_net a p\<rparr>"

definition node_a :: LightningNode where "node_a = sample_node ''a'' ''b'' peer_b"
definition node_b :: LightningNode where "node_b = sample_node ''b'' ''a'' peer_a"

definition sample_fund :: Transaction where
  "sample_fund = (sample_tx 4)\<lparr>Outputs := [\<lparr>Amount = 9, LockingScript = []\<rparr>, \<lparr>Amount = 0, LockingScript = []\<rparr>,
     \<lparr>Amount = 5, LockingScript = []\<rparr>]\<rparr>"

lemma ref_ext_revocation_key: "\<exists>pub priv. GenerateRevocationKey ref_ext r = Some (pub, priv)"
  by (simp add: GenerateRevocationKey_def CreateSimpleID_def PrivateKeyToBytes_def PublicKeyToBytes_def ref_ext_def)

lemma sample_can_open: "can_open ref_ext (1, 2) (3, 4, 5) node_a peer_b node_b peer_a sample_fund"
proof -
  have "\<forall>r sk h. utils_Sign ref_ext r sk h \<noteq> None" by (simp add: utils_Sign_def ref_ext_def)
  then show ?thesis
    using ref_ext_revocation_key [of 1] ref_ext_revocation_key [of 5]
    by (auto simp: can_open_def node_a_def node_b_def sample_node_def sample_net_def pdb_Get_def get_channel_def sample_id_def
        sample_fund_def)
qed

definition sample_payment :: Transaction where
  "sample_payment = (sample_tx 5)\<lparr>Outputs := [\<lparr>Amount = 6, LockingScript = []\<rparr>, \<lparr>Amount = 3, LockingScript = []\<rparr>]\<rparr>"

theorem channel_stays_mirrored_witness:
  "\<exists>s A' B' cA cB. open_round ref_ext (1, 2) (3, 4, 5) (\<lambda>_. Some (Some sample_fund)) node_a peer_b node_b [2] 9 1 = Some s \<and>
     channel_run ref_ext peer_b peer_a s 1 (A', B') \<and> get_channel A' peer_b = Some cA \<and> get_channel B' peer_a = Some cB \<and>
     ch_State cA = 1 \<and> MyTransactions cA = TheirTransactions cB"
proof -
  obtain A B cA cB where o: "open_round ref_ext (1, 2) (3, 4, 5) (\<lambda>_. Some (Some sample_fund)) node_a peer_b node_b [2] 9 1 = Some (A, B)"
    "linked_nodes A peer_b cA B peer_a cB" "mirrored cA cB"
    using open_round_mirrored [OF sample_can_open, of "\<lambda>_. Some (Some sample_fund)" 9 1 "[2]"] by blast
  obtain pub priv where k: "GenerateRevocationKey ref_ext 9 = Some (pub, priv)" using ref_ext_revocation_key by blast
  have len: "length (Outputs sample_payment) = 2 \<or> length (Outputs sample_payment) = 3" by (simp add: sample_payment_def)
  obtain A' B' where "update_round ref_ext (8, 9, 10) A peer_b B sample_payment = Some (A', B')"
    using update_round_mirrored [OF o(2,3) ref_ext_script k len] by blast
  then have run: "channel_run ref_ext peer_b peer_a (A, B) (Suc 0) (A', B')" using run_start run_A len by blast
  from channel_stays_mirrored [where wallet = "\<lambda>_. Some (Some sample_fund)" and amount = 9 and fee = 1 and pk = "[2]", OF sample_can_open ref_ext_script refl o(1) run] o(1) run show ?thesis by auto
qed

theorem update_reveals_current_key_witness:
  "\<exists>A B A' B' cA' cB' (info :: RevocationInfo). update_round ref_ext (8, 9, 10) A peer_b B sample_payment = Some (A', B') \<and>
     get_channel A' peer_b = Some cA' \<and> get_channel B' peer_a = Some cB' \<and>
     TransactionHash info = Transaction_Hash ref_ext (last (MyTransactions cB')) \<and>
     RevKeySuccessful ref_ext (LockingScript (ri_TransactionOutput info)) (RevKey info) (ri_ScriptType info) = Some True"
proof -
  obtain A B cA cB where o: "linked_nodes A peer_b cA B peer_a cB" "mirrored cA cB"
    using open_round_mirrored [OF sample_can_open, of "\<lambda>_. Some (Some sample_fund)" 9 1 "[2]"] by blast
  obtain pub priv where k: "GenerateRevocationKey ref_ext 9 = Some (pub, priv)" using ref_ext_revocation_key by blast
  have len: "length (Outputs sample_payment) = 2 \<or> length (Outputs sample_payment) = 3" by (simp add: sample_payment_def)
  obtain A' B' cA' cB' and info :: RevocationInfo where "update_round ref_ext (8, 9, 10) A peer_b B sample_payment = Some (A', B')"
    "linked_nodes A' peer_b cA' B' peer_a cB'"
    "TransactionHash info = Transaction_Hash ref_ext (last (MyTransactions cB'))"
    "RevKeySuccessful ref_ext (LockingScript (ri_TransactionOutput info)) (RevKey info) (ri_ScriptType info) = Some True"
    using update_reveals_current_key [OF o ref_ext_script ref_ext_proto ref_ext_x509 k len, of 8 10] by blast
  then show ?thesis unfolding linked_nodes_def by blast
qed

theorem refund_returns_deposit_witness:
  "\<exists>fund refund k. GenerateFundingTransaction ref_ext (\<lambda>_. 0) (spendable sample_wallet1) sample_wallet1 4 2 [3] = Some (Some fund) \<and>
     generateRefundTransaction ref_ext 1 node_a [3] fund 2 [5] = Some refund \<and>
     sum_list (map (unat \<circ> Amount) (Outputs refund)) + 4 = nat_amount (take k (spendable sample_wallet1))"
proof -
  have "id_PrivateKey (w_Id sample_wallet1) \<noteq> None"
    by (simp add: sample_wallet1_eq sample_wallet0_def sample_id_def)
  then obtain change ins infos where
    "generateTransactionInputs ref_ext (\<lambda>_. 0) (spendable sample_wallet1) sample_wallet1 (4 + 2) 2 = Some (change, ins, infos)"
    using generateTransactionInputs_total by blast
  then obtain fund where fund:
    "GenerateFundingTransaction ref_ext (\<lambda>_. 0) (spendable sample_wallet1) sample_wallet1 4 2 [3] = Some (Some fund)"
    by (simp add: GenerateFundingTransaction_def ref_ext_def)
  have key: "id_PrivateKey (ln_Id node_a) \<noteq> None" by (simp add: node_a_def sample_node_def sample_id_def)
  have "nat_amount (spendable sample_wallet1) = 9"
    by (simp add: sample_wallet1_spendable sample_coin_amount)
  then have "\<exists>refund k. generateRefundTransaction ref_ext 1 node_a [3] fund 2 [5] = Some refund \<and>
     sum_list (map (unat \<circ> Amount) (Outputs refund)) + 4 = nat_amount (take k (spendable sample_wallet1))"
    using refund_returns_deposit [OF fund _ _ key, of 1 "[3]" "[5]"] by auto
  then show ?thesis using fund by blast
qed

end
