(* ===== verification/Node_Instances.thy ===== *)
theory Node_Instances
  imports Node_Sync Node_Relay Node_Machine Chain_Instances Channel_Instances
begin

text \<open>
  Instances of the properties of the node: two nodes \<open>a\<close> and \<open>b\<close> that are peers of each other, on the
  reference libraries, with a chain of one stored block and, but for one instance, without miners.
\<close>

definition quiet_config :: node_Config where
  "quiet_config = (node_DefaultConfig 40)\<lparr>MinerConfig := (miner_DefaultConfig 3)\<lparr>HasMiner := False\<rparr>\<rparr>"

definition full_node :: "string \<Rightarrow> string \<Rightarrow> Peer \<Rightarrow> (bytes \<times> bytes) list Node" where
  "full_node addr a p = \<lparr>n_Config = quiet_config, n_Address = addr, n_Id = sample_id, n_BlockChain = sample_bc,
     n_disk = sample_disk, n_Wallet = None, n_Miner = None, n_LightningNode = sample_node addr a p,
     n_WatchTower = \<lparr>wt_Id = sample_id, wt_RevocationKeys = None\<rparr>, SeenTransactions = [], SeenBlocks = [],
     fGetAddr = False, n_net = sample_net a p, Paused = False, next_object = 0\<rparr>"

definition full_a :: "(bytes \<times> bytes) list Node" where "full_a = full_node ''a'' ''b'' peer_b"
definition full_b :: "(bytes \<times> bytes) list Node" where "full_b = full_node ''b'' ''a'' peer_a"

lemmas full_defs = full_a_def full_b_def full_node_def quiet_config_def sample_net_def peer_addrs_def

lemma full_chain [simp]: "n_BlockChain full_a = sample_bc" "n_disk full_a = sample_disk" "SeenBlocks full_a = []"
  by (simp_all add: full_a_def full_node_def)

lemma full_peers: "peer_addrs full_a = [0]" "peer_addrs full_b = [0]"
  by (simp_all add: full_defs pdb_List_def peer_a_def peer_b_def)

lemma full_facts:
  "\<not> HasMiner (MinerConfig (n_Config full_a))" "\<not> HasMiner (MinerConfig (n_Config full_b))"
  "adb_Get (AddressDB (n_net full_b)) (n_Address full_a) = Some 0" "SeenTransactions full_b = []"
  "knows_peer full_a (n_Address full_b)" "knows_peer full_b (n_Address full_a)"
  unfolding knows_peer_def full_peers by (simp_all add: full_defs adb_Get_def address_New_def)

abbreviation next_block :: Block where "next_block \<equiv> sample_next g_hash []"

lemma next_block_appendable: "appendable ref_ext sample_bc next_block"
proof -
  have "length g_hash < 1000" by (simp add: length_ref_Block_Hash sample_block_def)
  then show ?thesis
    using sample_next_ascii [of g_hash] sample_next_room [of g_hash]
    by (simp add: appendable_def new_block_def inputs_of_def)
qed

theorem forward_block_appends_witness:
  "\<exists>n' tasks. ForwardBlock ref_ext full_a (EncodeBlock next_block) = Some (Inr (), n', tasks) \<and>
     represents ref_ext (n_BlockChain n') (n_disk n') [sample_block, next_block]"
proof -
  have "represents ref_ext (n_BlockChain full_a) (n_disk full_a) [sample_block]" using sample_represents by simp
  from forward_block_appends [OF this, of next_block] show ?thesis
    using sample_db_ok(1) next_block_appendable by auto
qed

theorem block_handled_at_most_twice_witness:
  "\<exists>n seen k. forward_blocks ref_ext full_a [EncodeBlock (sample_next g_hash [sample_spend]), EncodeBlock (sample_next g_hash [sample_spend])]
       = Some n \<and>
     ForwardBlock ref_ext n (EncodeBlock (sample_next g_hash [sample_spend])) = Some (Inr (), n\<lparr>SeenBlocks := seen, next_object := k\<rparr>, [])"
proof -
  let ?b = "sample_next g_hash [sample_spend]"
  have "ValidateBlock ref_ext (CoinDB sample_bc) [sample_spend] = Some False"
    using ValidateBlock_eq [OF sample_db_ok(2), of "[sample_spend]"] sample_db_ok(3)
    by (simp add: inputs_of_def sample_spend_def)
  then obtain n where n: "forward_blocks ref_ext full_a [EncodeBlock ?b, EncodeBlock ?b] = Some n"
    by (simp add: ForwardBlock_def note_block_def CheckBlock_def block_wire.decode_encode Let_def case_prod_unfold)
  show ?thesis
    using block_handled_at_most_twice [OF n, of "Block_Hash ref_ext ?b" "EncodeBlock ?b"] n
    by (auto simp: block_wire.decode_encode)
qed

theorem bootstrap_catches_up_witness:
  "\<exists>peer n'. represents ref_ext (n_BlockChain peer) (n_disk peer) [sample_block, next_block] \<and>
     Bootstrap ref_ext [(0, Node_GetBlocks ref_ext peer g_hash)] (\<lambda>_ h. Some (GetData ref_ext peer h)) full_a = Some (Inr n') \<and>
     represents ref_ext (n_BlockChain n') (n_disk n') [sample_block, next_block]"
proof -
  obtain bc d where step: "HandleBlock ref_ext sample_bc sample_disk next_block = Some (bc, d)"
    "represents ref_ext bc d [sample_block, next_block]"
    by (rule HandleBlock_appendable [OF sample_represents sample_db_ok(1) next_block_appendable]) auto
  let ?peer = "full_b\<lparr>n_BlockChain := bc, n_disk := d\<rparr>"
  have tip: "LastHash sample_bc = g_hash" by (simp add: sample_bc_def)
  have hs: "Node_GetBlocks ref_ext ?peer g_hash = Some [Block_Hash ref_ext next_block]"
    using Node_GetBlocks_eq [of ref_ext ?peer "[sample_block, next_block]" 0] step(2) by simp
  have "\<exists>n'. Bootstrap ref_ext [(0, Some [Block_Hash ref_ext next_block])] (\<lambda>_ h. Some (GetData ref_ext ?peer h)) full_a =
      Some (Inr n') \<and> represents ref_ext (n_BlockChain n') (n_disk n') [sample_block, next_block]"
    using bootstrap_catches_up [of ref_ext full_a "[sample_block]" ?peer "[next_block]" "[Block_Hash ref_ext next_block]" 0
        "[(0, Some [Block_Hash ref_ext next_block])]" "\<lambda>_ h. Some (GetData ref_ext ?peer h)"]
      sample_represents sample_db_ok(1) step(2) next_block_appendable full_peers(1) hs tip
    by (auto simp: step(1))
  then obtain n' where "Bootstrap ref_ext [(0, Node_GetBlocks ref_ext ?peer g_hash)] (\<lambda>_ h. Some (GetData ref_ext ?peer h)) full_a =
      Some (Inr n')" "represents ref_ext (n_BlockChain n') (n_disk n') [sample_block, next_block]"
    unfolding hs by blast
  moreover have "represents ref_ext (n_BlockChain ?peer) (n_disk ?peer) [sample_block, next_block]" using step(2) by simp
  ultimately show ?thesis by blast
qed

text \<open>The node \<open>b\<close> with a miner that is not active.\<close>

definition resting_miner :: Miner where
  "resting_miner = sample_miner\<lparr>m_TxPool := NewTxPool (miner_DefaultConfig 3)\<rparr>"

definition mining_b :: "(bytes \<times> bytes) list Node" where
  "mining_b = full_b\<lparr>n_Config := node_DefaultConfig 40, n_Miner := Some resting_miner\<rparr>"

lemma mining_b_simps:
  "HasMiner (MinerConfig (n_Config mining_b))" "n_Miner mining_b = Some resting_miner" "\<not> Active resting_miner"
  "SeenTransactions mining_b = []" "n_net mining_b = n_net full_b"
  by (simp_all add: mining_b_def node_DefaultConfig_def miner_DefaultConfig_def resting_miner_def sample_miner_def full_facts)

lemma resting_miner_adds:
  "\<exists>m ev. HandleTransaction resting_miner (Some [6]) (Some ((sample_tx 1)\<lparr>Segwit := True\<rparr>)) = Some (m, ev) \<and> Count (m_TxPool m) = 1"
  by (simp add: HandleTransaction_def getInputSums_def slice_get_def TxPool_Add_def CalculatePriority_def sample_tx_def Transaction_Size_def
      resting_miner_def sample_miner_def EncodeTransaction_def SizeOfTransaction_eq NewTxPool_def miner_DefaultConfig_def Let_def)

theorem segwit_relay_witness:
  "let tx = (sample_tx 1)\<lparr>Segwit := True, Witnesses := [[7]]\<rparr>; (a', tasks) = BroadcastTransaction ref_ext full_a tx
   in \<exists>msg b' m. tasks = [ForwardTransactionTo 0 msg] \<and>
        ForwardTransaction ref_ext (\<lambda>_. serve_witnesses ref_ext a') (Some [6]) mining_b msg =
          Some (Inr (), b', forwards mining_b (tx\<lparr>Witnesses := []\<rparr>)) \<and>
        map_of (SeenTransactions b') (Transaction_Hash ref_ext tx) = Some \<lparr>tc_Transaction = tx, tc_Count = 1\<rparr> \<and>
        n_Miner b' = Some m \<and> Count (m_TxPool m) = 1"
proof -
  let ?tx = "(sample_tx 1)\<lparr>Segwit := True, Witnesses := [[7]]\<rparr>"
  obtain a' tasks where br: "BroadcastTransaction ref_ext full_a ?tx = (a', tasks)" by fastforce
  then obtain msg where msg: "tasks = [ForwardTransactionTo 0 msg]"
    using full_peers(1) full_facts(1) by (auto simp: BroadcastTransaction_def)
  have plain: "?tx\<lparr>Witnesses := []\<rparr> = (sample_tx 1)\<lparr>Segwit := True\<rparr>" by (simp add: sample_tx_def)
  obtain m ev where m: "HandleTransaction resting_miner (Some [6]) (Some (?tx\<lparr>Witnesses := []\<rparr>)) = Some (m, ev)" "Count (m_TxPool m) = 1"
    unfolding plain using resting_miner_adds by blast
  show ?thesis
    using segwit_relay [OF br, of 0 msg mining_b 0 "\<lambda>_. serve_witnesses ref_ext a'" resting_miner "Some [6]" m ev] br msg m
    by (auto simp: full_facts mining_b_simps)
qed

theorem transactions_circulate_witness:
  "circulates ref_ext (\<lambda>_ _. None) 100 full_a full_b
     \<lparr>pta_Transaction = Some (EncodeTransaction (sample_tx 1)), pta_Address = ''c''\<rparr>"
  by (rule transactions_circulate)
    (simp_all add: full_facts transaction_wire.decode_encode sample_tx_def)

text \<open>A new node that accepts a first peer.\<close>

definition hello :: pro_VersionRequest where
  "hello = \<lparr>pv_Version = 0, pv_AddrYou = ''a'', pv_AddrMe = ''b'', pv_BestHeight = 1\<rparr>"

lemma ref_ext_new_node: "\<exists>n. new_node ref_ext n \<and> nc_Version (n_Config n) = 0 \<and> n_Address n = []"
proof -
  let ?conf = "(node_DefaultConfig 40)\<lparr>ChainConfig := sample_config\<rparr>"
  obtain bc d where bc: "BlockChain_New ref_ext (\<lambda>_. True) (leveldb_empty ref_ext) (leveldb_empty ref_ext) (\<lambda>_. None) sample_config = Some (bc, d)"
    using BlockChain_New_genesis [OF ref_ext_leveldb ref_ext_proto sample_config_ascii sample_genesis_fits, of "\<lambda>_. True"] by auto
  obtain i where i: "id_New ref_ext 1 = Inr i"
    by (simp add: id_New_def CreateSimpleID_def PrivateKeyToBytes_def PublicKeyToBytes_def ref_ext_def)
  obtain n where n: "Node_New ref_ext (\<lambda>_. True) 1 1 (leveldb_empty ref_ext) (leveldb_empty ref_ext) (\<lambda>_. None) ?conf = Some (Inr n)"
    "n_Config n = ?conf" "n_Address n = []"
    using bc i by (simp add: Node_New_def lightning_New_def node_DefaultConfig_def)
  have "new_node ref_ext n" unfolding new_node_def using n(1) by blast
  then show ?thesis using n(2,3) by (auto simp: node_DefaultConfig_def)
qed

lemma new_node_accepts:
  assumes "new_node ref_ext n" and "nc_Version (n_Config n) = 0" and "Node_Version (1, 2, 3) n hello = (n', tasks)"
  shows "(node_move ref_ext)\<^sup>*\<^sup>* n n'" "pdb_Get (PeerDb (n_net n')) ''b'' \<noteq> None"
proof -
  show "(node_move ref_ext)\<^sup>*\<^sup>* n n'" using move_version [OF assms(3)] by blast
  show "pdb_Get (PeerDb (n_net n')) ''b'' \<noteq> None"
    using assms(2,3) Node_New_parts(2) [OF assms(1)]
    by (auto simp: Node_Version_def hello_def accept_version_def known_address_def net_New_def addressdb_New_def peer_NewDb_def
        alloc_def adb_Get_def adb_Add_def address_New_def pdb_Add_def pdb_Get_def peer_New_def pending_version_def Let_def
        split: if_splits)
qed

theorem node_network_invariant_witness:
  "\<exists>n n' tasks p. new_node ref_ext n \<and> Node_Version (1, 2, 3) n hello = (n', tasks) \<and>
     pdb_Get (PeerDb (n_net n')) ''b'' = Some p \<and> adb_Get (AddressDB (n_net n')) ''b'' = Some (p_Addr p)"
proof -
  obtain n where n: "new_node ref_ext n" "nc_Version (n_Config n) = 0" using ref_ext_new_node by blast
  obtain n' tasks where v: "Node_Version (1, 2, 3) n hello = (n', tasks)" by fastforce
  note acc = new_node_accepts [OF n v]
  show ?thesis using node_network_invariant [OF n(1) acc(1)] acc(2) n(1) v by blast
qed

theorem watch_tower_never_armed_witness:
  "\<exists>n n' tasks. new_node ref_ext n \<and> Node_Version (1, 2, 3) n hello = (n', tasks) \<and>
     node_handles ref_ext n' (RevocationKeyReceived \<lparr>RevKey = [1], ri_TransactionOutput = \<lparr>Amount = 1, LockingScript = []\<rparr>,
       ri_OutputIndex = 0, TransactionHash = ''x'', ri_ScriptType = 0\<rparr>) = None"
proof -
  obtain n where n: "new_node ref_ext n" "nc_Version (n_Config n) = 0" using ref_ext_new_node by blast
  obtain n' tasks where v: "Node_Version (1, 2, 3) n hello = (n', tasks)" by fastforce
  show ?thesis using watch_tower_never_armed [OF n(1) new_node_accepts(1) [OF n v]] n(1) v by blast
qed

end
