(* ===== verification/Net_Instances.thy ===== *)
theory Net_Instances
  imports Net_Flood Net_Peers Net_Bootstrap Node_Tasks Node_Instances
begin

text \<open>
  Instances of the properties of the network: the processes \<open>a:1\<close> and \<open>b:2\<close> on the reference libraries.
\<close>

definition host :: "string \<Rightarrow> string \<Rightarrow> (bytes \<times> bytes) list CoinDatabase \<Rightarrow> (bytes \<times> bytes) list Node" where
  "host addr other c = full_node addr other peer_b \<lparr>n_BlockChain := sample_bc\<lparr>CoinDB := c\<rparr>,
     n_Config := quiet_config\<lparr>WalletConfig := (WalletConfig quiet_config)\<lparr>HasWallet := False\<rparr>\<rparr>\<rparr>"

lemma host_address [simp]: "FmtAddr ''a:1'' \<noteq> None" "FmtAddr ''b:2'' \<noteq> None"
  using FmtAddr_host_port [of "''a''" "''1''"] FmtAddr_host_port [of "''b''" "''2''"] by simp_all

section \<open>A block\<close>

abbreviation spending_block :: Block where "spending_block \<equiv> sample_next g_hash [sample_spend]"

lemma spending_block_ascii: "ascii_Block (EncodeBlock spending_block)"
  by (simp add: ascii_Block_def EncodeBlock_def sample_next_def sample_block_def ascii_Header_def EncodeHeader_def
      ascii_Transaction_def EncodeTransaction_def EncodeTransactionInput_def EncodeTransactionOutput_def sample_spend_def)

lemma spending_block_room:
  assumes "coindb_wf ref_ext c" and "utxo ref_ext c = outputs_of ref_ext sample_cb"
  shows "room_for ref_ext (sample_bc\<lparr>CoinDB := c\<rparr>) spending_block"
proof -
  obtain coin where "GetCoin ref_ext c (locator cb_hash 0) = Some (Some coin)" "unspent coin = Some \<lparr>Amount = 5, LockingScript = [1]\<rparr>"
    using GetCoin_utxo [OF assms(1), of "locator cb_hash 0"] sample_coins(1) by (auto simp: assms(2) split: option.splits)
  then have "GetCoin ref_ext c \<lparr>cl_ReferenceTransactionHash = cb_hash, cl_OutputIndex = 0\<rparr> = Some (Some coin)"
    "c_TransactionOutput coin = \<lparr>Amount = 5, LockingScript = [1]\<rparr>"
    by (auto simp: locator_def unspent_def split: if_splits)
  moreover have "length g_hash < 1000" by (simp add: length_ref_Block_Hash sample_block_def)
  moreover have "length cb_hash < 1000"
    by (simp add: Transaction_Hash_def ref_ext_def enc_Tx_def enc_TxIn_def enc_TxOut_def sample_cb_def EncodeTransaction_def
        EncodeTransactionOutput_def enc_list_def enc_bool_def Let_def)
  moreover have "fst (marshal_Block ref_ext x) = enc_Block x" "fst (marshal_UndoBlock ref_ext y) = enc_UndoBlock y" for x y
    by (simp_all add: ref_ext_def)
  ultimately show ?thesis
    by (auto simp: room_for_def cw_room_def log_room_def sample_bc_def sample_cw_def fresh_ChainWriter_def enc_Block_def
        enc_UndoBlock_def EncodeBlock_def EncodeHeader_def enc_Header_def sample_next_def sample_block_def enc_opt_def enc_list_def
        enc_Tx_def enc_TxIn_def enc_TxOut_def enc_bool_def EncodeTransaction_def EncodeTransactionInput_def EncodeTransactionOutput_def
        makeUndoBlock_def empty_UndoBlock_def EncodeUndoBlock_def sample_spend_def)
qed

definition block_world :: "(bytes \<times> bytes) list CoinDatabase \<Rightarrow> (bytes \<times> bytes) list world" where
  "block_world c = \<lparr>hosts = [''a:1'' \<mapsto> host ''a:1'' ''b:2'' c, ''b:2'' \<mapsto> host ''b:2'' ''a:1'' c], servers = (\<lambda>_. Serving),
     inflight = [\<lparr>env_from = ''c:3'', env_to = ''a:1'', env_msg = BlockMsg (EncodeBlock spending_block), env_logs = []\<rparr>]\<rparr>"

lemma host_peers: "peer_addresses (host addr other c) = [other]"
  by (simp add: host_def peer_addresses_def ptr_address_def peer_addrs_def full_node_def sample_net_def pdb_List_def peer_b_def
      address_New_def)

lemma host_pending:
  assumes "coindb_ok ref_ext c" and "utxo ref_ext c = outputs_of ref_ext sample_cb" and "known_hashes c \<subseteq> {cb_hash}"
    and "FmtAddr addr \<noteq> None" and "FmtAddr other \<noteq> None"
  shows "block_pending ref_ext [sample_block] spending_block (host addr other c)"
proof -
  have sound: "sound_node (host addr other c)"
    unfolding sound_node_def host_peers using assms(4,5) by (simp add: host_def full_node_def quiet_config_def)
  have chain: "represents ref_ext (sample_bc\<lparr>CoinDB := c\<rparr>) sample_disk [sample_block]"
    using sample_represents by (simp add: represents_def io_ok_def)
  have "locator cb_hash 0 \<in> dom (outputs_of ref_ext sample_cb)" using sample_coins(1) by blast
  then have app: "appendable ref_ext (sample_bc\<lparr>CoinDB := c\<rparr>) spending_block"
    using assms(1-3) spending_block_ascii spending_block_room [of c]
    by (auto simp: appendable_def new_block_def coindb_ok_def)
  show ?thesis
    using sound chain app assms(1) by (simp add: block_pending_def host_def full_node_def)
qed

lemma block_world_flood: "\<exists>c. flood_world ref_ext [sample_block] spending_block (block_world c)"
proof -
  obtain c where "coindb_ok ref_ext c" "utxo ref_ext c = outputs_of ref_ext sample_cb" "known_hashes c \<subseteq> {cb_hash}"
    by (rule sample_state)
  note pending = host_pending [OF this host_address] host_pending [OF this host_address(2,1)]
  have "flood_world ref_ext [sample_block] spending_block (block_world c)"
    using pending by (auto simp: flood_world_def block_world_def host_peers block_envelope_def)
  then show ?thesis by blast
qed

theorem block_flood_terminates_witness:
  "\<exists>c m w. flood_world ref_ext [sample_block] spending_block (block_world c) \<and> (net_step ref_ext ^^ m) (block_world c) w \<and>
     inflight w = [] \<and> m \<le> 7"
proof -
  obtain c where w: "flood_world ref_ext [sample_block] spending_block (block_world c)" using block_world_flood by blast
  then obtain w' where "(net_step ref_ext)\<^sup>*\<^sup>* (block_world c) w'" "inflight w' = []"
    using world_rests [OF flood_world_ok [OF w]] by (auto simp: flood_world_def)
  then obtain m where run: "(net_step ref_ext ^^ m) (block_world c) w'" "inflight w' = []" by (auto dest: rtranclp_imp_relpowp)
  have "m \<le> 7" using block_flood_terminates [OF w run(1)] by (simp add: block_world_def host_peers)
  with w run show ?thesis by blast
qed

theorem block_flood_reaches_all_witness:
  "\<exists>c w n. (net_step ref_ext)\<^sup>*\<^sup>* (block_world c) w \<and> inflight w = [] \<and> hosts w ''b:2'' = Some n \<and>
     represents ref_ext (n_BlockChain n) (n_disk n) [sample_block, spending_block]"
proof -
  obtain c where w: "flood_world ref_ext [sample_block] spending_block (block_world c)" using block_world_flood by blast
  then obtain w' where run: "(net_step ref_ext)\<^sup>*\<^sup>* (block_world c) w'" "inflight w' = []"
    using world_rests [OF flood_world_ok [OF w]] by (auto simp: flood_world_def)
  have "peer_edge (block_world c) ''a:1'' ''b:2''" by (simp add: peer_edge_def block_world_def host_peers)
  then have "\<exists>n. hosts w' ''b:2'' = Some n \<and> represents ref_ext (n_BlockChain n) (n_disk n) ([sample_block] @ [spending_block])"
    by (intro block_flood_reaches_all [OF w run, of "hd (inflight (block_world c))"]) (simp_all add: block_world_def)
  with run show ?thesis by auto
qed

section \<open>A meeting\<close>

definition new_host :: "string \<Rightarrow> (bytes \<times> bytes) list Node" where
  "new_host addr = (host addr [] sample_db0)\<lparr>n_net := net_New\<rparr>"

lemma new_host_simps: "n_Address (new_host addr) = addr" "n_net (new_host addr) = net_New" "nc_Version (n_Config (new_host addr)) = 0"
  by (simp_all add: new_host_def host_def full_node_def quiet_config_def node_DefaultConfig_def)

lemma net_New_stranger: "stranger net_New addr"
  using net_New_ok by (simp add: stranger_def adb_Get_def) (simp add: net_New_def addressdb_New_def peer_NewDb_def)

definition meeting_world :: "(bytes \<times> bytes) list world" where
  "meeting_world = \<lparr>hosts = [''a:1'' \<mapsto> new_host ''a:1'', ''b:2'' \<mapsto> new_host ''b:2''], servers = (\<lambda>_. Serving),
     inflight = [\<lparr>env_from = ''a:1'', env_to = ''b:2'', env_msg = VersionMsg (version_request (new_host ''a:1'') ''b:2''),
       env_logs = [''b:2'']\<rparr>]\<rparr>"

theorem connect_makes_peers_witness:
  "\<exists>w na nb. (net_step ref_ext ^^ 3) meeting_world w \<and> inflight w = [] \<and> hosts w ''a:1'' = Some na \<and> hosts w ''b:2'' = Some nb \<and>
     pdb_Get (PeerDb (n_net na)) ''b:2'' \<noteq> None \<and> pdb_Get (PeerDb (n_net nb)) ''a:1'' \<noteq> None"
proof -
  note connect = connect_makes_peers [where w = meeting_world and a = "''a:1''" and b = "''b:2''" and v = 0 and E = ref_ext
      and na = "new_host ''a:1''" and nb = "new_host ''b:2''" and req = "version_request (new_host ''a:1'') ''b:2''"]
  have meets: "m \<le> 3 \<and> (inflight w = [] \<longleftrightarrow> m = 3) \<and>
      (m = 3 \<longrightarrow> (\<exists>na nb. hosts w ''a:1'' = Some na \<and> hosts w ''b:2'' = Some nb \<and>
         pdb_Get (PeerDb (n_net na)) ''b:2'' \<noteq> None \<and> pdb_Get (PeerDb (n_net nb)) ''a:1'' \<noteq> None))"
    if "(net_step ref_ext ^^ m) meeting_world w" for m w
    using connect [where m = m and w' = w] that net_New_stranger
    by (simp add: serves_def meeting_world_def new_host_simps Node_ConnectToPeer_def)
  have "\<exists>w. (net_step ref_ext ^^ m) meeting_world w" if "m \<le> 3" for m
    using that
  proof (induction m)
    case (Suc m)
    then obtain w where w: "(net_step ref_ext ^^ m) meeting_world w" by auto
    then have "inflight w \<noteq> []" using meets [OF w] Suc.prems by simp
    then obtain w' where "net_step ref_ext w w'" using net_progress [of w "[]"] by (cases "inflight w") auto
    then show ?case using w by auto
  qed simp
  then obtain w where "(net_step ref_ext ^^ 3) meeting_world w" by blast
  then show ?thesis using meets [of 3 w] by blast
qed

section \<open>A bad address\<close>

definition bad_news :: envelope where
  "bad_news = \<lparr>env_from = ''b:2'', env_to = ''a:1'', env_msg = AddressesMsg [\<lparr>pa_Addr = ''x'', pa_LastSeen = 5\<rparr>], env_logs = []\<rparr>"

definition bad_world :: "(bytes \<times> bytes) list world" where
  "bad_world = \<lparr>hosts = [''a:1'' \<mapsto> new_host ''a:1''], servers = (\<lambda>_. Serving), inflight = [bad_news]\<rparr>"

lemma bad_world_rests: "\<exists>w. (net_step ref_ext)\<^sup>*\<^sup>* bad_world w \<and> inflight w = []"
proof -
  have "\<exists>n. SendAddresses (\<lambda>ks. ks) (new_host ''a:1'') [\<lparr>pa_Addr = ''x'', pa_LastSeen = 5\<rparr>] =
      Some (n, [SendVersionTo ''x'' (version_request (new_host ''a:1'') ''x'')])"
    by (simp add: SendAddresses_def learn_address_def new_host_simps alloc_def adb_Add_def pdb_Get_def adb_Get_def pdb_GetRandom_def
        pdb_List_def net_New_def addressdb_New_def peer_NewDb_def Let_def)
  then obtain n where n: "SendAddresses (\<lambda>ks. ks) (new_host ''a:1'') [\<lparr>pa_Addr = ''x'', pa_LastSeen = 5\<rparr>] =
      Some (n, [SendVersionTo ''x'' (version_request (new_host ''a:1'') ''x'')])" by blast
  define w where "w = bad_world\<lparr>hosts := (hosts bad_world)(''a:1'' \<mapsto> n),
    inflight := [\<lparr>env_from = ''a:1'', env_to = ''x'', env_msg = VersionMsg (version_request (new_host ''a:1'') ''x''),
      env_logs = [''x'']\<rparr>]\<rparr>"
  have "net_step ref_ext bad_world w"
    using net_deliver [of bad_world "[]" bad_news "[]" "new_host ''a:1''" ref_ext
        "\<lparr>c_clock = (0, 0, 0), c_shuffle = (\<lambda>ks. ks), c_rpc = (\<lambda>_ _. None), c_reply = None\<rparr>" n] n
    by (simp add: bad_world_def bad_news_def w_def reachable_host_def handle_def dispatch_def)
  moreover obtain w' where "net_step ref_ext w w'" "inflight w' = []"
    using net_fail [of w "[]" "hd (inflight w)" "[]" "Some ''x''" ref_ext]
    by (auto simp: w_def bad_world_def reachable_host_def may_print_def)
  ultimately show ?thesis by (meson converse_rtranclp_into_rtranclp r_into_rtranclp)
qed

theorem bad_address_stops_process_witness:
  "\<exists>w. (net_step ref_ext)\<^sup>*\<^sup>* bad_world w \<and> hosts w ''a:1'' = None"
proof -
  obtain w where "(net_step ref_ext)\<^sup>*\<^sup>* bad_world w" "inflight w = []" using bad_world_rests by blast
  moreover from this have "hosts w ''a:1'' = None"
    by (intro bad_address_stops_process [of bad_news bad_world "''a:1''" "''x''" 5 "new_host ''a:1''" ref_ext w])
      (simp_all add: bad_world_def bad_news_def new_host_simps)
  ultimately show ?thesis by blast
qed

section \<open>Tasks\<close>

lemma new_node_relays:
  assumes "new_node ref_ext n" and "nc_Version (n_Config n) = 0" and "Node_Version (1, 2, 3) n hello = (n1, tasks)"
    and "n_Address n = ''''"
  shows "\<exists>n2 ts p. SendAddresses (\<lambda>ks. ks) n1 [\<lparr>pa_Addr = ''c:3'', pa_LastSeen = 5\<rparr>] = Some (n2, ts) \<and>
    SendAddressesTo p [\<lparr>pa_Addr = ''c:3'', pa_LastSeen = 5\<rparr>] \<in> set ts"
  using assms Node_New_parts(2) [OF assms(1)]
  by (auto simp: Node_Version_def hello_def accept_version_def known_address_def net_New_def addressdb_New_def peer_NewDb_def
      alloc_def adb_Get_def adb_Add_def address_New_def pdb_Add_def pdb_Get_def peer_New_def pending_version_def
      SendAddresses_def learn_address_def pdb_GetRandom_def pdb_List_def set_SentVer_def Let_def split: if_splits)

theorem node_tasks_well_typed_witness:
  "\<exists>n1 n2 ts p. SendAddresses (\<lambda>ks. ks) n1 [\<lparr>pa_Addr = ''c:3'', pa_LastSeen = 5\<rparr>] = Some (n2 :: (bytes \<times> bytes) list Node, ts) \<and>
     SendAddressesTo p [\<lparr>pa_Addr = ''c:3'', pa_LastSeen = 5\<rparr>] \<in> set ts \<and>
     adb_Get (AddressDB (n_net n2)) (ptr_address n2 p) = Some p"
proof -
  let ?news = "[\<lparr>pa_Addr = ''c:3'', pa_LastSeen = 5\<rparr>]"
  let ?c = "\<lparr>c_clock = (0, 0, 0), c_shuffle = (\<lambda>ks. ks), c_rpc = (\<lambda>_ _. None), c_reply = None\<rparr>"
  obtain n where n: "new_node ref_ext n" "nc_Version (n_Config n) = 0" "n_Address n = ''''" using ref_ext_new_node by blast
  obtain n1 tasks where v: "Node_Version (1, 2, 3) n hello = (n1, tasks)" by fastforce
  obtain n2 ts p where s: "SendAddresses (\<lambda>ks. ks) n1 ?news = Some (n2, ts)" "SendAddressesTo p ?news \<in> set ts"
    using new_node_relays [OF n(1,2) v n(3)] by blast
  have "handle ref_ext ?c n1 (AddressesMsg ?news) = Some (True, n2, ts)" using s(1) by (simp add: handle_def)
  then show ?thesis
    using node_tasks_well_typed [OF n(1) new_node_accepts(1) [OF n(1,2) v] disjI1 s(2), of ?c "AddressesMsg ?news" True n2 p] s
    by (auto simp: task_peer_def)
qed

section \<open>Bootstrapping\<close>

text \<open>A node with the peers \<open>b\<close> and \<open>c\<close>, where nobody answers for \<open>c\<close>.\<close>

definition joining :: "(bytes \<times> bytes) list Node" where
  "joining = full_a\<lparr>n_net := \<lparr>addr_store = [address_New ''b'' 0, address_New ''c'' 0],
     AddressDB = \<lparr>addresses = [(''b'', 0), (''c'', 1)], adb_limit = 1000\<rparr>,
     PeerDb = \<lparr>peers = [(''b'', peer_b), (''c'', peer_b\<lparr>p_Addr := 1\<rparr>)], pdb_limit = 200, pdb_Addr = ''''\<rparr>, next_peer = 8\<rparr>\<rparr>"

definition serving_b :: "(bytes \<times> bytes) list Node \<Rightarrow> transport" where
  "serving_b m = 
     \<lparr>grpc_Dial = (\<lambda>addr. addr = ''b''), coin_Version = (\<lambda>_ _. (0, Inl Unimplemented)),
      coin_GetBlocks = (\<lambda>_ h. (1, case Node_GetBlocks ref_ext m h of None \<Rightarrow> Inl HandlerError | Some hs \<Rightarrow> Inr hs)),
      coin_GetData = (\<lambda>_ h. (1, Inr (GetData ref_ext m h))), coin_GetAddresses = (\<lambda>_ _. (0, Inl Unimplemented)),
      coin_SendAddresses = (\<lambda>_ _. (0, Inl Unimplemented)), coin_ForwardTransaction = (\<lambda>_ _. (0, Inl Unimplemented)),
      coin_ForwardBlock = (\<lambda>_ _. (0, Inl Unimplemented)), coin_GetWitnesses = (\<lambda>_ _. (0, Inl Unimplemented)),
      lightning_Version = (\<lambda>_ _. (0, Inl Unimplemented)), lightning_OpenChannel = (\<lambda>_ _. (0, Inl Unimplemented)),
      lightning_GetUpdatedTransactions = (\<lambda>_ _. (0, Inl Unimplemented)), lightning_GetRevocationKey = (\<lambda>_ _. (0, Inl Unimplemented))\<rparr>"

lemma serving_b_facts: "delivers ref_ext (serving_b m) ''b'' m" "silent (serving_b m) ''c''"
  by (simp_all add: delivers_def silent_def serving_b_def RPCTimeout_def)

theorem bootstrap_over_rpc_witness:
  "\<exists>m n. represents ref_ext (n_BlockChain m) (n_disk m) [sample_block, next_block] \<and>
     rpc_Bootstrap ref_ext (serving_b m) [1, 0] joining = Some (Inr n) \<and>
     represents ref_ext (n_BlockChain n) (n_disk n) [sample_block, next_block]"
proof -
  obtain bc d where step: "HandleBlock ref_ext sample_bc sample_disk next_block = Some (bc, d)"
    "represents ref_ext bc d [sample_block, next_block]"
    by (rule HandleBlock_appendable [OF sample_represents sample_db_ok(1) next_block_appendable]) auto
  let ?m = "full_b\<lparr>n_BlockChain := bc, n_disk := d\<rparr>"
  have parts: "n_BlockChain joining = sample_bc" "n_disk joining = sample_disk" "peer_addrs joining = [0, 1]"
    "a_Addr (addr_store (n_net joining) ! 0) = ''b''" "a_Addr (addr_store (n_net joining) ! Suc 0) = ''c''"
    by (simp_all add: joining_def peer_addrs_def pdb_List_def peer_b_def address_New_def)
  have "\<exists>n. rpc_Bootstrap ref_ext (serving_b ?m) [1, 0] joining = Some (Inr n) \<and>
      represents ref_ext (n_BlockChain n) (n_disk n) [sample_block, next_block]"
    using bootstrap_over_rpc [of ref_ext joining "[sample_block]" ?m "[next_block]" "[1, 0]" 0 "serving_b ?m"]
      sample_represents sample_db_ok(1) step next_block_appendable serving_b_facts [of ?m]
    by (auto simp: parts insert_commute)
  moreover have "represents ref_ext (n_BlockChain ?m) (n_disk ?m) [sample_block, next_block]" using step(2) by simp
  ultimately show ?thesis by blast
qed

end
