(* ===== verification/Thread_Instances.thy ===== *)
theory Thread_Instances
  imports Node_Threads Channel_Peering Net_Instances
begin

text \<open>
  Instances of the properties of the goroutines of a process: the node \<open>a\<close> with a wallet and a miner on the reference libraries,
  which receives a transaction, with its miner active or not and the sums in time or too late.
\<close>

definition miner_a :: "bool \<Rightarrow> Miner" where
  "miner_a act = sample_miner\<lparr>m_TxPool := NewTxPool (miner_DefaultConfig 3), Active := act\<rparr>"

definition mining_a :: "bool \<Rightarrow> (bytes \<times> bytes) list Node" where
  "mining_a act = full_a\<lparr>n_Config := node_DefaultConfig 40, n_Wallet := Some sample_wallet0, n_Miner := Some (miner_a act)\<rparr>"

definition idle :: "bool \<Rightarrow> (bytes \<times> bytes) list process" where
  "idle act = \<lparr>p_node = mining_a act, p_lock = None, p_loop = LoopSelects, p_threads = [], p_out = [], p_down = False\<rparr>"

abbreviation tx_msg :: pro_TransactionWithAddress where
  "tx_msg \<equiv> \<lparr>pta_Transaction = Some (EncodeTransaction (sample_tx 1)), pta_Address = ''c''\<rparr>"

definition noted_a :: "bool \<Rightarrow> (bytes \<times> bytes) list Node" where
  "noted_a act = (mining_a act)\<lparr>SeenTransactions := [(Transaction_Hash ref_ext (sample_tx 1), \<lparr>tc_Transaction = sample_tx 1, tc_Count = 1\<rparr>)]\<rparr>"

lemma idle_simps [simp]:
  "p_node (idle act) = mining_a act" "p_lock (idle act) = None" "p_loop (idle act) = LoopSelects" "p_threads (idle act) = []"
  "p_out (idle act) = []" "\<not> p_down (idle act)" "started (idle act)"
  by (simp_all add: idle_def started_def)

lemma noted_a_simps [simp]:
  "HasMiner (MinerConfig (n_Config (mining_a act)))" "n_Config (noted_a act) = n_Config (mining_a act)"
  "n_Wallet (noted_a act) = Some sample_wallet0" "n_Wallet (mining_a act) = Some sample_wallet0"
  "n_Miner (noted_a act) = Some (miner_a act)" "n_Miner (mining_a act) = Some (miner_a act)" "Active (miner_a act) = act"
  by (simp_all add: mining_a_def noted_a_def node_DefaultConfig_def miner_DefaultConfig_def miner_a_def)

lemma tx_msg_simps [simp]:
  "fst (DecodeTransactionWithAddress tx_msg) = sample_tx 1" "GetInputSums ref_ext bc [sample_tx 1] = Some [0]"
  "note_transaction ref_ext rpc (mining_a act) tx_msg = Some (Inr (noted_a act))"
  by (simp_all add: DecodeTransactionWithAddress_def EncodeTransaction_def sample_tx_def GetInputSums_def note_transaction_def
      DecodeTransaction_def noted_a_def mining_a_def full_defs Let_def)

lemma pool_a: "\<exists>m. pool_add (miner_a act) [0] (sample_tx 1) = Some m \<and> Active m = act"
  by (simp add: pool_add_def slice_get_def TxPool_Add_def CalculatePriority_def sample_tx_def Transaction_Size_def miner_a_def
      EncodeTransaction_def SizeOfTransaction_eq NewTxPool_def miner_DefaultConfig_def Let_def)

section \<open>Runs\<close>

text \<open>Up to the request for sums, and the answer.\<close>

lemma run_asks: "(thread_step ref_ext)\<^sup>*\<^sup>* (idle act)
    (with_thread (idle act) (noted_a act) (Some 0) (LoopReplies [sample_tx 1] [0]) (SumsAwaited Handler (sample_tx 1)))"
proof -
  let ?at = "\<lambda>n l lp t. with_thread (idle act) n l lp t" and ?E = ref_ext and ?tx = "sample_tx 1"
  have "thread_step ?E (idle act) (?at (mining_a act) None LoopSelects (TxWaits tx_msg))"
    using thread_step.call_tx [of "idle act" ?E tx_msg] by (simp add: with_thread_def idle_def)
  moreover have "thread_step ?E (?at (mining_a act) None LoopSelects (TxWaits tx_msg)) (?at (mining_a act) (Some 0) LoopSelects (TxHolds tx_msg))"
    using thread_step.tx_lock [of "?at (mining_a act) None LoopSelects (TxWaits tx_msg)" "length (p_threads (idle act))" tx_msg ?E]
    unfolding with_thread_simps by simp
  moreover have "thread_step ?E (?at (mining_a act) (Some 0) LoopSelects (TxHolds tx_msg)) (?at (noted_a act) (Some 0) LoopSelects (SumsAsked Handler ?tx))"
    using thread_step.tx_noted [of "?at (mining_a act) (Some 0) LoopSelects (TxHolds tx_msg)" "length (p_threads (idle act))" tx_msg ?E
        "\<lambda>_ _. None" "noted_a act" ?tx]
    unfolding with_thread_simps by (simp add: CheckTransaction_def)
  moreover have "thread_step ?E (?at (noted_a act) (Some 0) LoopSelects (SumsAsked Handler ?tx))
      (?at (noted_a act) (Some 0) (LoopReplies [?tx] [0]) (SumsAwaited Handler ?tx))"
    using thread_step.ask_sums [of "?at (noted_a act) (Some 0) LoopSelects (SumsAsked Handler ?tx)" "length (p_threads (idle act))" Handler
        ?tx ?E "[0]" "noted_a act"]
    unfolding with_thread_simps by (simp add: node_step_iff node_receives_def node_handles_def)
  ultimately show ?thesis by (meson converse_rtranclp_into_rtranclp rtranclp.rtrancl_refl)
qed

text \<open>With an active miner, the handler gets no further than the send, in time or not.\<close>

definition stuck_a :: "Miner \<Rightarrow> loop_state \<Rightarrow> (bytes \<times> bytes) list process" where
  "stuck_a m lp = with_thread (idle True) ((noted_a True)\<lparr>n_Miner := Some m\<rparr>) (Some 0) lp (PoolNotified Handler (Some (sample_tx 1)))"

lemma run_stuck:
  obtains m where "(thread_step ref_ext)\<^sup>*\<^sup>* (idle True) (stuck_a m LoopSelects)"
    and "(thread_step ref_ext)\<^sup>*\<^sup>* (idle True) (stuck_a m (LoopReplies [sample_tx 1] [0]))"
proof -
  let ?s = "with_thread (idle True) (noted_a True) (Some 0) (LoopReplies [sample_tx 1] [0]) (SumsAwaited Handler (sample_tx 1))"
  obtain m where m: "pool_add (miner_a True) [0] (sample_tx 1) = Some m" "Active m" using pool_a [of True] by auto
  then have got: "sums_received (with_thread (idle True) (noted_a True) (Some 0) lp (SumsAwaited Handler (sample_tx 1))) 0 Handler (sample_tx 1) [0] =
      stuck_a m lp" for lp
    using with_thread_simps(7) [of "idle True"] by (simp add: sums_received_def stuck_a_def)
  have at: "thread_at ?s 0 (SumsAwaited Handler (sample_tx 1))" using with_thread_simps(6) [of "idle True"] by simp
  have "thread_step ref_ext ?s (stuck_a m LoopSelects)" "thread_step ref_ext ?s (stuck_a m (LoopReplies [sample_tx 1] [0]))"
    using thread_step.sums_in_time [OF _ at, of "[sample_tx 1]" "[0]" ref_ext] thread_step.sums_too_late [OF _ at, of ref_ext]
    by (simp_all add: got)
  then show ?thesis using run_asks [of True] by (intro that [of m]) (auto intro: rtranclp.rtrancl_into_rtrancl)
qed

section \<open>The properties\<close>

theorem handlers_exclusive_and_answers_own_witness:
  "\<exists>s'. (thread_step ref_ext)\<^sup>*\<^sup>* (idle True) s' \<and> p_threads s' ! 0 = SumsAwaited Handler (sample_tx 1) \<and>
     (\<exists>sums. p_loop s' = LoopReplies [sample_tx 1] sums)"
  using handlers_exclusive_and_answers_own [OF idle_simps(7) run_asks [of True], of 0 0] run_asks [of True]
  by (auto simp: with_thread_def)

theorem active_miner_blocks_handlers_witness:
  "\<exists>s s'. (thread_step ref_ext)\<^sup>*\<^sup>* (idle True) s \<and> (thread_step ref_ext)\<^sup>*\<^sup>* s s' \<and> s' \<noteq> s \<and> p_lock s' = Some 0 \<and>
     thread_at s' 1 (TxWaits tx_msg)"
proof -
  obtain m where m: "(thread_step ref_ext)\<^sup>*\<^sup>* (idle True) (stuck_a m LoopSelects)" by (rule run_stuck)
  define s where "s = (stuck_a m LoopSelects)\<lparr>p_threads := p_threads (stuck_a m LoopSelects) @ [TxWaits tx_msg]\<rparr>"
  define s' where "s' = s\<lparr>p_threads := p_threads s @ [TxWaits tx_msg]\<rparr>"
  have up: "\<not> p_down s" by (simp add: s_def stuck_a_def)
  have "thread_step ref_ext (stuck_a m LoopSelects) s" unfolding s_def by (rule thread_step.call_tx) (simp add: stuck_a_def)
  with m have run: "(thread_step ref_ext)\<^sup>*\<^sup>* (idle True) s" by (rule rtranclp.rtrancl_into_rtrancl)
  have next_call: "(thread_step ref_ext)\<^sup>*\<^sup>* s s'" unfolding s'_def using thread_step.call_tx [OF up] by (rule r_into_rtranclp)
  have at: "thread_at s 0 (PoolNotified Handler (Some (sample_tx 1)))" "thread_at s 1 (TxWaits tx_msg)"
    by (simp_all add: s_def stuck_a_def with_thread_def thread_at_def)
  have "s' \<noteq> s" by (cases s) (simp add: s'_def)
  moreover have "p_lock s' = Some 0 \<and> thread_at s' 1 (TxWaits tx_msg)"
    using active_miner_blocks_handlers [OF idle_simps(7) run at _ next_call] up by (simp add: waits_for_lock_def s'_def)
  ultimately show ?thesis using run next_call by blast
qed

theorem timeout_stops_loop_witness:
  "\<exists>s s'. (thread_step ref_ext)\<^sup>*\<^sup>* (idle True) s \<and> (thread_step ref_ext)\<^sup>*\<^sup>* s s' \<and> s' \<noteq> s \<and>
     p_loop s' = LoopReplies [sample_tx 1] [0]"
proof -
  obtain m where run: "(thread_step ref_ext)\<^sup>*\<^sup>* (idle True) (stuck_a m (LoopReplies [sample_tx 1] [0]))" by (rule run_stuck)
  let ?s = "stuck_a m (LoopReplies [sample_tx 1] [0])"
  define s' where "s' = ?s\<lparr>p_threads := p_threads ?s @ [TxWaits tx_msg]\<rparr>"
  have next_call: "(thread_step ref_ext)\<^sup>*\<^sup>* ?s s'"
    unfolding s'_def by (rule r_into_rtranclp, rule thread_step.call_tx) (simp add: stuck_a_def)
  have "nobody_awaits ?s" by (simp add: nobody_awaits_def stuck_a_def with_thread_def)
  moreover have "s' \<noteq> ?s" by (cases ?s) (simp add: s'_def)
  moreover have "p_loop ?s = LoopReplies [sample_tx 1] [0]" "\<not> p_down s'" by (simp_all add: s'_def stuck_a_def)
  ultimately show ?thesis
    using timeout_stops_loop [OF idle_simps(7) run _ _ next_call] run next_call by blast
qed

theorem active_miner_never_relays_witness:
  "\<exists>s'. (thread_step ref_ext)\<^sup>*\<^sup>* (idle True) s' \<and> p_threads s' = [PoolNotified Handler (Some (sample_tx 1))] \<and>
     \<not> thread_at s' 0 (TxForwards (sample_tx 1))"
proof -
  obtain m where run: "(thread_step ref_ext)\<^sup>*\<^sup>* (idle True) (stuck_a m LoopSelects)" by (rule run_stuck)
  have "mining_node (p_node (idle True))" by (simp add: mining_node_def)
  from active_miner_never_relays [OF idle_simps(7) this run, of 0 "sample_tx 1"] show ?thesis
    using run by (intro exI [of _ "stuck_a m LoopSelects"]) (simp add: stuck_a_def, simp add: with_thread_def)
qed

theorem forward_transaction_refined_witness:
  "\<exists>n' tasks. ForwardTransaction ref_ext (\<lambda>_ _. None) (Some [0]) (mining_a False) tx_msg = Some (Inr (), n', tasks) \<and>
     (thread_step ref_ext)\<^sup>*\<^sup>* (idle False) ((idle False)\<lparr>p_node := n', p_threads := [Finished], p_out := tasks\<rparr>)"
proof -
  obtain m where "pool_add (miner_a False) [0] (sample_tx 1) = Some m" "\<not> Active m" using pool_a [of False] by auto
  then obtain n' tasks where
    "ForwardTransaction ref_ext (\<lambda>_ _. None) (Some [0]) (mining_a False) tx_msg = Some (Inr (), n', tasks)"
    by (simp add: ForwardTransaction_def CheckTransaction_def HandleTransaction_parts getInputSums_def)
  then show ?thesis
    using forward_transaction_refined [of "idle False" ref_ext tx_msg "[0]" "\<lambda>_ _. None" "Inr ()" n' tasks] by simp
qed

section \<open>Lightning nodes\<close>

text \<open>Two lightning nodes that know nobody, each at its address.\<close>

definition new_lightning :: "string \<Rightarrow> LightningNode" where
  "new_lightning addr = (sample_node addr addr peer_a)\<lparr>ln_net := net_New\<rparr>"

definition two_lightning :: lightning_net where
  "two_lightning = \<lparr>ln_hosts = [''a:1'' \<mapsto> new_lightning ''a:1'', ''b:2'' \<mapsto> new_lightning ''b:2''], ln_connected = {}\<rparr>"

lemma two_lightning_fresh: "fresh_lightning two_lightning"
  using net_New_ok
  by (auto simp: fresh_lightning_def two_lightning_def new_lightning_def sample_node_def net_New_def peer_NewDb_def split: if_splits)

lemma new_lightning_stranger: "stranger (ln_net (new_lightning addr)) k"
  using net_New_ok by (simp add: stranger_def new_lightning_def adb_Get_def net_New_def addressdb_New_def peer_NewDb_def)

theorem channel_needs_both_connects_witness:
  "\<exists>L' A' p. (lightning_step ref_ext)\<^sup>*\<^sup>* two_lightning L' \<and> ln_hosts L' ''a:1'' = Some A' \<and> get_channel A' p \<noteq> None \<and>
     (''a:1'', ''b:2'') \<in> ln_connected L' \<and> (''b:2'', ''a:1'') \<in> ln_connected L'"
proof -
  let ?A = "new_lightning ''a:1''" and ?B = "new_lightning ''b:2''"
  have hosts: "ln_hosts two_lightning ''a:1'' = Some ?A" "ln_hosts two_lightning ''b:2'' = Some ?B" by (simp_all add: two_lightning_def)
  have node: "ln_Address (new_lightning k) = k" "Channels (new_lightning k) = []" "ln_Config (new_lightning k) = lightning_DefaultConfig 40"
    "can_sign ref_ext (new_lightning k)" for k
    by (simp_all add: new_lightning_def sample_node_def can_sign_def sample_id_def utils_Sign_def ref_ext_def)
  obtain L' A' B' p q cA cB where run: "(lightning_step ref_ext)\<^sup>*\<^sup>* two_lightning L'" "ln_hosts L' ''a:1'' = Some A'" "ln_hosts L' ''b:2'' = Some B'"
    "linked_nodes A' p cA B' q cB"
    using both_connects_open [OF hosts, of ref_ext "(1, 2)" "(3, 4, 5)" sample_fund "\<lambda>_. Some (Some sample_fund)"]
      node new_lightning_stranger ref_ext_revocation_key [of 1] ref_ext_revocation_key [of 5]
    by (auto simp: sample_fund_def)
  have "ln_Address B' = ''b:2''" using peering.invariant [OF two_lightning_fresh run(1)] run(3) by (simp add: peering_ok_def)
  then have "pdb_Get (PeerDb (ln_net A')) ''b:2'' = Some p" "get_channel A' p \<noteq> None" using run(4) by (auto simp: linked_nodes_def)
  with channel_needs_both_connects [OF two_lightning_fresh run(1,2)] run show ?thesis by blast
qed

end
