(* ===== verification/Coin_Revert.thy ===== *)
theory Coin_Revert
  imports Coin_Undo
begin

text \<open>
  Reverting and storing again several blocks in \<open>src/pkg/blockchain/coindatabase\<close>, as a reorganisation does. \<open>UndoCoins\<close> may leave
  records that hold an output index twice, so the lemmas keep only the lengths of the slices of a record, and follow the cache and
  the records instead of the coins. The cache is not flushed in between.
\<close>

section \<open>Databases whose records may hold an index twice\<close>

definition lax_db :: "('db, 'z) ext_scheme \<Rightarrow> 'db CoinDatabase \<Rightarrow> bool" where
  "lax_db E c \<longleftrightarrow> leveldb_laws E \<and> proto_laws E \<and> distinct (map fst (mainCache c)) \<and>
     (\<forall>h. \<exists>r. getCoinRecordFromDB E c h = Some r \<and> (\<forall>cr. r = Some cr \<longrightarrow> wf_lengths cr))"

lemma lax_db_laws: "lax_db E c \<Longrightarrow> leveldb_laws E" "lax_db E c \<Longrightarrow> proto_laws E"
  by (simp_all add: lax_db_def)

lemma lax_db_lengths: "lax_db E c \<Longrightarrow> getCoinRecordFromDB E c h = Some (Some cr) \<Longrightarrow> wf_lengths cr"
  unfolding lax_db_def by (metis option.inject)

lemma lax_db_wf: "coindb_wf E c \<Longrightarrow> lax_db E c"
  by (auto simp: lax_db_def coindb_wf_def record_at_def wf_CoinRecord_def split: option.splits) metis

lemma lax_db_cong:
  "lax_db E c \<Longrightarrow> cdb c' = cdb c \<Longrightarrow> distinct (map fst (mainCache c')) \<Longrightarrow> lax_db E c'"
  using getCoinRecord_cong [of c' c E] by (simp add: lax_db_def)

lemma lax_db_put:
  assumes "lax_db E c" and "wf_lengths cr"
  obtains c' where "putRecordInDB E c h cr = Some c'" "lax_db E c'" "mainCache c' = mainCache c"
    "mainCacheSize c' = mainCacheSize c" "mainCacheCapacity c' = mainCacheCapacity c"
    "getCoinRecordFromDB E c' = (getCoinRecordFromDB E c)(h := Some (Some cr))"
proof -
  obtain c' where c': "putRecordInDB E c h cr = Some c'" "mainCache c' = mainCache c"
    "mainCacheSize c' = mainCacheSize c" "mainCacheCapacity c' = mainCacheCapacity c"
    "\<forall>h'. getCoinRecordFromDB E c' h' = (if h' = h then Some (Some cr) else getCoinRecordFromDB E c h')"
    using getCoinRecord_put [OF lax_db_laws [OF assms(1)] assms(2), of c h] by blast
  moreover have "lax_db E c'" using assms c'(2,5) by (simp add: lax_db_def)
  ultimately show thesis using that by (simp add: fun_eq_iff)
qed

lemma getCoinRecord_delete:
  assumes "leveldb_laws E"
  shows "getCoinRecordFromDB E (deleteRecord E c h) = (getCoinRecordFromDB E c)(h := Some None)"
  using assms by (simp add: getCoinRecordFromDB_def deleteRecord_def leveldb_simps fun_eq_iff)

lemma lax_db_delete: "lax_db E c \<Longrightarrow> lax_db E (deleteRecord E c h)"
  using getCoinRecord_delete [of E c h] by (simp add: lax_db_def) (simp add: deleteRecord_def)

section \<open>Reverting one block\<close>

definition output_count :: "Transaction list \<Rightarrow> nat" where
  "output_count txs = sum_list (map (length \<circ> Outputs) txs)"

definition hashes_of :: "('db, 'z) ext_scheme \<Rightarrow> Transaction list \<Rightarrow> string set" where
  "hashes_of E txs = Transaction_Hash E ` set txs"

definition is_output :: "('db, 'z) ext_scheme \<Rightarrow> Transaction list \<Rightarrow> CoinLocator \<Rightarrow> bool" where
  "is_output E txs cl \<longleftrightarrow> (\<exists>tx \<in> set txs. outputs_of E tx cl \<noteq> None)"

lemma erase_outputs_lax:
  assumes "distinct (map fst (mainCache c))" and "n \<le> 2 ^ 32"
  shows "distinct (map fst (mainCache (foldl (erase_output E tx) c [0..<n]))) \<and>
    cdb (foldl (erase_output E tx) c [0..<n]) = cdb c \<and>
    mainCacheSize (foldl (erase_output E tx) c [0..<n]) = mainCacheSize c - word_of_nat n \<and>
    mainCacheCapacity (foldl (erase_output E tx) c [0..<n]) = mainCacheCapacity c \<and>
    (\<forall>cl. map_of (mainCache (foldl (erase_output E tx) c [0..<n])) cl =
      (if cl_ReferenceTransactionHash cl = Transaction_Hash E tx \<and> unat (cl_OutputIndex cl) < n then None
       else map_of (mainCache c) cl))"
  using assms(2)
proof (induction n)
  case (Suc n)
  then have "unat (word_of_nat n :: u32) = n" by (intro u32_of_nat_less) simp
  then have "cl_OutputIndex cl = word_of_nat n \<longleftrightarrow> unat (cl_OutputIndex cl) = n" for cl
    by (auto simp: word_unat_eq_iff)
  then show ?case
    using Suc by (auto simp: erase_output_def delete_conv' less_Suc_eq distinct_delete)
qed (use assms(1) in simp)

lemma erase_block_lax:
  assumes "lax_db E c" and "\<And>tx. tx \<in> set txs \<Longrightarrow> length (Outputs tx) < 2 ^ 32"
  shows "lax_db E (foldl (erase_transaction E) c txs) \<and>
    map_of (mainCache (foldl (erase_transaction E) c txs)) = (\<lambda>cl. if is_output E txs cl then None else map_of (mainCache c) cl) \<and>
    getCoinRecordFromDB E (foldl (erase_transaction E) c txs) =
      (\<lambda>h. if h \<in> hashes_of E txs then Some None else getCoinRecordFromDB E c h) \<and>
    mainCacheSize (foldl (erase_transaction E) c txs) = mainCacheSize c - word_of_nat (output_count txs) \<and>
    mainCacheCapacity (foldl (erase_transaction E) c txs) = mainCacheCapacity c"
  using assms(2)
proof (induction txs rule: rev_induct)
  case Nil
  then show ?case using assms(1) by (simp add: is_output_def hashes_of_def output_count_def fun_eq_iff)
next
  case (snoc tx txs)
  let ?c = "foldl (erase_transaction E) c txs" and ?h = "Transaction_Hash E tx"
  let ?e = "foldl (erase_output E tx) ?c [0..<length (Outputs tx)]"
  have len: "length (Outputs tx) \<le> 2 ^ 32" using snoc.prems [of tx] by simp
  have ok: "lax_db E ?c" using snoc by simp
  then have d: "distinct (map fst (mainCache ?c))" by (simp add: lax_db_def)
  note e = erase_outputs_lax [OF d len, of E tx]
  have le: "lax_db E ?e" using lax_db_cong [OF ok, of ?e] e by simp
  have rec: "getCoinRecordFromDB E ?e = getCoinRecordFromDB E ?c" using e by (intro getCoinRecord_cong) simp
  have step: "foldl (erase_transaction E) c (txs @ [tx]) = deleteRecord E ?e ?h"
    by (simp add: erase_transaction_alt)
  have out: "is_output E (txs @ [tx]) cl \<longleftrightarrow> is_output E txs cl \<or>
      cl_ReferenceTransactionHash cl = ?h \<and> unat (cl_OutputIndex cl) < length (Outputs tx)" for cl
    by (auto simp: is_output_def outputs_of_def)
  show ?case
    unfolding step
    using e snoc lax_db_delete [OF le, of ?h] getCoinRecord_delete [OF lax_db_laws(1) [OF le], of ?e ?h] rec
    by (auto simp: out hashes_of_def output_count_def fun_eq_iff deleteRecord_def)
qed

text \<open>What restoring adds to a record.\<close>

definition undo_entries :: "UndoBlock \<Rightarrow> nat set \<Rightarrow> string \<Rightarrow> (u32 \<times> TransactionOutput) set" where
  "undo_entries ub J h = {(OutputIndexes ub ! j, undo_txo ub j) | j. j \<in> J \<and> TransactionInputHashes ub ! j = h}"

definition grown :: "CoinRecord \<Rightarrow> (u32 \<times> TransactionOutput) set \<Rightarrow> CoinRecord \<Rightarrow> bool" where
  "grown cr S cr' \<longleftrightarrow> wf_lengths cr' \<and> (\<exists>added. record_entries cr' = record_entries cr @ added \<and> set added = S)"

definition grown_at :: "CoinRecord option option \<Rightarrow> (u32 \<times> TransactionOutput) set \<Rightarrow> CoinRecord option option \<Rightarrow> bool" where
  "grown_at r S r' \<longleftrightarrow> (case r of
      Some (Some cr) \<Rightarrow> (\<exists>cr'. r' = Some (Some cr') \<and> grown cr S cr')
    | _ \<Rightarrow> r' = r)"

definition revive :: "Coin option \<Rightarrow> Coin option" where
  "revive m = map_option (\<lambda>coin. coin\<lparr>IsSpent := False\<rparr>) m"

lemma addCoinToRecord_entries:
  assumes "wf_UndoBlock ub" and "j < length (TransactionInputHashes ub)" and "wf_lengths cr"
  obtains cr' where "addCoinToRecord cr ub j = Some cr'" "wf_lengths cr'"
    "record_entries cr' = record_entries cr @ [(OutputIndexes ub ! j, undo_txo ub j)]"
  using assms that by (auto simp: addCoinToRecord_def wf_UndoBlock_def wf_lengths_def slice_get_def record_entries_def undo_txo_def)

lemma restore_input_lax:
  assumes c: "lax_db E c" and wf: "wf_UndoBlock ub" and j: "j < length (TransactionInputHashes ub)"
    and cr: "getCoinRecordFromDB E c (TransactionInputHashes ub ! j) = Some (Some cr)"
  obtains c' cr' where "restore_input E ub c j = Some c'" "lax_db E c'"
    "map_of (mainCache c') = (map_of (mainCache c))(undo_loc ub j := revive (map_of (mainCache c) (undo_loc ub j)))"
    "getCoinRecordFromDB E c' = (getCoinRecordFromDB E c)(TransactionInputHashes ub ! j := Some (Some cr'))"
    "wf_lengths cr'" "record_entries cr' = record_entries cr @ [(OutputIndexes ub ! j, undo_txo ub j)]"
    "mainCacheSize c' = mainCacheSize c" "mainCacheCapacity c' = mainCacheCapacity c"
proof -
  let ?c1 = "mark_unspent (undo_loc ub j) c"
  have "wf_lengths cr" using lax_db_lengths [OF c cr] .
  then obtain cr' where cr': "addCoinToRecord cr ub j = Some cr'" "wf_lengths cr'"
    "record_entries cr' = record_entries cr @ [(OutputIndexes ub ! j, undo_txo ub j)]"
    using addCoinToRecord_entries [OF wf j] by blast
  have "distinct (map fst (mainCache ?c1))"
    using c by (auto simp: lax_db_def mark_unspent_def distinct_update split: option.split)
  then have c1: "lax_db E ?c1" using lax_db_cong [OF c, of ?c1] by simp
  have g1: "getCoinRecordFromDB E ?c1 = getCoinRecordFromDB E c" by (rule getCoinRecord_cong) simp
  have s1: "mainCacheSize ?c1 = mainCacheSize c" "mainCacheCapacity ?c1 = mainCacheCapacity c"
    by (simp_all add: mark_unspent_def split: option.split)
  obtain c' where c': "putRecordInDB E ?c1 (TransactionInputHashes ub ! j) cr' = Some c'" "lax_db E c'" "mainCache c' = mainCache ?c1"
    "mainCacheSize c' = mainCacheSize ?c1" "mainCacheCapacity c' = mainCacheCapacity ?c1"
    "getCoinRecordFromDB E c' = (getCoinRecordFromDB E ?c1)(TransactionInputHashes ub ! j := Some (Some cr'))"
    using lax_db_put [OF c1 cr'(2)] by blast
  have "map_of (mainCache c') = (map_of (mainCache c))(undo_loc ub j := revive (map_of (mainCache c) (undo_loc ub j)))"
    by (auto simp: c'(3) fun_eq_iff revive_def)
  then show thesis
    using that [of c' cr'] restore_input_alt [OF wf j cr cr'(1)] c' cr' g1 s1 by simp
qed

lemma grown_at_refl: "lax_db E c \<Longrightarrow> grown_at (getCoinRecordFromDB E c h) {} (getCoinRecordFromDB E c h)"
  by (auto simp: grown_at_def grown_def dest: lax_db_lengths split: option.split)

lemma grown_at_trans: "grown_at r S r' \<Longrightarrow> grown_at r' S' r'' \<Longrightarrow> grown_at r (S \<union> S') r''"
  by (auto simp: grown_at_def grown_def split: option.splits)

lemma revive_revive [simp]: "revive (revive m) = revive m" "revive None = None"
  by (cases m; simp add: revive_def)+

text \<open>The database \<open>c'\<close> after the undo entries \<open>J\<close> of \<open>ub\<close> were handled in \<open>c\<close>.\<close>

definition restored :: "('db, 'z) ext_scheme \<Rightarrow> UndoBlock \<Rightarrow> 'db CoinDatabase \<Rightarrow> nat set \<Rightarrow> 'db CoinDatabase \<Rightarrow> bool" where
  "restored E ub c J c' \<longleftrightarrow> lax_db E c' \<and>
     map_of (mainCache c') = (\<lambda>cl. if cl \<in> undo_loc ub ` J then revive (map_of (mainCache c) cl) else map_of (mainCache c) cl) \<and>
     (\<forall>h. grown_at (getCoinRecordFromDB E c h) (undo_entries ub J h) (getCoinRecordFromDB E c' h)) \<and>
     mainCacheSize c' = mainCacheSize c \<and> mainCacheCapacity c' = mainCacheCapacity c"

lemma restored_step:
  assumes "restored E ub c J c'" and wf: "wf_UndoBlock ub" and j: "j < length (TransactionInputHashes ub)"
    and some: "getCoinRecordFromDB E c (TransactionInputHashes ub ! j) \<noteq> Some None" and c: "lax_db E c"
  shows "\<exists>c''. restore_input E ub c' j = Some c'' \<and> restored E ub c (insert j J) c''"
proof -
  let ?h = "TransactionInputHashes ub ! j" and ?e = "(OutputIndexes ub ! j, undo_txo ub j)"
  have c': "lax_db E c'" using assms(1) by (simp add: restored_def)
  obtain cr0 where "getCoinRecordFromDB E c ?h = Some (Some cr0)" using c some by (auto simp: lax_db_def) (metis not_None_eq)
  then obtain cr where cr: "getCoinRecordFromDB E c' ?h = Some (Some cr)"
    using assms(1) by (force simp: restored_def grown_at_def dest: spec [of _ ?h])
  obtain c'' cr' where s: "restore_input E ub c' j = Some c''" "lax_db E c''"
    "map_of (mainCache c'') = (map_of (mainCache c'))(undo_loc ub j := revive (map_of (mainCache c') (undo_loc ub j)))"
    "getCoinRecordFromDB E c'' = (getCoinRecordFromDB E c')(?h := Some (Some cr'))"
    "wf_lengths cr'" "record_entries cr' = record_entries cr @ [?e]"
    "mainCacheSize c'' = mainCacheSize c'" "mainCacheCapacity c'' = mainCacheCapacity c'"
    by (rule restore_input_lax [OF c' wf j cr])
  have new: "grown_at (getCoinRecordFromDB E c' h) (if h = ?h then {?e} else {}) (getCoinRecordFromDB E c'' h)" for h
    using cr s(4-6) grown_at_refl [OF c', of h] by (auto simp: grown_at_def grown_def)
  have old: "grown_at (getCoinRecordFromDB E c h) (undo_entries ub J h) (getCoinRecordFromDB E c' h)" for h
    using assms(1) by (simp add: restored_def)
  have ins: "undo_entries ub (insert j J) h = undo_entries ub J h \<union> (if h = ?h then {?e} else {})" for h
    by (auto simp: undo_entries_def)
  have "grown_at (getCoinRecordFromDB E c h) (undo_entries ub (insert j J) h) (getCoinRecordFromDB E c'' h)" for h
    unfolding ins by (rule grown_at_trans [OF old new])
  moreover have "map_of (mainCache c'') = (\<lambda>cl. if cl \<in> undo_loc ub ` insert j J then revive (map_of (mainCache c) cl) else map_of (mainCache c) cl)"
    using assms(1) unfolding s(3) by (auto simp: restored_def fun_eq_iff)
  ultimately show ?thesis using assms(1) s(1,2,7,8) by (simp add: restored_def)
qed

lemma restore_inputs_lax:
  assumes c: "lax_db E c" and wf: "wf_UndoBlock ub"
    and some: "\<And>h. h \<in> set (TransactionInputHashes ub) \<Longrightarrow> getCoinRecordFromDB E c h \<noteq> Some None"
    and "n \<le> length (TransactionInputHashes ub)"
  shows "\<exists>c'. fold_opt (restore_input E ub) c [0..<n] = Some c' \<and> restored E ub c {0..<n} c'"
  using assms(4)
proof (induction n)
  case 0
  then show ?case using c grown_at_refl [OF c] by (simp add: restored_def undo_entries_def)
next
  case (Suc n)
  then obtain c' where c': "fold_opt (restore_input E ub) c [0..<n] = Some c'" "restored E ub c {0..<n} c'" by auto
  moreover obtain c'' where "restore_input E ub c' n = Some c''" "restored E ub c (insert n {0..<n}) c''"
    using restored_step [OF c'(2) wf, of n] some c Suc.prems by auto
  ultimately show ?case by (simp add: fold_opt_append atLeast0_lessThan_Suc)
qed

text \<open>The effect of \<open>undo_one\<close> on cache and records.\<close>

definition undo_cache :: "('db, 'z) ext_scheme \<Rightarrow> (CoinLocator \<rightharpoonup> Coin) \<Rightarrow> Transaction list \<Rightarrow> (CoinLocator \<rightharpoonup> Coin)" where
  "undo_cache E M txs = (\<lambda>cl. if is_output E txs cl then None else if cl \<in> inputs_of txs then revive (M cl) else M cl)"

abbreviation all_entries :: "UndoBlock \<Rightarrow> string \<Rightarrow> (u32 \<times> TransactionOutput) set" where
  "all_entries ub \<equiv> undo_entries ub {0..<length (TransactionInputHashes ub)}"

definition undo_locs :: "UndoBlock \<Rightarrow> CoinLocator set" where
  "undo_locs ub = undo_loc ub ` {0..<length (TransactionInputHashes ub)}"

lemma undo_one_lax:
  assumes c: "lax_db E c" and len: "\<And>tx. tx \<in> set (Transactions b) \<Longrightarrow> length (Outputs tx) < 2 ^ 32" and wf: "wf_UndoBlock ub"
    and locs: "undo_locs ub = inputs_of (Transactions b)"
    and some: "\<And>h. h \<in> set (TransactionInputHashes ub) \<Longrightarrow> h \<notin> hashes_of E (Transactions b) \<and> getCoinRecordFromDB E c h \<noteq> Some None"
  shows "\<exists>c'. undo_one E c b ub = Some c' \<and> lax_db E c' \<and>
    map_of (mainCache c') = undo_cache E (map_of (mainCache c)) (Transactions b) \<and>
    (\<forall>h. if h \<in> hashes_of E (Transactions b) then getCoinRecordFromDB E c' h = Some None
         else grown_at (getCoinRecordFromDB E c h) (all_entries ub h) (getCoinRecordFromDB E c' h)) \<and>
    mainCacheSize c' = mainCacheSize c - word_of_nat (output_count (Transactions b)) \<and> mainCacheCapacity c' = mainCacheCapacity c"
proof -
  let ?e = "foldl (erase_transaction E) c (Transactions b)"
  note e = erase_block_lax [OF c len]
  obtain c' where c': "fold_opt (restore_input E ub) ?e [0..<length (TransactionInputHashes ub)] = Some c'"
    "restored E ub ?e {0..<length (TransactionInputHashes ub)} c'"
    using restore_inputs_lax [of E ?e ub] e wf some by fastforce
  have "map_of (mainCache c') = undo_cache E (map_of (mainCache c)) (Transactions b)"
    using c'(2) e locs by (auto simp: restored_def undo_cache_def undo_locs_def fun_eq_iff)
  moreover have "getCoinRecordFromDB E c' h = Some None" if "h \<in> hashes_of E (Transactions b)" for h
    using c'(2) e that by (auto simp: restored_def grown_at_def dest!: spec [of _ h])
  moreover have "grown_at (getCoinRecordFromDB E c h) (all_entries ub h) (getCoinRecordFromDB E c' h)" if "h \<notin> hashes_of E (Transactions b)" for h
    using c'(2) e that by (auto simp: restored_def dest!: spec [of _ h])
  ultimately show ?thesis using c' e by (auto simp: undo_one_def restored_def)
qed

section \<open>Reverting several blocks\<close>

text \<open>The pairs of a block and its undo block, newest first, as \<open>getBlocksAndUndoBlocks\<close> returns them.\<close>

definition txs_of :: "(Block \<times> UndoBlock) list \<Rightarrow> Transaction list" where
  "txs_of ps = concat (map (Transactions \<circ> fst) ps)"

definition undone :: "(Block \<times> UndoBlock) list \<Rightarrow> string \<Rightarrow> (u32 \<times> TransactionOutput) set" where
  "undone ps h = (\<Union>p \<in> set ps. all_entries (snd p) h)"

text \<open>
  The blocks can be reverted when the undo blocks list their inputs and every input comes from a
  transaction with a record that was not erased before; \<open>D\<close> holds the hashes of these transactions.
\<close>

fun undoable :: "('db, 'z) ext_scheme \<Rightarrow> string set \<Rightarrow> (Block \<times> UndoBlock) list \<Rightarrow> bool" where
  "undoable E D [] \<longleftrightarrow> True"
| "undoable E D ((b, ub) # ps) \<longleftrightarrow> wf_UndoBlock ub \<and> undo_locs ub = inputs_of (Transactions b) \<and>
     (\<forall>tx \<in> set (Transactions b). length (Outputs tx) < 2 ^ 32) \<and>
     set (TransactionInputHashes ub) \<subseteq> D - hashes_of E (Transactions b) \<and> undoable E (D - hashes_of E (Transactions b)) ps"

definition recorded :: "('db, 'z) ext_scheme \<Rightarrow> 'db CoinDatabase \<Rightarrow> string set" where
  "recorded E c = {h. getCoinRecordFromDB E c h \<noteq> Some None}"

lemma txs_of_simps [simp]: "txs_of [] = []" "txs_of (p # ps) = Transactions (fst p) @ txs_of ps"
  by (simp_all add: txs_of_def)

lemma undone_simps [simp]: "undone [] h = {}" "undone (p # ps) h = all_entries (snd p) h \<union> undone ps h"
  by (auto simp: undone_def)

lemma hashes_of_append [simp]: "hashes_of E [] = {}" "hashes_of E (xs @ ys) = hashes_of E xs \<union> hashes_of E ys"
  by (auto simp: hashes_of_def)

lemma output_count_append [simp]: "output_count [] = 0" "output_count [tx] = length (Outputs tx)" "output_count (xs @ ys) = output_count xs + output_count ys"
  by (simp_all add: output_count_def)

lemma fold_opt_cong:
  "(\<And>s x. x \<in> set xs \<Longrightarrow> f s (g x) = h s x) \<Longrightarrow> fold_opt h s xs = fold_opt f s (map g xs)"
  by (induction xs arbitrary: s) (auto split: option.split)

lemma UndoCoins_pairs:
  "UndoCoins E c (map fst ps) (map snd ps) = fold_opt (\<lambda>c p. undo_one E c (fst p) (snd p)) c ps"
proof -
  have "UndoCoins E c (map fst ps) (map snd ps) =
      fold_opt (\<lambda>c p. undo_one E c (fst p) (snd p)) c (map ((!) ps) [0..<length (map fst ps)])"
    unfolding UndoCoins_def by (rule fold_opt_cong) (simp add: slice_get_def)
  then show ?thesis by (simp add: map_nth)
qed

lemma grown_at_recorded: "grown_at r S r' \<Longrightarrow> r' = Some None \<longleftrightarrow> r = Some None"
  by (auto simp: grown_at_def split: option.splits)

lemma UndoCoins_lax:
  assumes "lax_db E c" and "undoable E (recorded E c) ps"
  shows "\<exists>c'. UndoCoins E c (map fst ps) (map snd ps) = Some c' \<and> lax_db E c' \<and>
    map_of (mainCache c') = foldl (undo_cache E) (map_of (mainCache c)) (map (Transactions \<circ> fst) ps) \<and>
    (\<forall>h. if h \<in> hashes_of E (txs_of ps) then getCoinRecordFromDB E c' h = Some None
         else grown_at (getCoinRecordFromDB E c h) (undone ps h) (getCoinRecordFromDB E c' h)) \<and>
    mainCacheSize c' = mainCacheSize c - word_of_nat (output_count (txs_of ps)) \<and> mainCacheCapacity c' = mainCacheCapacity c"
  using assms unfolding UndoCoins_pairs
proof (induction ps arbitrary: c)
  case Nil
  then show ?case using grown_at_refl [OF Nil(1)] by simp
next
  case (Cons p ps)
  obtain b ub where p: "p = (b, ub)" by fastforce
  obtain c1 where c1: "undo_one E c b ub = Some c1" "lax_db E c1"
    "map_of (mainCache c1) = undo_cache E (map_of (mainCache c)) (Transactions b)"
    "\<And>h. if h \<in> hashes_of E (Transactions b) then getCoinRecordFromDB E c1 h = Some None
         else grown_at (getCoinRecordFromDB E c h) (all_entries ub h) (getCoinRecordFromDB E c1 h)"
    "mainCacheSize c1 = mainCacheSize c - word_of_nat (output_count (Transactions b))" "mainCacheCapacity c1 = mainCacheCapacity c"
    using undo_one_lax [OF Cons.prems(1), of b ub] Cons.prems(2) by (auto simp: p recorded_def)
  have "h \<in> recorded E c1 \<longleftrightarrow> h \<in> recorded E c - hashes_of E (Transactions b)" for h
    using c1(4) [of h] grown_at_recorded by (auto simp: recorded_def split: if_splits)
  then have "recorded E c1 = recorded E c - hashes_of E (Transactions b)" by blast
  then have "undoable E (recorded E c1) ps" using Cons.prems(2) by (simp add: p)
  from Cons.IH [OF c1(2) this] obtain c2 where c2: "fold_opt (\<lambda>c p. undo_one E c (fst p) (snd p)) c1 ps = Some c2" "lax_db E c2"
    "map_of (mainCache c2) = foldl (undo_cache E) (map_of (mainCache c1)) (map (Transactions \<circ> fst) ps)"
    "\<And>h. if h \<in> hashes_of E (txs_of ps) then getCoinRecordFromDB E c2 h = Some None
         else grown_at (getCoinRecordFromDB E c1 h) (undone ps h) (getCoinRecordFromDB E c2 h)"
    "mainCacheSize c2 = mainCacheSize c1 - word_of_nat (output_count (txs_of ps))" "mainCacheCapacity c2 = mainCacheCapacity c1"
    by blast
  have recs: "if h \<in> hashes_of E (txs_of (p # ps)) then getCoinRecordFromDB E c2 h = Some None
      else grown_at (getCoinRecordFromDB E c h) (undone (p # ps) h) (getCoinRecordFromDB E c2 h)" for h
    using c1(4) [of h] c2(4) [of h] grown_at_trans [of "getCoinRecordFromDB E c h" "all_entries ub h"]
    by (auto simp: p grown_at_def split: if_splits)
  show ?case
    by (rule exI [of _ c2], intro conjI allI recs) (use c1(1,3,5,6) c2(1-3,5,6) in \<open>simp_all add: p comp_def\<close>)
qed

section \<open>Storing a block without a flush\<close>

definition spend_all :: "CoinLocator set \<Rightarrow> (CoinLocator \<rightharpoonup> Coin) \<Rightarrow> (CoinLocator \<rightharpoonup> Coin)" where
  "spend_all D M = (\<lambda>cl. if cl \<in> D then map_option (\<lambda>coin. coin\<lparr>IsSpent := True\<rparr>) (M cl) else M cl)"

definition store_cache :: "('db, 'z) ext_scheme \<Rightarrow> (CoinLocator \<rightharpoonup> Coin) \<Rightarrow> Transaction list \<Rightarrow> (CoinLocator \<rightharpoonup> Coin)" where
  "store_cache E M txs = spend_all (inputs_of txs) M ++ (\<lambda>cl. map_option fresh_coin (new_coins E txs cl))"

lemma spend_all_Un: "spend_all D (spend_all D' M) = spend_all (D' \<union> D) M" "spend_all {} M = M"
  by (auto simp: spend_all_def fun_eq_iff option.map_comp comp_def)

lemma validate_inputs_total: "lax_db E c \<Longrightarrow> \<exists>r. validate_inputs E c txis = Some r"
proof (induction txis)
  case (Cons txi txis)
  moreover obtain r where "getCoinRecordFromDB E c (ReferenceTransactionHash txi) = Some r"
    using Cons.prems by (auto simp: lax_db_def)
  ultimately show ?case by (auto simp: getCoinRecordFromDB_def split: option.splits)
qed simp

lemma ValidateBlock_total: "lax_db E c \<Longrightarrow> \<exists>v. ValidateBlock E c txs = Some v"
proof (induction txs)
  case (Cons tx txs)
  then obtain v where "ValidateBlock E c txs = Some v" by blast
  then show ?case
    using validate_inputs_total [OF Cons.prems, of "Inputs tx"] by (auto simp: ValidateTransaction_def split: sum.split)
qed (rule exI [of _ True], simp)

text \<open>\<open>spent_in E c c' D\<close>: the cached coins in \<open>D\<close> were marked as spent, and the records are the same.\<close>

definition spent_in :: "('db, 'z) ext_scheme \<Rightarrow> 'db CoinDatabase \<Rightarrow> 'db CoinDatabase \<Rightarrow> CoinLocator set \<Rightarrow> bool" where
  "spent_in E c c' D \<longleftrightarrow> lax_db E c' \<and> cdb c' = cdb c \<and> mainCacheSize c' = mainCacheSize c \<and>
     mainCacheCapacity c' = mainCacheCapacity c \<and> map_of (mainCache c') = spend_all D (map_of (mainCache c))"

lemma spend_input_lax:
  assumes "spent_in E c c' D" and "getCoinRecordFromDB E c (Transaction_Hash E tx) = Some None"
  shows "\<exists>c''. spend_input E tx c' txi = Some c'' \<and> spent_in E c c'' (insert (makeCoinLocator txi) D)"
proof -
  let ?cl = "makeCoinLocator txi"
  have c': "lax_db E c'" "cdb c' = cdb c" "map_of (mainCache c') = spend_all D (map_of (mainCache c))"
    using assms(1) by (simp_all add: spent_in_def)
  have ins: "spend_all {?cl} (map_of (mainCache c')) = spend_all (insert ?cl D) (map_of (mainCache c))"
    by (simp add: c'(3) spend_all_Un)
  show ?thesis
  proof (cases "map_of (mainCache c') ?cl")
    case None
    then have "spend_all {?cl} (map_of (mainCache c')) = map_of (mainCache c')" by (auto simp: spend_all_def)
    moreover have "spend_input E tx c' txi = Some c'"
      using None assms(2) getCoinRecord_cong [OF c'(2), of E] by (simp add: spend_input_def removeCoinFromDB_def)
    ultimately show ?thesis using assms(1) ins by (auto simp: spent_in_def)
  next
    case (Some coin)
    let ?c = "c'\<lparr>mainCache := AList.update ?cl (coin\<lparr>IsSpent := True\<rparr>) (mainCache c')\<rparr>"
    have "map_of (mainCache ?c) = spend_all {?cl} (map_of (mainCache c'))"
      using Some by (auto simp: spend_all_def update_conv' fun_eq_iff)
    moreover have "lax_db E ?c" using c'(1) by (intro lax_db_cong [OF c'(1)]) (simp_all add: lax_db_def distinct_update)
    ultimately show ?thesis using Some assms(1) ins by (simp add: spend_input_def spent_in_def)
  qed
qed

lemma updateSpentCoins_lax:
  assumes "lax_db E c" and "\<And>tx. tx \<in> set txs \<Longrightarrow> getCoinRecordFromDB E c (Transaction_Hash E tx) = Some None"
  shows "\<exists>c'. updateSpentCoins E c txs = Some c' \<and> spent_in E c c' (inputs_of txs)"
proof -
  let ?g = "\<lambda>D tx. D \<union> makeCoinLocator ` set (Inputs tx)"
  have one: "foldl (\<lambda>D txi. insert (makeCoinLocator txi) D) D txis = D \<union> makeCoinLocator ` set txis" for D txis
    by (induction txis arbitrary: D) auto
  have "spent_in E c c {}" using assms(1) by (simp add: spent_in_def spend_all_Un)
  moreover have "foldl ?g D txs = D \<union> inputs_of txs" for D
    by (induction txs arbitrary: D) (auto simp: inputs_of_def)
  moreover have "\<exists>c''. fold_opt (spend_input E tx) c' (Inputs tx) = Some c'' \<and> spent_in E c c'' (?g D tx)"
    if "tx \<in> set txs" "spent_in E c c' D" for c' D tx
    unfolding one [symmetric] using that spend_input_lax [OF _ assms(2)]
    by (intro fold_opt_refine [where R = "spent_in E c"]) auto
  ultimately show ?thesis
    using fold_opt_refine [where R = "spent_in E c" and g = ?g and s = c and a = "{}" and xs = txs
        and f = "\<lambda>c tx. fold_opt (spend_input E tx) c (Inputs tx)"]
    by (simp add: updateSpentCoins_def)
qed

lemma cache_outputs_lax:
  assumes "lax_db E c" and "unat (mainCacheSize c) + length es + length (Outputs tx) < unat (mainCacheCapacity c)"
  shows "\<exists>c'. fold_opt (cache_output E tx) c es = Some c' \<and> lax_db E c' \<and> cdb c' = cdb c \<and>
    map_of (mainCache c') =
      foldl (\<lambda>M e. M(locator (Transaction_Hash E tx) (word_of_nat (fst e)) \<mapsto> fresh_coin (snd e))) (map_of (mainCache c)) es \<and>
    unat (mainCacheSize c') = unat (mainCacheSize c) + length es \<and> mainCacheCapacity c' = mainCacheCapacity c"
  using assms
proof (induction es arbitrary: c)
  case (Cons e es)
  let ?c = "c\<lparr>mainCache := AList.update (locator (Transaction_Hash E tx) (word_of_nat (fst e))) (fresh_coin (snd e)) (mainCache c),
    mainCacheSize := mainCacheSize c + 1\<rparr>"
  have b: "unat (mainCacheCapacity c) < 2 ^ 32" by (rule u32_bound)
  have "unat (word_of_nat (length (Outputs tx)) :: u32) = length (Outputs tx)" using Cons.prems(2) b by (intro u32_of_nat_less) simp
  then have "unat (mainCacheSize c + word_of_nat (length (Outputs tx))) = unat (mainCacheSize c) + length (Outputs tx)"
    using Cons.prems(2) b u32_add_no_wrap [of "mainCacheSize c" "word_of_nat (length (Outputs tx))"] by simp
  then have "\<not> mainCacheCapacity c \<le> mainCacheSize c + word_of_nat (length (Outputs tx))"
    using Cons.prems(2) by (simp add: word_le_nat_alt)
  then have step: "cache_output E tx c e = Some ?c"
    by (cases e) (simp add: cache_output_def locator_fold fresh_coin_def)
  have size: "unat (mainCacheSize ?c) = unat (mainCacheSize c) + 1"
    using Cons.prems(2) b u32_add_no_wrap [of "mainCacheSize c" 1] by simp
  have "lax_db E ?c" using Cons.prems(1) by (intro lax_db_cong [OF Cons.prems(1)]) (simp_all add: lax_db_def distinct_update)
  from Cons.IH [OF this] show ?case
    using size Cons.prems(2) by (simp add: step) (simp add: fun_upd_def update_conv' eq_commute)
qed simp

abbreviation fresh_coins :: "(CoinLocator \<rightharpoonup> TransactionOutput) \<Rightarrow> (CoinLocator \<rightharpoonup> Coin)" where
  "fresh_coins N \<equiv> (\<lambda>cl. map_option fresh_coin (N cl))"

lemma fresh_coins_add: "fresh_coins (N ++ N') = fresh_coins N ++ fresh_coins N'"
  by (auto simp: fun_eq_iff map_add_def split: option.split)

lemma foldl_enumerate_map:
  "foldl (\<lambda>M e. M(locator h (word_of_nat (fst e)) \<mapsto> f (snd e))) M (List.enumerate n txos) =
    foldl (\<lambda>M e. M(locator h (word_of_nat (fst e)) \<mapsto> snd e)) M (List.enumerate n (map f txos))"
  by (induction txos arbitrary: n M) simp_all

lemma foldl_fresh_outputs:
  assumes "length (Outputs tx) < 2 ^ 32"
  shows "foldl (\<lambda>M e. M(locator (Transaction_Hash E tx) (word_of_nat (fst e)) \<mapsto> fresh_coin (snd e))) M (List.enumerate 0 (Outputs tx)) =
    M ++ fresh_coins (outputs_of E tx)"
  unfolding foldl_enumerate_map using foldl_outputs [of "map fresh_coin (Outputs tx)" 0] assms
  by (auto simp: fun_eq_iff outputs_of_def map_add_def)

lemma storeTransactionsInMainCache_lax:
  assumes "lax_db E c" and "\<And>tx. tx \<in> set txs \<Longrightarrow> length (Outputs tx) < 2 ^ 32"
    and "\<And>tx. tx \<in> set txs \<Longrightarrow> unat (mainCacheSize c) + output_count txs + length (Outputs tx) < unat (mainCacheCapacity c)"
  shows "\<exists>c'. storeTransactionsInMainCache E c txs = Some c' \<and> lax_db E c' \<and> cdb c' = cdb c \<and>
    map_of (mainCache c') = map_of (mainCache c) ++ fresh_coins (new_coins E txs) \<and>
    unat (mainCacheSize c') = unat (mainCacheSize c) + output_count txs \<and> mainCacheCapacity c' = mainCacheCapacity c"
  using assms(2,3)
proof (induction txs rule: rev_induct)
  case Nil
  then show ?case using assms(1) by (simp add: storeTransactionsInMainCache_def new_coins_def)
next
  case (snoc tx txs)
  have oc: "output_count (txs @ [tx]) = output_count txs + length (Outputs tx)" by (simp add: output_count_def)
  have room: "unat (mainCacheSize c) + output_count txs + length (Outputs tx') < unat (mainCacheCapacity c)" if "tx' \<in> set txs" for tx'
    using snoc.prems(2) [of tx'] that oc by simp
  obtain c1 where c1: "storeTransactionsInMainCache E c txs = Some c1" "lax_db E c1" "cdb c1 = cdb c"
    "map_of (mainCache c1) = map_of (mainCache c) ++ fresh_coins (new_coins E txs)"
    "unat (mainCacheSize c1) = unat (mainCacheSize c) + output_count txs" "mainCacheCapacity c1 = mainCacheCapacity c"
    using snoc.IH snoc.prems(1) room by auto
  have len: "length (Outputs tx) < 2 ^ 32" using snoc.prems(1) [of tx] by simp
  have "unat (mainCacheSize c1) + length (List.enumerate 0 (Outputs tx)) + length (Outputs tx) < unat (mainCacheCapacity c1)"
    using snoc.prems(2) [of tx] c1(5,6) oc by simp
  from cache_outputs_lax [OF c1(2) this] show ?case
    using c1 by (auto simp: storeTransactionsInMainCache_def fold_opt_append foldl_fresh_outputs [OF len] new_coins_snoc fresh_coins_add oc)
qed

lemma storeTransactionsInDB_lax:
  assumes "lax_db E c" and "distinct (map (Transaction_Hash E) txs)"
  shows "\<exists>c'. storeTransactionsInDB E c txs = Some c' \<and> lax_db E c' \<and> mainCache c' = mainCache c \<and>
    mainCacheSize c' = mainCacheSize c \<and> mainCacheCapacity c' = mainCacheCapacity c \<and>
    (\<forall>tx \<in> set txs. getCoinRecordFromDB E c' (Transaction_Hash E tx) = Some (Some (createCoinRecord tx))) \<and>
    (\<forall>h. h \<notin> hashes_of E txs \<longrightarrow> getCoinRecordFromDB E c' h = getCoinRecordFromDB E c h)"
  using assms(2)
proof (induction txs rule: rev_induct)
  case Nil
  then show ?case using assms(1) by (simp add: storeTransactionsInDB_def)
next
  case (snoc tx txs)
  then obtain c1 where c1: "storeTransactionsInDB E c txs = Some c1" "lax_db E c1" "mainCache c1 = mainCache c"
    "mainCacheSize c1 = mainCacheSize c" "mainCacheCapacity c1 = mainCacheCapacity c"
    "\<And>tx. tx \<in> set txs \<Longrightarrow> getCoinRecordFromDB E c1 (Transaction_Hash E tx) = Some (Some (createCoinRecord tx))"
    "\<And>h. h \<notin> hashes_of E txs \<Longrightarrow> getCoinRecordFromDB E c1 h = getCoinRecordFromDB E c h"
    by auto
  obtain c2 where c2: "putRecordInDB E c1 (Transaction_Hash E tx) (createCoinRecord tx) = Some c2" "lax_db E c2" "mainCache c2 = mainCache c1"
    "mainCacheSize c2 = mainCacheSize c1" "mainCacheCapacity c2 = mainCacheCapacity c1"
    "getCoinRecordFromDB E c2 = (getCoinRecordFromDB E c1)(Transaction_Hash E tx := Some (Some (createCoinRecord tx)))"
    by (rule lax_db_put [OF c1(2) createCoinRecord_lengths])
  have "Transaction_Hash E tx' \<noteq> Transaction_Hash E tx" if "tx' \<in> set txs" for tx'
    using snoc.prems that by (force simp: image_iff)
  then show ?case
    using c1 c2 by (auto simp: storeTransactionsInDB_def fold_opt_append hashes_of_def)
qed

lemma StoreBlock_lax:
  assumes c: "lax_db E c" and new: "\<And>h. h \<in> hashes_of E txs \<Longrightarrow> getCoinRecordFromDB E c h = Some None"
    and d: "distinct (map (Transaction_Hash E) txs)" and len: "\<And>tx. tx \<in> set txs \<Longrightarrow> length (Outputs tx) < 2 ^ 32"
    and room: "\<And>tx. tx \<in> set txs \<Longrightarrow> unat (mainCacheSize c) + output_count txs + length (Outputs tx) < unat (mainCacheCapacity c)"
  shows "\<exists>c'. CoinDatabase_StoreBlock E c txs = Some c' \<and> lax_db E c' \<and>
    map_of (mainCache c') = store_cache E (map_of (mainCache c)) txs \<and>
    unat (mainCacheSize c') = unat (mainCacheSize c) + output_count txs \<and> mainCacheCapacity c' = mainCacheCapacity c \<and>
    (\<forall>tx \<in> set txs. getCoinRecordFromDB E c' (Transaction_Hash E tx) = Some (Some (createCoinRecord tx))) \<and>
    (\<forall>h. h \<notin> hashes_of E txs \<longrightarrow> getCoinRecordFromDB E c' h = getCoinRecordFromDB E c h)"
proof -
  obtain c1 where c1: "updateSpentCoins E c txs = Some c1" "spent_in E c c1 (inputs_of txs)"
    using updateSpentCoins_lax [OF c, of txs] new by (auto simp: hashes_of_def)
  then have l1: "lax_db E c1" "mainCacheSize c1 = mainCacheSize c" "mainCacheCapacity c1 = mainCacheCapacity c"
    by (simp_all add: spent_in_def)
  obtain c2 where c2: "storeTransactionsInMainCache E c1 txs = Some c2" "lax_db E c2" "cdb c2 = cdb c1"
    "map_of (mainCache c2) = map_of (mainCache c1) ++ fresh_coins (new_coins E txs)"
    "unat (mainCacheSize c2) = unat (mainCacheSize c1) + output_count txs" "mainCacheCapacity c2 = mainCacheCapacity c1"
    using storeTransactionsInMainCache_lax [OF l1(1) len] room l1 by auto
  have "getCoinRecordFromDB E c2 = getCoinRecordFromDB E c"
    using c1(2) c2(3) by (intro getCoinRecord_cong) (simp add: spent_in_def)
  then show ?thesis
    using c1 c2 l1 storeTransactionsInDB_lax [OF c2(2) d]
    by (auto simp: CoinDatabase_StoreBlock_def store_cache_def spent_in_def)
qed

end
