(* ===== verification/Coin_Reorg.thy ===== *)
theory Coin_Reorg
  imports Coin_Revert
begin

text \<open>
  What a reorganisation does to the coins of \<open>src/pkg/blockchain/coindatabase\<close>: \<open>handleFork\<close> reverts blocks and stores them
  again, newest first. The theory puts the steps of \<open>Coin_Revert\<close> together, compares the coins before and after, and shows what
  the next flush of the cache makes of the records that hold an index twice.
\<close>

section \<open>Several blocks at once\<close>

lemma new_coins_append: "new_coins E (xs @ ys) = new_coins E xs ++ new_coins E ys"
  by (induction ys rule: rev_induct) (simp_all add: new_coins_def del: append_assoc add: append_assoc [symmetric])

lemma inputs_of_append: "inputs_of [] = {}" "inputs_of (xs @ ys) = inputs_of xs \<union> inputs_of ys"
  by (auto simp: inputs_of_def)

lemma is_output_append: "\<not> is_output E [] cl" "is_output E (xs @ ys) cl \<longleftrightarrow> is_output E xs cl \<or> is_output E ys cl"
  by (auto simp: is_output_def)

lemma is_output_iff: "is_output E txs cl \<longleftrightarrow> new_coins E txs cl \<noteq> None"
proof (induction txs rule: rev_induct)
  case (snoc tx txs)
  moreover have "is_output E [tx] cl \<longleftrightarrow> outputs_of E tx cl \<noteq> None" by (simp add: is_output_def)
  ultimately show ?case by (auto simp: is_output_append new_coins_snoc map_add_def split: option.splits)
qed (simp add: is_output_append new_coins_def)

lemma undo_caches: "foldl (undo_cache E) M (map (Transactions \<circ> fst) ps) = undo_cache E M (txs_of ps)"
proof (induction ps arbitrary: M)
  case (Cons p ps)
  then show ?case by (auto simp: undo_cache_def fun_eq_iff is_output_append inputs_of_append)
qed (simp add: undo_cache_def is_output_append inputs_of_append)

lemma undoable_inputs:
  "undoable E D ps \<Longrightarrow> cl \<in> inputs_of (txs_of ps) \<Longrightarrow> cl_ReferenceTransactionHash cl \<in> D"
proof (induction ps arbitrary: D)
  case (Cons p ps)
  obtain b ub where p: "p = (b, ub)" by fastforce
  show ?case
  proof (cases "cl \<in> inputs_of (Transactions b)")
    case True
    then have "cl \<in> undo_locs ub" using Cons.prems(1) by (simp add: p)
    then show ?thesis using Cons.prems(1) by (force simp: p undo_locs_def undo_loc_def)
  next
    case False
    then show ?thesis using Cons by (auto simp: p inputs_of_append)
  qed
qed (simp add: inputs_of_append)

lemma store_caches:
  assumes "undoable E D ps"
  shows "foldl (store_cache E) M (map (Transactions \<circ> fst) ps) = store_cache E M (txs_of ps)"
  using assms
proof (induction ps arbitrary: M D)
  case Nil
  then show ?case by (simp add: store_cache_def spend_all_Un inputs_of_append new_coins_def map_add_def)
next
  case (Cons p ps)
  obtain b ub where p: "p = (b, ub)" by fastforce
  let ?N = "fresh_coins (new_coins E (Transactions b))"
  have u: "undoable E (D - hashes_of E (Transactions b)) ps" using Cons.prems by (simp add: p)
  have "spend_all (inputs_of (txs_of ps)) (M ++ ?N) = spend_all (inputs_of (txs_of ps)) M ++ ?N" for M
  proof
    fix cl
    have "new_coins E (Transactions b) cl = None" if "cl \<in> inputs_of (txs_of ps)"
      using undoable_inputs [OF u that] by (intro new_coins_hash) (auto simp: hashes_of_def)
    then show "spend_all (inputs_of (txs_of ps)) (M ++ ?N) cl = (spend_all (inputs_of (txs_of ps)) M ++ ?N) cl"
      by (auto simp: spend_all_def map_add_def split: option.split)
  qed
  then show ?case
    using Cons.IH [OF u] by (simp add: p store_cache_def inputs_of_append new_coins_append fresh_coins_add spend_all_Un)
qed

text \<open>The loop of \<open>handleFork\<close> that stores the blocks.\<close>

definition store_blocks :: "('db, 'z) ext_scheme \<Rightarrow> 'db CoinDatabase \<Rightarrow> Block list \<Rightarrow> 'db CoinDatabase option" where
  "store_blocks E = fold_opt (\<lambda>c bl. case ValidateBlock E c (Transactions bl) of
      None \<Rightarrow> None | Some valid \<Rightarrow> CoinDatabase_StoreBlock E c (Transactions bl))"

lemma store_blocks_lax:
  assumes "lax_db E c" and "\<And>h. h \<in> hashes_of E (txs_of ps) \<Longrightarrow> getCoinRecordFromDB E c h = Some None"
    and "distinct (map (Transaction_Hash E) (txs_of ps))" and "\<And>tx. tx \<in> set (txs_of ps) \<Longrightarrow> length (Outputs tx) < 2 ^ 32"
    and "\<And>tx. tx \<in> set (txs_of ps) \<Longrightarrow> unat (mainCacheSize c) + output_count (txs_of ps) + length (Outputs tx) < unat (mainCacheCapacity c)"
  shows "\<exists>c'. store_blocks E c (map fst ps) = Some c' \<and> lax_db E c' \<and>
    map_of (mainCache c') = foldl (store_cache E) (map_of (mainCache c)) (map (Transactions \<circ> fst) ps) \<and>
    (\<forall>tx \<in> set (txs_of ps). getCoinRecordFromDB E c' (Transaction_Hash E tx) = Some (Some (createCoinRecord tx))) \<and>
    (\<forall>h. h \<notin> hashes_of E (txs_of ps) \<longrightarrow> getCoinRecordFromDB E c' h = getCoinRecordFromDB E c h)"
  using assms
proof (induction ps arbitrary: c)
  case Nil
  then show ?case by (simp add: store_blocks_def)
next
  case (Cons p ps)
  let ?b = "Transactions (fst p)"
  obtain v where v: "ValidateBlock E c ?b = Some v" using ValidateBlock_total [OF Cons.prems(1)] by blast
  have "unat (mainCacheSize c) + output_count ?b + length (Outputs tx) < unat (mainCacheCapacity c)" if "tx \<in> set ?b" for tx
    using Cons.prems(5) [of tx] that by simp
  then obtain c1 where c1: "CoinDatabase_StoreBlock E c ?b = Some c1" "lax_db E c1"
    "map_of (mainCache c1) = store_cache E (map_of (mainCache c)) ?b"
    "unat (mainCacheSize c1) = unat (mainCacheSize c) + output_count ?b" "mainCacheCapacity c1 = mainCacheCapacity c"
    "\<And>tx. tx \<in> set ?b \<Longrightarrow> getCoinRecordFromDB E c1 (Transaction_Hash E tx) = Some (Some (createCoinRecord tx))"
    "\<And>h. h \<notin> hashes_of E ?b \<Longrightarrow> getCoinRecordFromDB E c1 h = getCoinRecordFromDB E c h"
    using StoreBlock_lax [OF Cons.prems(1), of ?b] Cons.prems(2-4) by auto
  have disj: "hashes_of E ?b \<inter> hashes_of E (txs_of ps) = {}" using Cons.prems(3) by (auto simp: hashes_of_def)
  have "\<exists>c'. store_blocks E c1 (map fst ps) = Some c' \<and> lax_db E c' \<and>
    map_of (mainCache c') = foldl (store_cache E) (map_of (mainCache c1)) (map (Transactions \<circ> fst) ps) \<and>
    (\<forall>tx \<in> set (txs_of ps). getCoinRecordFromDB E c' (Transaction_Hash E tx) = Some (Some (createCoinRecord tx))) \<and>
    (\<forall>h. h \<notin> hashes_of E (txs_of ps) \<longrightarrow> getCoinRecordFromDB E c' h = getCoinRecordFromDB E c1 h)"
  proof (rule Cons.IH [OF c1(2)])
    show "getCoinRecordFromDB E c1 h = Some None" if "h \<in> hashes_of E (txs_of ps)" for h
      using c1(7) [of h] Cons.prems(2) [of h] that disj by auto
    show "unat (mainCacheSize c1) + output_count (txs_of ps) + length (Outputs tx) < unat (mainCacheCapacity c1)"
      if "tx \<in> set (txs_of ps)" for tx using Cons.prems(5) [of tx] c1(4,5) that by (simp add: add.assoc)
  qed (use Cons.prems(3,4) in auto)
  then obtain c2 where c2: "store_blocks E c1 (map fst ps) = Some c2" "lax_db E c2"
    "map_of (mainCache c2) = foldl (store_cache E) (map_of (mainCache c1)) (map (Transactions \<circ> fst) ps)"
    "\<And>tx. tx \<in> set (txs_of ps) \<Longrightarrow> getCoinRecordFromDB E c2 (Transaction_Hash E tx) = Some (Some (createCoinRecord tx))"
    "\<And>h. h \<notin> hashes_of E (txs_of ps) \<Longrightarrow> getCoinRecordFromDB E c2 h = getCoinRecordFromDB E c1 h"
    by blast
  have "store_blocks E c (map fst (p # ps)) = Some c2" using v c1(1) c2(1) by (simp add: store_blocks_def)
  moreover have "getCoinRecordFromDB E c2 (Transaction_Hash E tx) = Some (Some (createCoinRecord tx))" if "tx \<in> set (txs_of (p # ps))" for tx
  proof (cases "tx \<in> set (txs_of ps)")
    case False
    then have tx: "tx \<in> set ?b" using that by simp
    then have "Transaction_Hash E tx \<notin> hashes_of E (txs_of ps)" using disj by (auto simp: hashes_of_def)
    then show ?thesis using c2(5) c1(6) [OF tx] by simp
  qed (rule c2(4))
  ultimately show ?case using c2(2,3,5) c1(3,7) by (auto simp: comp_def)
qed

section \<open>Flushing records that hold an index twice\<close>

definition index_count :: "('db, 'z) ext_scheme \<Rightarrow> 'db CoinDatabase \<Rightarrow> CoinLocator \<Rightarrow> nat" where
  "index_count E c cl = (case getCoinRecordFromDB E c (cl_ReferenceTransactionHash cl) of
      Some (Some cr) \<Rightarrow> count_list (cr_OutputIndexes cr) (cl_OutputIndex cl) | _ \<Rightarrow> 0)"

lemma removeCoinFromRecord_lax:
  assumes "wf_lengths cr"
  shows "\<exists>cr'. removeCoinFromRecord cr i = Some cr' \<and> wf_lengths cr' \<and>
    (\<forall>j. count_list (cr_OutputIndexes cr') j = count_list (cr_OutputIndexes cr) j - (if j = i then 1 else 0))"
proof (cases rule: indexOf_cases [of i "cr_OutputIndexes cr"])
  case absent
  then show ?thesis using assms by (auto simp: removeCoinFromRecord_def count_list_0_iff)
next
  case (present n)
  let ?xs = "cr_OutputIndexes cr"
  have "count_list ?xs j = count_list (take n ?xs @ i # drop (Suc n) ?xs) j" for j
    using present id_take_nth_drop [of n ?xs] by simp
  then have "count_list (take n ?xs @ drop (Suc n) ?xs) j = count_list ?xs j - (if j = i then 1 else 0)" for j by simp
  then show ?thesis
    using present assms by (simp add: removeCoinFromRecord_def remove_at_def wf_lengths_def)
qed

text \<open>
  The state of the first loop of \<open>FlushMainCache\<close> after the entries \<open>P\<close>: each spent coin among them
  was taken out of its record once.
\<close>

definition flushing_lax ::
  "('db, 'z) ext_scheme \<Rightarrow> 'db CoinDatabase \<Rightarrow> (CoinLocator \<times> Coin) list \<Rightarrow>
   (string \<times> CoinRecord) list \<times> 'db CoinDatabase \<Rightarrow> bool" where
  "flushing_lax E c P st \<longleftrightarrow>
     snd st = c\<lparr>mainCache := filter (\<lambda>e. fst e \<notin> spent_keys P) (mainCache c)\<rparr> \<and> distinct (map fst (fst st)) \<and>
     (\<forall>cl \<in> spent_keys P. map_of (fst st) (cl_ReferenceTransactionHash cl) \<noteq> None) \<and>
     (\<forall>h cr. map_of (fst st) h = Some cr \<longrightarrow> wf_lengths cr \<and>
        (\<forall>i. count_list (cr_OutputIndexes cr) i = index_count E c (locator h i) - (if locator h i \<in> spent_keys P then 1 else 0)))"

lemma flush_record_lax:
  assumes c: "lax_db E c" and cdb: "cdb c' = cdb c"
  shows "\<exists>cr. DecodeCoinRecord (fst (unmarshal_CoinRecord E
      (case leveldb_Get E (cdb c') (bytes_of h) of None \<Rightarrow> [] | Some data \<Rightarrow> data))) = Some cr \<and>
    wf_lengths cr \<and> (\<forall>i. count_list (cr_OutputIndexes cr) i = index_count E c (locator h i))"
proof -
  obtain r where r: "getCoinRecordFromDB E c h = Some r" "\<And>cr. r = Some cr \<Longrightarrow> wf_lengths cr"
    using c by (auto simp: lax_db_def)
  then show ?thesis
    using cdb lax_db_laws(2) [OF c]
    by (cases r) (auto simp: getCoinRecordFromDB_def index_count_def unmarshal_Nil_CoinRecord empty_record wf_lengths_def
        split: option.splits)
qed

lemma spent_keys_snoc: "spent_keys (P @ [(cl, coin)]) = (if IsSpent coin then insert cl (spent_keys P) else spent_keys P)"
  by (auto simp: spent_keys_def)

lemma flush_step_lax:
  assumes c0: "lax_db E c" and st: "flushing_lax E c P st" and new: "fst e \<notin> spent_keys P"
  shows "\<exists>st'. flush_step E st e = Some st' \<and> flushing_lax E c (P @ [e]) st'"
proof (cases "IsSpent (snd e)")
  case False
  then show ?thesis using st by (cases st, cases e) (simp add: flush_step_def flushing_lax_def spent_keys_snoc)
next
  case True
  obtain u d cl coin where e: "e = (cl, coin)" and u: "st = (u, d)" by (cases e, cases st) auto
  let ?h = "cl_ReferenceTransactionHash cl" and ?i = "cl_OutputIndex cl"
  let ?dec = "DecodeCoinRecord (fst (unmarshal_CoinRecord E
      (case leveldb_Get E (cdb d) (bytes_of ?h) of None \<Rightarrow> [] | Some data \<Rightarrow> data)))"
  have d: "d = c\<lparr>mainCache := filter (\<lambda>e. fst e \<notin> spent_keys P) (mainCache c)\<rparr>"
    using st u by (simp add: flushing_lax_def)
  obtain cr where cr: "(case map_of u ?h of Some cr2 \<Rightarrow> Some cr2 | None \<Rightarrow> ?dec) = Some cr" "wf_lengths cr"
    "\<And>i. count_list (cr_OutputIndexes cr) i = index_count E c (locator ?h i) - (if locator ?h i \<in> spent_keys P then 1 else 0)"
  proof (cases "map_of u ?h")
    case None
    then have "locator ?h i \<notin> spent_keys P" for i using st u by (auto simp: flushing_lax_def)
    with None that flush_record_lax [OF c0, of d ?h] d show ?thesis by auto
  next
    case (Some cr)
    with st u that [of cr] show ?thesis by (simp add: flushing_lax_def)
  qed
  obtain cr' where cr': "removeCoinFromRecord cr ?i = Some cr'" "wf_lengths cr'"
    "\<And>j. count_list (cr_OutputIndexes cr') j = count_list (cr_OutputIndexes cr) j - (if j = ?i then 1 else 0)"
    using removeCoinFromRecord_lax [OF cr(2)] by blast
  have cnt: "count_list (cr_OutputIndexes cr') i = index_count E c (locator ?h i) - (if locator ?h i \<in> insert cl (spent_keys P) then 1 else 0)" for i
    using cr(3) [of i] cr'(3) [of i] new e by (cases "i = ?i") auto
  let ?st = "(AList.update ?h cr' u, d\<lparr>mainCache := AList.delete cl (mainCache d)\<rparr>)"
  have "flush_step E st e = Some ?st"
    using True cr(1) cr'(1) e u by (simp add: flush_step_def Let_def)
  moreover have "AList.delete cl (mainCache d) = filter (\<lambda>e. fst e \<notin> insert cl (spent_keys P)) (mainCache c)"
    using d by (auto simp: AList.delete_eq intro!: filter_cong)
  moreover have "distinct (map fst (AList.update ?h cr' u))"
    using st u by (simp add: flushing_lax_def distinct_update)
  ultimately show ?thesis
    using True e u d cr'(2) cnt st by (auto simp: flushing_lax_def spent_keys_snoc update_conv')
qed

lemma flush_loop_lax:
  assumes "lax_db E c" and "flushing_lax E c P st" and "distinct (map fst (P @ cs))"
  shows "\<exists>st'. fold_opt (flush_step E) st cs = Some st' \<and> flushing_lax E c (P @ cs) st'"
  using assms(2,3)
proof (induction cs arbitrary: P st)
  case (Cons e cs)
  have "fst e \<notin> fst ` set P" using Cons.prems(2) by auto
  then have "fst e \<notin> spent_keys P" by (auto simp: spent_keys_def intro: rev_image_eqI)
  then obtain st1 where "flush_step E st e = Some st1" "flushing_lax E c (P @ [e]) st1"
    using flush_step_lax [OF assms(1) Cons.prems(1)] by blast
  then show ?case using Cons.IH [of "P @ [e]" st1] Cons.prems(2) by simp
qed simp

lemma write_records_lax:
  assumes "lax_db E c" and "distinct (map fst u)" and "\<And>h cr. (h, cr) \<in> set u \<Longrightarrow> wf_lengths cr"
  shows "\<exists>c'. fold_opt (write_record E) c u = Some c' \<and> lax_db E c' \<and> mainCache c' = mainCache c \<and>
    (\<forall>h. map_of u h = None \<longrightarrow> getCoinRecordFromDB E c' h = getCoinRecordFromDB E c h) \<and>
    (\<forall>h cr. map_of u h = Some cr \<and> cr_OutputIndexes cr \<noteq> [] \<longrightarrow> getCoinRecordFromDB E c' h = Some (Some cr))"
  using assms
proof (induction u arbitrary: c)
  case (Cons e u)
  obtain h cr where e: "e = (h, cr)" by (cases e)
  have wf: "wf_lengths cr" using Cons.prems(3) e by auto
  obtain c1 where c1: "write_record E c e = Some c1" "lax_db E c1" "mainCache c1 = mainCache c"
    "\<And>h'. h' \<noteq> h \<Longrightarrow> getCoinRecordFromDB E c1 h' = getCoinRecordFromDB E c h'"
    "cr_OutputIndexes cr \<noteq> [] \<Longrightarrow> getCoinRecordFromDB E c1 h = Some (Some cr)"
  proof (cases "cr_OutputIndexes cr = []")
    case True
    have "write_record E c e = Some (deleteRecord E c h)" using True by (simp add: e write_record_def)
    moreover have "mainCache (deleteRecord E c h) = mainCache c" by (simp add: deleteRecord_def)
    ultimately show ?thesis
      by (rule that [OF _ lax_db_delete [OF Cons.prems(1)]])
        (simp_all add: True getCoinRecord_delete [OF lax_db_laws(1) [OF Cons.prems(1)]])
  next
    case False
    obtain c' where "putRecordInDB E c h cr = Some c'" "lax_db E c'" "mainCache c' = mainCache c"
      "getCoinRecordFromDB E c' = (getCoinRecordFromDB E c)(h := Some (Some cr))"
      by (rule lax_db_put [OF Cons.prems(1) wf])
    with False show ?thesis by (intro that [of c']) (simp_all add: e write_record_def)
  qed
  have "map_of u h = None" using Cons.prems(2) e by (simp add: map_of_eq_None_iff)
  moreover have "\<exists>c'. fold_opt (write_record E) c1 u = Some c' \<and> lax_db E c' \<and> mainCache c' = mainCache c1 \<and>
    (\<forall>h. map_of u h = None \<longrightarrow> getCoinRecordFromDB E c' h = getCoinRecordFromDB E c1 h) \<and>
    (\<forall>h cr. map_of u h = Some cr \<and> cr_OutputIndexes cr \<noteq> [] \<longrightarrow> getCoinRecordFromDB E c' h = Some (Some cr))"
    using Cons.prems(2,3) by (intro Cons.IH [OF c1(2)]) auto
  ultimately obtain c2 where c2: "fold_opt (write_record E) c1 u = Some c2" "lax_db E c2" "mainCache c2 = mainCache c1"
    "map_of u h = None" "\<And>h. map_of u h = None \<Longrightarrow> getCoinRecordFromDB E c2 h = getCoinRecordFromDB E c1 h"
    "\<And>h cr. map_of u h = Some cr \<Longrightarrow> cr_OutputIndexes cr \<noteq> [] \<Longrightarrow> getCoinRecordFromDB E c2 h = Some (Some cr)"
    by blast
  have "getCoinRecordFromDB E c2 h' = Some (Some cr')" if "map_of (e # u) h' = Some cr'" "cr_OutputIndexes cr' \<noteq> []" for h' cr'
    using that c1(5) c2(4) c2(5) [of h] c2(6) by (cases "h' = h") (auto simp: e)
  moreover have "getCoinRecordFromDB E c2 h' = getCoinRecordFromDB E c h'" if "map_of (e # u) h' = None" for h'
    using that c1(4) [of h'] c2(5) [of h'] by (auto simp: e split: if_splits)
  ultimately show ?case using c1(1,3) c2(1-3) by auto
qed simp

text \<open>A spent coin whose record holds its index twice is spendable after a flush.\<close>

lemma FlushMainCache_lax:
  assumes c: "lax_db E c"
  shows "\<exists>c'. FlushMainCache E c = Some c' \<and>
    (\<forall>cl coin. map_of (mainCache c) cl = Some coin \<and> IsSpent coin \<and> 2 \<le> index_count E c cl \<longrightarrow> utxo E c' cl \<noteq> None)"
proof -
  have "flushing_lax E c [] ([], c)" by (simp add: flushing_lax_def spent_keys_def)
  moreover have "distinct (map fst (mainCache c))" using c by (simp add: lax_db_def)
  ultimately obtain u d where st: "fold_opt (flush_step E) ([], c) (mainCache c) = Some (u, d)" "flushing_lax E c (mainCache c) (u, d)"
    using flush_loop_lax [OF c, of "[]" "([], c)" "mainCache c"] by auto
  have d: "d = c\<lparr>mainCache := filter (\<lambda>e. fst e \<notin> spent_keys (mainCache c)) (mainCache c)\<rparr>" "distinct (map fst u)"
    using st(2) by (simp_all add: flushing_lax_def)
  have "lax_db E (d\<lparr>mainCacheSize := 0\<rparr>)"
    using c d(1) by (intro lax_db_cong [OF c]) (simp_all add: lax_db_def distinct_map_filter)
  moreover have "\<And>h cr. (h, cr) \<in> set u \<Longrightarrow> wf_lengths cr"
    using st(2) d(2) by (auto simp: flushing_lax_def)
  ultimately obtain c' where c': "fold_opt (write_record E) (d\<lparr>mainCacheSize := 0\<rparr>) u = Some c'" "mainCache c' = mainCache d"
    "\<And>h cr. map_of u h = Some cr \<Longrightarrow> cr_OutputIndexes cr \<noteq> [] \<Longrightarrow> getCoinRecordFromDB E c' h = Some (Some cr)"
    using write_records_lax [of E "d\<lparr>mainCacheSize := 0\<rparr>" u] d(2) by fastforce
  have "utxo E c' cl \<noteq> None" if coin: "map_of (mainCache c) cl = Some coin" "IsSpent coin" "2 \<le> index_count E c cl" for cl coin
  proof -
    have s: "cl \<in> spent_keys (mainCache c)" using coin by (auto simp: spent_keys_def dest: map_of_SomeD)
    then obtain cr where cr: "map_of u (cl_ReferenceTransactionHash cl) = Some cr" using st(2) by (auto simp: flushing_lax_def)
    then have wf: "wf_lengths cr" and "count_list (cr_OutputIndexes cr) (cl_OutputIndex cl) = index_count E c cl - 1"
      using st(2) s by (auto simp: flushing_lax_def)
    then have i: "cl_OutputIndex cl \<in> set (cr_OutputIndexes cr)" using coin(3) count_list_0_iff [of "cr_OutputIndexes cr" "cl_OutputIndex cl"] by auto
    then have "getCoinRecordFromDB E c' (cl_ReferenceTransactionHash cl) = Some (Some cr)" by (intro c'(3) [OF cr]) auto
    moreover have "map_of (mainCache c') cl = None" using s by (auto simp: c'(2) d(1) map_of_eq_None_iff)
    ultimately show ?thesis using i record_coins_None_iff [OF wf] by (simp add: utxo_def db_coins_def)
  qed
  then show ?thesis using st(1) c'(1) by (auto simp: FlushMainCache_def)
qed

section \<open>Coins after a reorganisation\<close>

text \<open>
  The blocks \<open>ps\<close> can be reverted and stored again: besides \<open>undoable\<close>, no two of their transactions have the same hash, their
  inputs are cached as spent coins that their records still hold, and the cache has room for their outputs.
\<close>

definition revertible :: "('db, 'z) ext_scheme \<Rightarrow> 'db CoinDatabase \<Rightarrow> (Block \<times> UndoBlock) list \<Rightarrow> bool" where
  "revertible E c ps \<longleftrightarrow> undoable E (recorded E c) ps \<and> distinct (map (Transaction_Hash E) (txs_of ps)) \<and>
     (\<forall>cl \<in> inputs_of (txs_of ps). db_coins E c cl \<noteq> None \<and> (\<exists>coin. map_of (mainCache c) cl = Some coin \<and> IsSpent coin)) \<and>
     output_count (txs_of ps) \<le> unat (mainCacheSize c) \<and>
     (\<forall>tx \<in> set (txs_of ps). unat (mainCacheSize c) + length (Outputs tx) < unat (mainCacheCapacity c))"

lemma undoable_lengths: "undoable E D ps \<Longrightarrow> tx \<in> set (txs_of ps) \<Longrightarrow> length (Outputs tx) < 2 ^ 32"
  by (induction ps arbitrary: D) auto

lemma undone_indexes: "undoable E D ps \<Longrightarrow> (i, txo) \<in> undone ps h \<Longrightarrow> locator h i \<in> inputs_of (txs_of ps)"
proof (induction ps arbitrary: D)
  case (Cons p ps)
  obtain b ub where p: "p = (b, ub)" by fastforce
  show ?case
  proof (cases "(i, txo) \<in> all_entries ub h")
    case True
    then have "locator h i \<in> undo_locs ub" by (force simp: undo_entries_def undo_locs_def undo_loc_def)
    then show ?thesis using Cons.prems(1) by (simp add: p inputs_of_append)
  next
    case False
    then show ?thesis using Cons by (auto simp: p inputs_of_append)
  qed
qed simp

lemma inputs_undone: "undoable E D ps \<Longrightarrow> cl \<in> inputs_of (txs_of ps) \<Longrightarrow> \<exists>txo. (cl_OutputIndex cl, txo) \<in> undone ps (cl_ReferenceTransactionHash cl)"
proof (induction ps arbitrary: D)
  case (Cons p ps)
  obtain b ub where p: "p = (b, ub)" by fastforce
  show ?case
  proof (cases "cl \<in> inputs_of (Transactions b)")
    case True
    then have "cl \<in> undo_locs ub" using Cons.prems(1) by (simp add: p)
    then obtain j where "j < length (TransactionInputHashes ub)" "cl = undo_loc ub j" by (auto simp: undo_locs_def)
    then have "(cl_OutputIndex cl, undo_txo ub j) \<in> all_entries ub (cl_ReferenceTransactionHash cl)"
      by (auto simp: undo_entries_def undo_loc_def)
    then show ?thesis by (auto simp: p)
  next
    case False
    then have "cl \<in> inputs_of (txs_of ps)" "undoable E (D - hashes_of E (Transactions b)) ps"
      using Cons.prems by (simp_all add: p inputs_of_append)
    from Cons.IH [OF this(2,1)] show ?thesis by (auto simp: p)
  qed
qed (simp add: inputs_of_append)

text \<open>The caches before and after.\<close>

lemma revert_store_cache:
  assumes "\<And>cl. cl \<in> inputs_of txs \<Longrightarrow> \<exists>coin. M cl = Some coin \<and> IsSpent coin"
  shows "store_cache E (undo_cache E M txs) txs = M ++ fresh_coins (new_coins E txs)"
proof
  fix cl
  show "store_cache E (undo_cache E M txs) txs cl = (M ++ fresh_coins (new_coins E txs)) cl"
  proof (cases "new_coins E txs cl")
    case None
    then have "\<not> is_output E txs cl" by (simp add: is_output_iff)
    then show ?thesis
      using None assms [of cl] by (auto simp: store_cache_def undo_cache_def spend_all_def revive_def map_add_def)
  qed (simp add: store_cache_def map_add_def)
qed

lemma grown_index_count:
  assumes "grown_at (getCoinRecordFromDB E c (cl_ReferenceTransactionHash cl)) S (getCoinRecordFromDB E c' (cl_ReferenceTransactionHash cl))"
    and "lax_db E c" and "db_coins E c cl \<noteq> None" and "(cl_OutputIndex cl, txo) \<in> S"
  shows "2 \<le> index_count E c' cl"
proof -
  let ?i = "cl_OutputIndex cl"
  obtain cr where cr: "getCoinRecordFromDB E c (cl_ReferenceTransactionHash cl) = Some (Some cr)" "record_coins cr ?i \<noteq> None"
    using assms(3) by (auto simp: db_coins_def split: option.splits)
  note wf = lax_db_lengths [OF assms(2) cr(1)]
  obtain cr' added where cr': "getCoinRecordFromDB E c' (cl_ReferenceTransactionHash cl) = Some (Some cr')" "wf_lengths cr'"
    "record_entries cr' = record_entries cr @ added" "(?i, txo) \<in> set added"
    using assms(1,4) cr(1) by (auto simp: grown_at_def grown_def)
  have "cr_OutputIndexes cr' = cr_OutputIndexes cr @ map fst added"
    using cr'(3) fst_record_entries [OF cr'(2)] fst_record_entries [OF wf] by simp
  moreover have "?i \<in> set (cr_OutputIndexes cr)" using cr(2) record_coins_None_iff [OF wf] by simp
  moreover have "?i \<in> set (map fst added)" using cr'(4) by force
  ultimately show ?thesis
    using count_list_0_iff [of "cr_OutputIndexes cr" ?i] count_list_0_iff [of "map fst added" ?i]
    by (simp add: index_count_def cr'(1))
qed

lemma created_coins:
  assumes "distinct (map (Transaction_Hash E) txs)" and "tx \<in> set txs" and "length (Outputs tx) < 2 ^ 32"
    and "getCoinRecordFromDB E c (Transaction_Hash E tx) = Some (Some (createCoinRecord tx))"
    and "cl_ReferenceTransactionHash cl = Transaction_Hash E tx" and "new_coins E txs cl = None"
  shows "db_coins E c cl = None"
proof -
  have "outputs_of E tx cl = None" using assms(2,6) is_output_iff [of E txs cl] by (auto simp: is_output_def)
  then show ?thesis using assms(3-5) by (auto simp: db_coins_def createCoinRecord_coins outputs_of_def)
qed

lemma reverted_db_coins:
  assumes und: "undoable E D ps" and d: "distinct (map (Transaction_Hash E) (txs_of ps))" and old: "db_coins E c cl = None"
    and new: "\<And>tx. tx \<in> set (txs_of ps) \<Longrightarrow> getCoinRecordFromDB E c' (Transaction_Hash E tx) = Some (Some (createCoinRecord tx))"
    and grown: "\<And>h. h \<notin> hashes_of E (txs_of ps) \<Longrightarrow> grown_at (getCoinRecordFromDB E c h) (undone ps h) (getCoinRecordFromDB E c' h)"
    and None: "new_coins E (txs_of ps) cl = None" and cl: "cl \<notin> inputs_of (txs_of ps)"
  shows "db_coins E c' cl = None"
proof (cases "cl_ReferenceTransactionHash cl \<in> hashes_of E (txs_of ps)")
  case True
  then obtain tx where "tx \<in> set (txs_of ps)" "cl_ReferenceTransactionHash cl = Transaction_Hash E tx" by (auto simp: hashes_of_def)
  then show ?thesis using None new undoable_lengths [OF und] by (intro created_coins [OF d]) auto
next
  case False
  have "(cl_OutputIndex cl, txo) \<notin> undone ps (cl_ReferenceTransactionHash cl)" for txo
    using undone_indexes [OF und, of "cl_OutputIndex cl" txo "cl_ReferenceTransactionHash cl"] cl by auto
  then show ?thesis
    using grown [OF False] old
    by (auto simp: grown_at_def grown_def db_coins_def record_coins_def map_of_eq_None_iff image_iff split: option.splits)
qed

lemma reorg_coins:
  assumes ok: "coindb_ok E c" and rv: "revertible E c ps"
  shows "\<exists>c1 c2. UndoCoins E c (map fst ps) (map snd ps) = Some c1 \<and> store_blocks E c1 (map fst ps) = Some c2 \<and> lax_db E c2 \<and>
    utxo E c2 = utxo E c ++ new_coins E (txs_of ps) \<and>
    (\<forall>cl \<in> inputs_of (txs_of ps). cl_ReferenceTransactionHash cl \<notin> hashes_of E (txs_of ps) \<longrightarrow>
       (\<exists>coin. map_of (mainCache c2) cl = Some coin \<and> IsSpent coin) \<and> 2 \<le> index_count E c2 cl)"
proof -
  let ?txs = "txs_of ps" and ?R = "getCoinRecordFromDB E" and ?H = "hashes_of E (txs_of ps)"
  have lax: "lax_db E c" and ca: "\<And>cl. cached_at E c cl" using ok by (simp_all add: coindb_ok_def lax_db_wf)
  have und: "undoable E (recorded E c) ps" and d: "distinct (map (Transaction_Hash E) ?txs)"
    and size: "output_count ?txs \<le> unat (mainCacheSize c)"
    and room: "\<And>tx. tx \<in> set ?txs \<Longrightarrow> unat (mainCacheSize c) + length (Outputs tx) < unat (mainCacheCapacity c)"
    and spent: "\<And>cl. cl \<in> inputs_of ?txs \<Longrightarrow> \<exists>coin. map_of (mainCache c) cl = Some coin \<and> IsSpent coin"
    and kept: "\<And>cl. cl \<in> inputs_of ?txs \<Longrightarrow> db_coins E c cl \<noteq> None"
    using rv by (auto simp: revertible_def)
  obtain c1 where c1: "UndoCoins E c (map fst ps) (map snd ps) = Some c1" "lax_db E c1"
    "map_of (mainCache c1) = undo_cache E (map_of (mainCache c)) ?txs"
    "\<And>h. if h \<in> ?H then ?R c1 h = Some None else grown_at (?R c h) (undone ps h) (?R c1 h)"
    "mainCacheSize c1 = mainCacheSize c - word_of_nat (output_count ?txs)" "mainCacheCapacity c1 = mainCacheCapacity c"
    using UndoCoins_lax [OF lax und] unfolding undo_caches by blast
  have "unat (word_of_nat (output_count ?txs) :: u32) = output_count ?txs"
    using size u32_bound [of "mainCacheSize c"] by (intro u32_of_nat_less) simp
  then have s1: "unat (mainCacheSize c1) + output_count ?txs = unat (mainCacheSize c)"
    using size u32_sub_no_wrap [of "word_of_nat (output_count ?txs)" "mainCacheSize c"] c1(5) by (simp add: word_le_nat_alt)
  obtain c2 where c2: "store_blocks E c1 (map fst ps) = Some c2" "lax_db E c2"
    "map_of (mainCache c2) = store_cache E (map_of (mainCache c1)) ?txs"
    "\<And>tx. tx \<in> set ?txs \<Longrightarrow> ?R c2 (Transaction_Hash E tx) = Some (Some (createCoinRecord tx))"
    "\<And>h. h \<notin> ?H \<Longrightarrow> ?R c2 h = ?R c1 h"
    using store_blocks_lax [OF c1(2) _ d undoable_lengths [OF und]] c1(4) room s1 c1(6) unfolding store_caches [OF und]
    by (auto split: if_splits)
  have cache: "map_of (mainCache c2) = map_of (mainCache c) ++ fresh_coins (new_coins E ?txs)"
    unfolding c2(3) c1(3) using spent by (rule revert_store_cache)
  have grown: "grown_at (?R c h) (undone ps h) (?R c2 h)" if "h \<notin> ?H" for h
    using c1(4) [of h] c2(5) [OF that] that by simp
  have "utxo E c2 cl = (utxo E c ++ new_coins E ?txs) cl" for cl
  proof (cases "new_coins E ?txs cl")
    case None
    show ?thesis
    proof (cases "map_of (mainCache c) cl")
      case uncached: None
      then have "db_coins E c cl = None" using ca [of cl] by (simp add: cached_at_None)
      moreover have "cl \<notin> inputs_of ?txs" using spent uncached by fastforce
      ultimately have "db_coins E c2 cl = None" using reverted_db_coins [OF und d _ c2(4) grown None] by blast
      with \<open>db_coins E c cl = None\<close> show ?thesis using None uncached by (simp add: utxo_def cache map_add_def)
    next
      case (Some coin)
      then show ?thesis using None by (simp add: utxo_def cache map_add_def)
    qed
  qed (simp add: utxo_def cache map_add_def)
  moreover have "(\<exists>coin. map_of (mainCache c2) cl = Some coin \<and> IsSpent coin) \<and> 2 \<le> index_count E c2 cl"
    if cl: "cl \<in> inputs_of ?txs" and h: "cl_ReferenceTransactionHash cl \<notin> ?H" for cl
  proof
    have "new_coins E ?txs cl = None" using h by (intro new_coins_hash) (simp add: hashes_of_def)
    then show "\<exists>coin. map_of (mainCache c2) cl = Some coin \<and> IsSpent coin" using spent [OF cl] by (simp add: cache map_add_def)
    obtain txo where "(cl_OutputIndex cl, txo) \<in> undone ps (cl_ReferenceTransactionHash cl)" using inputs_undone [OF und cl] by blast
    then show "2 \<le> index_count E c2 cl" by (rule grown_index_count [OF grown [OF h] lax kept [OF cl]])
  qed
  ultimately show ?thesis using c1(1) c2(1,2) by blast
qed

end
