(* ===== verification/Chain_Reorg.thy ===== *)
theory Chain_Reorg
  imports Coin_Reorg Active_Chain
begin

text \<open>
  Reorganisations of \<open>src/pkg/blockchain\<close>: what \<open>handleFork\<close> makes of the chain and of its coins.
\<close>

section \<open>The length of a fork\<close>

lemma fork_loop_bound: "fork_loop E bc k nh n = (int m, a) \<Longrightarrow> m + 1 \<le> n + k"
  by (induction k arbitrary: nh n) (auto split: if_splits, fastforce)

lemma trim_unsafe_total: "i = 0 \<or> i < length hs \<Longrightarrow> \<exists>hs'. trim_unsafe i a hs = Some hs'"
proof (induction i arbitrary: hs)
  case (Suc i)
  then have "i < length (butlast hs)" by simp
  then obtain hs' where "trim_unsafe i a (butlast hs) = Some hs'" using Suc.IH by blast
  then show ?case using Suc.prems by (auto simp: slice_get_def)
qed simp

lemma trim_unsafe_fork:
  assumes "getForkLengthAndAncestor E bc h = (int n, a)"
  shows "\<exists>hs. trim_unsafe (min 6 n - 1) a (UnsafeHashes bc) = Some hs"
  using fork_loop_bound [OF assms [unfolded getForkLengthAndAncestor_def]] by (intro trim_unsafe_total) auto

section \<open>The coins after a reorganisation\<close>

text \<open>
  C33: A reorganisation moves the tip of the chain to the new block and leaves the coins to the old branch. \<open>handleFork\<close> reverts
  as many blocks \<open>ps\<close> of the old chain as the new branch is long and stores these blocks again, newest first, instead of
  the blocks of the new branch. Afterwards every output of \<open>ps\<close> is spendable, also one that another block of \<open>ps\<close> spends, all other coins
  are those from before, and nothing of the new branch is a coin. \<open>UndoCoins\<close> has added the inputs of \<open>ps\<close> to records that still
  held them, so the next flush of the cache makes these inputs spendable again although the blocks that spend them are stored.
  The coin database satisfies its invariant, the undo blocks of \<open>ps\<close> can be read and the cache has room for the outputs.
\<close>

theorem reorg_keeps_old_coins:
  assumes fork: "getForkLengthAndAncestor E bc (Block_Hash E b) = (int (length ps), ancestor)"
    and old: "getBlocksAndUndoBlocks E bc d (length ps) (LastHash bc) = Some (map fst ps, map snd ps)"
    and ok: "coindb_ok E (CoinDB bc)" and rv: "revertible E (CoinDB bc) ps"
  shows "\<exists>bc' c. handleFork E bc d b height = Some bc' \<and>
    LastBlock bc' = b \<and> LastHash bc' = Block_Hash E b \<and> Length bc' = height \<and>
    utxo E (CoinDB bc') = utxo E (CoinDB bc) ++ new_coins E (txs_of ps) \<and>
    FlushMainCache E (CoinDB bc') = Some c \<and>
    (\<forall>cl \<in> inputs_of (txs_of ps). cl_ReferenceTransactionHash cl \<notin> hashes_of E (txs_of ps) \<longrightarrow> utxo E c cl \<noteq> None)"
proof -
  obtain hs where hs: "trim_unsafe (min 6 (length ps) - 1) ancestor (UnsafeHashes bc) = Some hs"
    using trim_unsafe_fork [OF fork] by blast
  obtain c1 c2 where c: "UndoCoins E (CoinDB bc) (map fst ps) (map snd ps) = Some c1" "store_blocks E c1 (map fst ps) = Some c2"
    "lax_db E c2" "utxo E c2 = utxo E (CoinDB bc) ++ new_coins E (txs_of ps)"
    "\<And>cl. cl \<in> inputs_of (txs_of ps) \<Longrightarrow> cl_ReferenceTransactionHash cl \<notin> hashes_of E (txs_of ps) \<Longrightarrow>
       (\<exists>coin. map_of (mainCache c2) cl = Some coin \<and> IsSpent coin) \<and> 2 \<le> index_count E c2 cl"
    using reorg_coins [OF ok rv] by blast
  obtain c3 where c3: "FlushMainCache E c2 = Some c3"
    "\<And>cl coin. map_of (mainCache c2) cl = Some coin \<Longrightarrow> IsSpent coin \<Longrightarrow> 2 \<le> index_count E c2 cl \<Longrightarrow> utxo E c3 cl \<noteq> None"
    using FlushMainCache_lax [OF c(3)] by blast
  have "\<exists>bc'. handleFork E bc d b height = Some bc' \<and> LastBlock bc' = b \<and> LastHash bc' = Block_Hash E b \<and> Length bc' = height \<and> CoinDB bc' = c2"
    using fork old hs c(1,2) by (simp add: handleFork_def store_blocks_def)
  then show ?thesis using c(4,5) c3 by blast
qed

end
