(* ===== verification/Reorg_Instances.thy ===== *)
theory Reorg_Instances
  imports Chain_Reorg Chain_Instances
begin

text \<open>
  An instance of a reorganisation on the reference libraries: the chain ends with the blocks \<open>old_a\<close> and \<open>old_x\<close>, of which the second
  spends the output of the first, and a branch of two empty blocks on top of \<open>old_a\<close> takes over.
\<close>

section \<open>The coins\<close>

definition sample_spend2 :: Transaction where
  "sample_spend2 = \<lparr>Segwit = False, t_Version = 0,
     Inputs = [\<lparr>ReferenceTransactionHash = spend_hash, OutputIndex = 0, UnlockingScript = []\<rparr>],
     Outputs = [\<lparr>Amount = 5, LockingScript = [4]\<rparr>], Witnesses = [], LockTime = 0\<rparr>"

abbreviation spend2_hash :: string where "spend2_hash \<equiv> Transaction_Hash ref_ext sample_spend2"

lemma spend2_facts [simp]: "cb_hash \<noteq> spend2_hash" "spend2_hash \<noteq> cb_hash" "spend_hash \<noteq> spend2_hash" "spend2_hash \<noteq> spend_hash"
  "inputs_of [sample_spend2] = {locator spend_hash 0}" "length (Outputs sample_spend2) = 1"
  by (simp_all add: ref_Transaction_Hash_eq inputs_of_def makeCoinLocator_locator)
    (simp_all add: sample_cb_def sample_spend_def sample_spend2_def makeCoinLocator_locator)

lemma sample_outputs_of:
  "outputs_of ref_ext sample_spend (locator spend_hash 0) = Some \<lparr>Amount = 5, LockingScript = [3]\<rparr>"
  "outputs_of ref_ext sample_spend (locator cb_hash i) = None"
  "outputs_of ref_ext sample_spend2 (locator cb_hash i) = None" "outputs_of ref_ext sample_spend2 (locator spend_hash i) = None"
  by (simp_all add: outputs_of_def) (simp_all add: sample_spend_def)

text \<open>Storing one transaction: the refinement to the abstract coins and the exact cache and records at once.\<close>

lemma store_one:
  assumes "coindb_ok ref_ext c" and "known_hashes c \<subseteq> K" and "Transaction_Hash ref_ext tx \<notin> K"
    and "inputs_of [tx] \<subseteq> dom (utxo ref_ext c)" and "getCoinRecordFromDB ref_ext c (Transaction_Hash ref_ext tx) = Some None"
    and "length (Outputs tx) < 5" and "unat (mainCacheSize c) < 10" and "mainCacheCapacity c = 30"
  obtains c' where "coindb_ok ref_ext c'" "known_hashes c' \<subseteq> insert (Transaction_Hash ref_ext tx) K"
    "utxo ref_ext c' = apply_block ref_ext (utxo ref_ext c) [tx]"
    "map_of (mainCache c') = store_cache ref_ext (map_of (mainCache c)) [tx]"
    "unat (mainCacheSize c') = unat (mainCacheSize c) + length (Outputs tx)" "mainCacheCapacity c' = 30"
    "getCoinRecordFromDB ref_ext c' = (getCoinRecordFromDB ref_ext c)(Transaction_Hash ref_ext tx := Some (Some (createCoinRecord tx)))"
proof -
  let ?h = "Transaction_Hash ref_ext tx"
  have new: "new_block ref_ext (known_hashes c) [tx]" using assms(2,3,6) by (auto simp: new_block_def)
  obtain c' where c': "CoinDatabase_StoreBlock ref_ext c [tx] = Some c'" "coindb_ok ref_ext c'"
    "utxo ref_ext c' = apply_block ref_ext (utxo ref_ext c) [tx]" "cached_outputs c' \<subseteq>\<^sub>m cached_outputs c ++ new_coins ref_ext [tx]"
    using StoreBlock_refines [OF assms(1) new assms(4)] by blast
  have "lax_db ref_ext c" using assms(1) by (simp add: coindb_ok_def lax_db_wf)
  then have "\<exists>c'. CoinDatabase_StoreBlock ref_ext c [tx] = Some c' \<and> lax_db ref_ext c' \<and>
    map_of (mainCache c') = store_cache ref_ext (map_of (mainCache c)) [tx] \<and>
    unat (mainCacheSize c') = unat (mainCacheSize c) + output_count [tx] \<and> mainCacheCapacity c' = mainCacheCapacity c \<and>
    (\<forall>tx \<in> set [tx]. getCoinRecordFromDB ref_ext c' (Transaction_Hash ref_ext tx) = Some (Some (createCoinRecord tx))) \<and>
    (\<forall>h. h \<notin> hashes_of ref_ext [tx] \<longrightarrow> getCoinRecordFromDB ref_ext c' h = getCoinRecordFromDB ref_ext c h)"
    using assms(5-8) by (intro StoreBlock_lax) (auto simp: hashes_of_def)
  then have lax: "map_of (mainCache c') = store_cache ref_ext (map_of (mainCache c)) [tx]"
    "unat (mainCacheSize c') = unat (mainCacheSize c) + length (Outputs tx)" "mainCacheCapacity c' = 30"
    "getCoinRecordFromDB ref_ext c' ?h = Some (Some (createCoinRecord tx))"
    "\<And>h. h \<noteq> ?h \<Longrightarrow> getCoinRecordFromDB ref_ext c' h = getCoinRecordFromDB ref_ext c h"
    using c'(1) assms(8) by (auto simp: hashes_of_def)
  have "known_hashes c' \<subseteq> insert ?h K" using known_hashes_step [OF c'(4)] assms(2) by auto
  moreover have "getCoinRecordFromDB ref_ext c' = (getCoinRecordFromDB ref_ext c)(?h := Some (Some (createCoinRecord tx)))"
    using lax(4,5) by (auto simp: fun_eq_iff)
  ultimately show thesis using that [of c'] c'(2,3) lax(1-3) by blast
qed

definition undo_a :: UndoBlock where "undo_a = sample_undo2"

definition undo_x :: UndoBlock where
  "undo_x = \<lparr>TransactionInputHashes = [spend_hash], OutputIndexes = [0], Amounts = [5], LockingScripts = [[3]]\<rparr>"

definition old_a :: Block where "old_a = sample_next g_hash [sample_spend]"

definition old_x :: Block where "old_x = sample_next (Block_Hash ref_ext old_a) [sample_spend2]"

abbreviation old_branch :: "(Block \<times> UndoBlock) list" where "old_branch \<equiv> [(old_x, undo_x), (old_a, undo_a)]"

lemma old_txs [simp]: "Transactions old_a = [sample_spend]" "Transactions old_x = [sample_spend2]"
  by (simp_all add: old_a_def old_x_def)

lemma old_undo: "wf_UndoBlock undo_a" "wf_UndoBlock undo_x" "undo_locs undo_a = {locator cb_hash 0}" "undo_locs undo_x = {locator spend_hash 0}"
  "TransactionInputHashes undo_a = [cb_hash]" "TransactionInputHashes undo_x = [spend_hash]"
  by (simp_all add: wf_UndoBlock_def undo_locs_def undo_loc_def undo_a_def sample_undo2_def undo_x_def)

lemma old_inputs: "inputs_of [sample_spend2, sample_spend] = {locator spend_hash 0, locator cb_hash 0}"
  using inputs_of_append(2) [of "[sample_spend2]" "[sample_spend]"] by auto

lemma old_coins:
  obtains c where "coindb_ok ref_ext c" "revertible ref_ext c old_branch" "utxo ref_ext c (locator spend_hash 0) = None"
    "utxo ref_ext c (locator cb_hash 0) = None"
proof -
  have none: "getCoinRecordFromDB ref_ext sample_db0 h = Some None" for h
    by (simp add: sample_db0_def CoinDatabase_New_def getCoinRecordFromDB_def leveldb_simps ref_ext_leveldb)
  have init: "mainCache sample_db0 = []" "mainCacheSize sample_db0 = 0" "mainCacheCapacity sample_db0 = 30"
    by (simp_all add: sample_db0_def CoinDatabase_New_def cdb_DefaultConfig_def)
  obtain c1 where c1: "coindb_ok ref_ext c1" "known_hashes c1 \<subseteq> {cb_hash}" "utxo ref_ext c1 = apply_block ref_ext (utxo ref_ext sample_db0) [sample_cb]"
    "map_of (mainCache c1) = store_cache ref_ext (map_of (mainCache sample_db0)) [sample_cb]"
    "unat (mainCacheSize c1) = unat (mainCacheSize sample_db0) + length (Outputs sample_cb)" "mainCacheCapacity c1 = 30"
    "getCoinRecordFromDB ref_ext c1 = (getCoinRecordFromDB ref_ext sample_db0)(cb_hash := Some (Some (createCoinRecord sample_cb)))"
    by (rule store_one [OF sample_db0_ok(1), of "{}" sample_cb]) (auto simp: sample_db0_ok none init)
  have u1: "utxo ref_ext c1 = outputs_of ref_ext sample_cb" by (simp add: c1(3) sample_db0_ok apply_block_def new_coins_single)
  obtain c2 where c2: "coindb_ok ref_ext c2" "known_hashes c2 \<subseteq> {spend_hash, cb_hash}" "utxo ref_ext c2 = apply_block ref_ext (utxo ref_ext c1) [sample_spend]"
    "map_of (mainCache c2) = store_cache ref_ext (map_of (mainCache c1)) [sample_spend]"
    "unat (mainCacheSize c2) = unat (mainCacheSize c1) + length (Outputs sample_spend)" "mainCacheCapacity c2 = 30"
    "getCoinRecordFromDB ref_ext c2 = (getCoinRecordFromDB ref_ext c1)(spend_hash := Some (Some (createCoinRecord sample_spend)))"
    by (rule store_one [OF c1(1,2), of sample_spend]) (use sample_coins(1) in \<open>auto simp: u1 c1(5-7) none init\<close>)
  have u2: "utxo ref_ext c2 (locator spend_hash 0) = Some \<lparr>Amount = 5, LockingScript = [3]\<rparr>" "utxo ref_ext c2 (locator cb_hash 0) = None"
    using sample_outputs_of by (simp_all add: c2(3) u1 apply_block_def new_coins_single map_add_def restrict_map_def)
  obtain c3 where c3: "coindb_ok ref_ext c3" "utxo ref_ext c3 = apply_block ref_ext (utxo ref_ext c2) [sample_spend2]"
    "map_of (mainCache c3) = store_cache ref_ext (map_of (mainCache c2)) [sample_spend2]"
    "unat (mainCacheSize c3) = unat (mainCacheSize c2) + length (Outputs sample_spend2)" "mainCacheCapacity c3 = 30"
    "getCoinRecordFromDB ref_ext c3 = (getCoinRecordFromDB ref_ext c2)(spend2_hash := Some (Some (createCoinRecord sample_spend2)))"
    by (rule store_one [OF c2(1,2), of sample_spend2]) (use u2(1) in \<open>auto simp: c2(5-7) c1(5,7) none init\<close>)
  have recs: "getCoinRecordFromDB ref_ext c3 cb_hash = Some (Some (createCoinRecord sample_cb))"
    "getCoinRecordFromDB ref_ext c3 spend_hash = Some (Some (createCoinRecord sample_spend))"
    by (simp_all add: c3(6) c2(7) c1(7))
  have cache: "\<exists>coin. map_of (mainCache c3) cl = Some coin \<and> IsSpent coin" if "cl \<in> {locator spend_hash 0, locator cb_hash 0}" for cl
    using that sample_coins(1) sample_outputs_of
    by (auto simp: c3(3) c2(4) c1(4) store_cache_def spend_all_def new_coins_single map_add_def init simp del: locator_simps(5,6))
  have "db_coins ref_ext c3 cl \<noteq> None" if "cl \<in> {locator spend_hash 0, locator cb_hash 0}" for cl
    using that recs by (auto simp: db_coins_def createCoinRecord_coins simp del: locator_simps(5,6))
  then have "revertible ref_ext c3 old_branch"
    using cache recs c3(4,5) c2(5) c1(5)
    by (auto simp: revertible_def old_inputs old_undo recorded_def hashes_of_def output_count_def init simp del: locator_simps(5,6))
  moreover have "utxo ref_ext c3 (locator spend_hash 0) = None" "utxo ref_ext c3 (locator cb_hash 0) = None"
    using u2 sample_outputs_of by (simp_all add: c3(2) apply_block_def new_coins_single map_add_def restrict_map_def)
  ultimately show thesis using that c3(1) by blast
qed

section \<open>The chain\<close>

definition new_1 :: Block where
  "new_1 = (sample_next (Block_Hash ref_ext old_a) [])\<lparr>b_Header := (b_Header old_x)\<lparr>h_Nonce := 1\<rparr>\<rparr>"

definition new_2 :: Block where "new_2 = sample_next (Block_Hash ref_ext new_1) []"

abbreviation whole_file :: "string \<Rightarrow> bytes \<Rightarrow> FileInfo" where
  "whole_file f bs \<equiv> \<lparr>FileName = f, StartOffset = 0, EndOffset = word_of_nat (length bs)\<rparr>"

definition block_bytes :: "Block \<Rightarrow> bytes" where "block_bytes b = fst (marshal_Block ref_ext (EncodeBlock b))"

definition undo_bytes :: "UndoBlock \<Rightarrow> bytes" where
  "undo_bytes ub = (case EncodeUndoBlock ub of None \<Rightarrow> [] | Some p \<Rightarrow> fst (marshal_UndoBlock ref_ext p))"

definition file_record :: "Block \<Rightarrow> string \<Rightarrow> UndoBlock \<Rightarrow> string \<Rightarrow> BlockRecord" where
  "file_record b f ub g = \<lparr>br_Header = b_Header b, br_Height = 2, br_NumberOfTransactions = 1,
     br_BlockFile = f, br_BlockStartOffset = 0, br_BlockEndOffset = word_of_nat (length (block_bytes b)),
     br_UndoFile = g, br_UndoStartOffset = 0, br_UndoEndOffset = word_of_nat (length (undo_bytes ub))\<rparr>"

definition fork_disk :: disk where
  "fork_disk = [''a'' \<mapsto> block_bytes old_a, ''b'' \<mapsto> undo_bytes undo_a, ''x'' \<mapsto> block_bytes old_x, ''y'' \<mapsto> undo_bytes undo_x]"

definition fork_infodb :: "(bytes \<times> bytes) list BlockInfoDatabase" where
  "fork_infodb = foldl (\<lambda>db (b, br). StoreBlockRecord ref_ext db (Block_Hash ref_ext b) br) (BlockInfoDatabase_New (leveldb_empty ref_ext))
     [(new_2, file_record new_2 [] undo_x []), (new_1, file_record new_1 [] undo_x []),
      (old_a, file_record old_a ''a'' undo_a ''b''), (old_x, file_record old_x ''x'' undo_x ''y'')]"

definition fork_chain :: "(bytes \<times> bytes) list CoinDatabase \<Rightarrow> (bytes \<times> bytes) list BlockChain" where
  "fork_chain c = sample_bc\<lparr>Length := 3, LastBlock := old_x, LastHash := Block_Hash ref_ext old_x,
     UnsafeHashes := [Block_Hash ref_ext old_a, Block_Hash ref_ext old_x], BlockInfoDB := fork_infodb, CoinDB := c\<rparr>"

lemma fork_headers: "h_PreviousHash (b_Header old_a) = g_hash" "h_PreviousHash (b_Header old_x) = Block_Hash ref_ext old_a"
  "h_PreviousHash (b_Header new_1) = Block_Hash ref_ext old_a" "h_PreviousHash (b_Header new_2) = Block_Hash ref_ext new_1"
  "h_Nonce (b_Header old_x) = 0" "h_Nonce (b_Header new_1) = 1" "h_Nonce (b_Header old_a) = 0" "h_Nonce (b_Header new_2) = 0"
  by (simp_all add: old_a_def old_x_def new_1_def new_2_def) (simp_all add: sample_next_def sample_block_def)

lemma fork_hashes [simp]:
  "Block_Hash ref_ext old_a \<noteq> Block_Hash ref_ext old_x" "Block_Hash ref_ext new_1 \<noteq> Block_Hash ref_ext old_a"
  "Block_Hash ref_ext new_1 \<noteq> Block_Hash ref_ext old_x" "Block_Hash ref_ext new_2 \<noteq> Block_Hash ref_ext old_a"
  "Block_Hash ref_ext new_2 \<noteq> Block_Hash ref_ext old_x" "Block_Hash ref_ext new_2 \<noteq> Block_Hash ref_ext new_1"
proof -
  have g: "Block_Hash ref_ext old_a \<noteq> g_hash" by (simp add: old_a_def)
  show 1: "Block_Hash ref_ext new_1 \<noteq> Block_Hash ref_ext old_a"
    unfolding ref_Block_Hash_eq using fork_headers by (metis zero_neq_one)
  show "Block_Hash ref_ext old_a \<noteq> Block_Hash ref_ext old_x" "Block_Hash ref_ext new_1 \<noteq> Block_Hash ref_ext old_x"
    "Block_Hash ref_ext new_2 \<noteq> Block_Hash ref_ext new_1"
    unfolding ref_Block_Hash_eq using fork_headers g by (metis zero_neq_one)+
  show "Block_Hash ref_ext new_2 \<noteq> Block_Hash ref_ext old_x" unfolding ref_Block_Hash_eq [of new_2] using fork_headers 1 by metis
  have "Block_Hash ref_ext new_1 \<noteq> g_hash"
    unfolding ref_Block_Hash_eq using fork_headers(6) by (auto simp: sample_block_def)
  then show "Block_Hash ref_ext new_2 \<noteq> Block_Hash ref_ext old_a" unfolding ref_Block_Hash_eq [of new_2] using fork_headers by metis
qed

lemma fork_lengths: "length g_hash < 100" "length (Block_Hash ref_ext old_a) < 500" "length cb_hash < 1000" "length spend_hash < 10000"
proof -
  show g: "length g_hash < 100" by (simp add: length_ref_Block_Hash sample_block_def)
  then show "length (Block_Hash ref_ext old_a) < 500"
    by (simp add: length_ref_Block_Hash old_a_def) (simp add: sample_next_def sample_block_def)
  show cb: "length cb_hash < 1000"
    by (simp add: Transaction_Hash_def ref_ext_def enc_Tx_def enc_TxIn_def enc_TxOut_def sample_cb_def EncodeTransaction_def
        EncodeTransactionOutput_def enc_list_def enc_bool_def Let_def)
  have "marshal_Transaction ref_ext x = (enc_Tx x, True)" "sha256 ref_ext y = y" for x y by (simp_all add: ref_ext_def)
  then show "length spend_hash < 10000" using cb unfolding Transaction_Hash_def [of _ sample_spend]
    by (simp add: enc_Tx_def enc_TxIn_def enc_TxOut_def sample_spend_def EncodeTransaction_def
        EncodeTransactionInput_def EncodeTransactionOutput_def enc_list_def enc_bool_def Let_def)
qed

lemma read_whole_file:
  "d f = Some bs \<Longrightarrow> length bs < 2 ^ 32 \<Longrightarrow> readFromDisk d (whole_file f bs) = Some bs"
  by (auto simp: readFromDisk_def Let_def u32_of_nat_less)

lemma old_header_rest: "h_MerkleRoot (b_Header old_a) = []" "h_DifficultyTarget (b_Header old_a) = []"
  "h_MerkleRoot (b_Header old_x) = []" "h_DifficultyTarget (b_Header old_x) = []"
  by (simp_all add: old_a_def old_x_def sample_next_def sample_block_def)

lemma marshal_ref: "fst (marshal_Block ref_ext x) = enc_Block x" "fst (marshal_UndoBlock ref_ext y) = enc_UndoBlock y"
  by (simp_all add: ref_ext_def)

lemma block_bytes_small: "length (block_bytes old_a) < 2 ^ 32" "length (block_bytes old_x) < 2 ^ 32"
  using fork_lengths
  by (simp_all add: block_bytes_def marshal_ref enc_Block_def EncodeBlock_def EncodeHeader_def enc_Header_def enc_opt_def enc_list_def
      enc_Tx_def enc_bool_def EncodeTransaction_def fork_headers old_header_rest)
    (simp_all add: sample_spend_def sample_spend2_def enc_TxIn_def enc_TxOut_def EncodeTransactionInput_def EncodeTransactionOutput_def)

lemma undo_bytes_small: "length (undo_bytes undo_a) < 2 ^ 32" "length (undo_bytes undo_x) < 2 ^ 32"
  using fork_lengths
  by (simp_all add: undo_bytes_def marshal_ref enc_UndoBlock_def EncodeUndoBlock_def enc_list_def undo_a_def sample_undo2_def undo_x_def)

lemma read_old_block:
  assumes "d f = Some (block_bytes b)" and "length (block_bytes b) < 2 ^ 32" and "ascii_Block (EncodeBlock b)"
  shows "ReadBlock ref_ext d (whole_file f (block_bytes b)) = Some b"
  using read_whole_file [of d f "block_bytes b"] assms(1,2) unmarshal_marshal_Block [OF ref_ext_proto assms(3)]
  by (simp add: ReadBlock_def block_bytes_def block_wire.decode_encode)

lemma read_old_undo:
  assumes "d f = Some (undo_bytes ub)" and "length (undo_bytes ub) < 2 ^ 32" and wf: "wf_UndoBlock ub"
    and "list_all ascii (TransactionInputHashes ub)"
  shows "ReadUndoBlock ref_ext d (whole_file f (undo_bytes ub)) = Some ub"
proof -
  obtain p where p: "EncodeUndoBlock ub = Some p" "DecodeUndoBlock p = Some ub" "pub_TransactionInputHashes p = TransactionInputHashes ub"
    using undo_roundtrip [OF wf] by auto
  then have "unmarshal_UndoBlock ref_ext (fst (marshal_UndoBlock ref_ext p)) = (p, True)"
    using unmarshal_marshal_UndoBlock [OF ref_ext_proto, of p] assms(4) by (simp add: ascii_UndoBlock_def)
  then show ?thesis using read_whole_file [of d f "undo_bytes ub"] assms(1,2) p by (simp add: ReadUndoBlock_def undo_bytes_def)
qed

lemma old_ascii: "ascii_Block (EncodeBlock old_a)" "ascii_Block (EncodeBlock old_x)" "list_all ascii (TransactionInputHashes undo_a)"
  "list_all ascii (TransactionInputHashes undo_x)"
  by (simp_all add: ascii_Block_def EncodeBlock_def ascii_Header_def EncodeHeader_def fork_headers old_header_rest old_undo
      ascii_Transaction_def EncodeTransaction_def)
    (simp_all add: sample_spend_def sample_spend2_def EncodeTransactionInput_def)

lemma file_record_ascii:
  assumes "b \<in> {old_a, old_x, new_1, new_2}" and "ascii f" and "ascii g"
  shows "ascii_record (file_record b f ub g)"
  using assms
  by (auto simp: ascii_record_def ascii_BlockRecord_def EncodeBlockRecord_def file_record_def ascii_Header_def EncodeHeader_def)
    (simp_all add: old_a_def old_x_def new_1_def new_2_def sample_next_def sample_block_def)

lemma fork_records:
  "GetBlockRecord ref_ext fork_infodb (Block_Hash ref_ext old_x) = file_record old_x ''x'' undo_x ''y''"
  "GetBlockRecord ref_ext fork_infodb (Block_Hash ref_ext old_a) = file_record old_a ''a'' undo_a ''b''"
  "GetBlockRecord ref_ext fork_infodb (Block_Hash ref_ext new_1) = file_record new_1 [] undo_x []"
  "GetBlockRecord ref_ext fork_infodb (Block_Hash ref_ext new_2) = file_record new_2 [] undo_x []"
  by (simp_all add: fork_infodb_def GetBlockRecord_Store [OF ref_ext_leveldb ref_ext_proto] file_record_ascii)

lemma fork_found: "getForkLengthAndAncestor ref_ext (fork_chain c) (Block_Hash ref_ext new_2) = (2, Block_Hash ref_ext old_a)"
  by (simp add: getForkLengthAndAncestor_def fork_chain_def fork_records eval_nat_numeral)
    (simp add: file_record_def fork_headers fork_records)

lemma fork_read: "getBlocksAndUndoBlocks ref_ext (fork_chain c) fork_disk 2 (LastHash (fork_chain c)) = Some ([old_x, old_a], [undo_x, undo_a])"
proof -
  have "ReadBlock ref_ext fork_disk (whole_file ''x'' (block_bytes old_x)) = Some old_x"
    "ReadBlock ref_ext fork_disk (whole_file ''a'' (block_bytes old_a)) = Some old_a"
    "ReadUndoBlock ref_ext fork_disk (whole_file ''y'' (undo_bytes undo_x)) = Some undo_x"
    "ReadUndoBlock ref_ext fork_disk (whole_file ''b'' (undo_bytes undo_a)) = Some undo_a"
    by (rule read_old_block read_old_undo; simp add: fork_disk_def block_bytes_small [simplified] undo_bytes_small [simplified] old_ascii old_undo)+
  then show ?thesis
    by (simp add: eval_nat_numeral GetBlock_def getUndoBlock_def fork_chain_def fork_records)
      (simp add: file_record_def fork_headers GetBlock_def getUndoBlock_def fork_records)
qed

theorem reorg_keeps_old_coins_witness:
  "\<exists>bc bc' c. LastBlock bc = old_x \<and> utxo ref_ext (CoinDB bc) (locator spend_hash 0) = None \<and> utxo ref_ext (CoinDB bc) (locator cb_hash 0) = None \<and>
     handleFork ref_ext bc fork_disk new_2 4 = Some bc' \<and> LastBlock bc' = new_2 \<and>
     utxo ref_ext (CoinDB bc') (locator spend_hash 0) = Some \<lparr>Amount = 5, LockingScript = [3]\<rparr> \<and>
     FlushMainCache ref_ext (CoinDB bc') = Some c \<and> utxo ref_ext c (locator cb_hash 0) \<noteq> None"
proof -
  obtain c where c: "coindb_ok ref_ext c" "revertible ref_ext c old_branch" "utxo ref_ext c (locator spend_hash 0) = None"
    "utxo ref_ext c (locator cb_hash 0) = None"
    by (rule old_coins)
  have new: "new_coins ref_ext (txs_of old_branch) (locator spend_hash 0) = Some \<lparr>Amount = 5, LockingScript = [3]\<rparr>"
    using sample_outputs_of(1) new_coins_append [of ref_ext "[sample_spend2]" "[sample_spend]"] by (simp add: new_coins_single map_add_def)
  have cb: "locator cb_hash 0 \<in> inputs_of (txs_of old_branch)" "cb_hash \<notin> hashes_of ref_ext (txs_of old_branch)"
    by (simp_all add: old_inputs hashes_of_def)
  have "\<exists>bc' c'. handleFork ref_ext (fork_chain c) fork_disk new_2 4 = Some bc' \<and>
    LastBlock bc' = new_2 \<and> LastHash bc' = Block_Hash ref_ext new_2 \<and> Length bc' = 4 \<and>
    utxo ref_ext (CoinDB bc') = utxo ref_ext (CoinDB (fork_chain c)) ++ new_coins ref_ext (txs_of old_branch) \<and>
    FlushMainCache ref_ext (CoinDB bc') = Some c' \<and> (\<forall>cl \<in> inputs_of (txs_of old_branch).
      cl_ReferenceTransactionHash cl \<notin> hashes_of ref_ext (txs_of old_branch) \<longrightarrow> utxo ref_ext c' cl \<noteq> None)"
    using fork_found [of c] fork_read [of c] c(1,2)
    by (intro reorg_keeps_old_coins [where ancestor = "Block_Hash ref_ext old_a"]) (simp_all add: fork_chain_def numeral_2_eq_2)
  then obtain bc' c' where fork: "handleFork ref_ext (fork_chain c) fork_disk new_2 4 = Some bc'" "LastBlock bc' = new_2"
    "utxo ref_ext (CoinDB bc') = utxo ref_ext (CoinDB (fork_chain c)) ++ new_coins ref_ext (txs_of old_branch)"
    "FlushMainCache ref_ext (CoinDB bc') = Some c'" "utxo ref_ext c' (locator cb_hash 0) \<noteq> None"
    using cb by (auto simp del: txs_of_simps)
  have "utxo ref_ext (CoinDB bc') (locator spend_hash 0) = Some \<lparr>Amount = 5, LockingScript = [3]\<rparr>"
    using fork(3) new by (simp add: map_add_def del: txs_of_simps)
  moreover have "CoinDB (fork_chain c) = c" "LastBlock (fork_chain c) = old_x" by (simp_all add: fork_chain_def)
  ultimately show ?thesis
    using fork(1,2,4,5) c(3,4) by (intro exI [of _ "fork_chain c"] exI [of _ bc'] exI [of _ c']) simp
qed

end
