(* ===== verification/Merkle_Tree.thy ===== *)
theory Merkle_Tree
  imports Coin_Block
begin

text \<open>
  The Merkle root of \<open>src/pkg/block/block.go\<close> against a reference definition: the loop of
  \<open>CalculateMerkleRoot\<close> works level by level on one array, the reference descends from the root. The reference
  gives that the root binds the transactions.
\<close>

section \<open>The reference\<close>

text \<open>A tree of height \<open>k\<close> over at most \<open>2 ^ k\<close> leaves; a missing right subtree is the left one again.\<close>

fun merkle_tree :: "('db, 'z) ext_scheme \<Rightarrow> nat \<Rightarrow> string list \<Rightarrow> string" where
  "merkle_tree E 0 hs = hd hs"
| "merkle_tree E (Suc k) hs =
     (let left = merkle_tree E k (take (2 ^ k) hs)
      in hash_pair E left (if length hs \<le> 2 ^ k then left else merkle_tree E k (drop (2 ^ k) hs)))"

lemma pad_even_Cons2 [simp]: "pad_even (x # y # zs) = x # y # pad_even zs"
  by (simp add: pad_even_def)

lemma pad_even_small [simp]: "pad_even [] = []" "pad_even [x] = [x, x]"
  by (simp_all add: pad_even_def)

lemma hash_pairs_take: "take j (hash_pairs E (pad_even hs)) = hash_pairs E (pad_even (take (2 * j) hs))"
proof (induction j arbitrary: hs)
  case (Suc j)
  show ?case
    by (cases "(E, hs)" rule: hash_pairs.cases) (auto simp: Suc.IH)
qed simp

lemma hash_pairs_drop: "drop j (hash_pairs E (pad_even hs)) = hash_pairs E (pad_even (drop (2 * j) hs))"
proof (induction j arbitrary: hs)
  case (Suc j)
  show ?case
    by (cases "(E, hs)" rule: hash_pairs.cases) (auto simp: Suc.IH)
qed simp

lemma merkle_tree_level:
  assumes "hs \<noteq> []" and "length hs \<le> 2 ^ Suc k"
  shows "merkle_tree E (Suc k) hs = merkle_tree E k (hash_pairs E (pad_even hs))"
  using assms
proof (induction k arbitrary: hs)
  case 0
  then consider h where "hs = [h]" | h h' where "hs = [h, h']"
    by (cases hs; cases "tl hs") (auto simp: Suc_le_eq)
  then show ?case by cases simp_all
next
  case (Suc k)
  have len: "length (hash_pairs E (pad_even hs)) \<le> 2 ^ k \<longleftrightarrow> length hs \<le> 2 ^ Suc k"
    unfolding merkle_round_length by (simp add: less_eq_div_iff_mult_less_eq) arith
  have left: "merkle_tree E (Suc k) (take (2 ^ Suc k) hs) = merkle_tree E k (take (2 ^ k) (hash_pairs E (pad_even hs)))"
    using Suc.IH [of "take (2 ^ Suc k) hs"] Suc.prems(1) by (simp add: hash_pairs_take)
  have right: "merkle_tree E (Suc k) (drop (2 ^ Suc k) hs) = merkle_tree E k (drop (2 ^ k) (hash_pairs E (pad_even hs)))"
    if "\<not> length hs \<le> 2 ^ Suc k"
    using Suc.IH [of "drop (2 ^ Suc k) hs"] Suc.prems(2) that by (simp add: hash_pairs_drop)
  show ?case
    unfolding merkle_tree.simps(2) [of E "Suc k"] merkle_tree.simps(2) [of E k "hash_pairs E (pad_even hs)"] Let_def len left
    using right by simp
qed

lemma merkle_loop_tree:
  assumes "length hs \<le> 2 ^ k" and "2 ^ k < 2 * length hs"
  shows "merkle_loop E hs = Some [merkle_tree E k hs]"
  using assms
proof (induction k arbitrary: hs)
  case 0
  then have "length hs = 1" by simp
  then obtain h where "hs = [h]" by (auto simp: length_Suc_conv)
  then show ?case by simp
next
  case (Suc k)
  have ne: "hs \<noteq> []" and len: "length hs \<noteq> 1" using Suc.prems by auto
  have "merkle_loop E (hash_pairs E (pad_even hs)) = Some [merkle_tree E k (hash_pairs E (pad_even hs))]"
    by (rule Suc.IH) (use Suc.prems in \<open>simp_all add: merkle_round_length\<close>)
  then show ?case
    using len merkle_tree_level [OF ne Suc.prems(1), of E] by (simp add: merkle_loop.simps [of E hs] del: merkle_tree.simps)
qed

lemma merkle_loop_pad: "length hs \<noteq> 1 \<Longrightarrow> merkle_loop E (pad_even hs) = merkle_loop E hs"
  by (cases "length hs mod 2 = 0")
    (auto simp: merkle_loop.simps [of E hs] merkle_loop.simps [of E "hs @ [last hs]"] pad_even_def, presburger+)

lemma CalculateMerkleRoot_tree:
  assumes "length txs \<le> 2 ^ k" and "2 ^ k < 2 * length txs"
  shows "CalculateMerkleRoot E txs = Some (merkle_tree E k (map (Transaction_Hash E) txs))"
proof -
  let ?hs = "map (Transaction_Hash E) txs"
  have "map (Transaction_Hash E) (if length txs > 1 \<and> length txs mod 2 \<noteq> 0 then txs @ [last txs] else txs) =
      (if length txs > 1 then pad_even ?hs else ?hs)"
    by (cases "txs = []") (auto simp: pad_even_def last_map)
  then show ?thesis
    using merkle_loop_tree [of ?hs k E] merkle_loop_pad [of ?hs E] assms
    by (auto simp: CalculateMerkleRoot_def Let_def)
qed

text \<open>
  C20: The level-by-level loop computes the root of the tree: for the smallest height \<open>k\<close> whose tree has room for the
  transactions, \<open>CalculateMerkleRoot\<close> returns the recursively defined root over their hashes.
\<close>

theorem merkle_root_is_tree:
  assumes "length txs \<le> 2 ^ k" and "2 ^ k < 2 * length txs"
  shows "CalculateMerkleRoot E txs = Some (merkle_tree E k (map (Transaction_Hash E) txs))"
  by (rule CalculateMerkleRoot_tree [OF assms])

section \<open>The root binds the transactions\<close>

text \<open>The messages hashed inside the tree.\<close>

fun merkle_inputs :: "('db, 'z) ext_scheme \<Rightarrow> nat \<Rightarrow> string list \<Rightarrow> bytes set" where
  "merkle_inputs E 0 hs = {}"
| "merkle_inputs E (Suc k) hs =
     (let left = merkle_tree E k (take (2 ^ k) hs);
          right = (if length hs \<le> 2 ^ k then left else merkle_tree E k (drop (2 ^ k) hs))
      in insert (hex_DecodeString left @ hex_DecodeString right)
           (merkle_inputs E k (take (2 ^ k) hs) \<union> (if length hs \<le> 2 ^ k then {} else merkle_inputs E k (drop (2 ^ k) hs))))"

definition digest :: "string \<Rightarrow> bool" where
  "digest s \<longleftrightarrow> (\<exists>bs. length bs = 32 \<and> s = hex_EncodeToString bs)"

lemma digest_hash [simp]: "sha256_length E \<Longrightarrow> digest (hash_pair E x y)" "sha256_length E \<Longrightarrow> digest (Transaction_Hash E t)"
  by (auto simp: digest_def hash_pair_def utils_Hash_def Transaction_Hash_def Let_def sha256_length_def)

lemma digest_merkle_tree:
  "sha256_length E \<Longrightarrow> hs \<noteq> [] \<Longrightarrow> \<forall>h \<in> set hs. digest h \<Longrightarrow> digest (merkle_tree E k hs)"
  by (cases k) (simp_all add: Let_def)

lemma hash_pair_inj:
  assumes "digest x" "digest y" "digest x'" "digest y'" and "hash_pair E x y = hash_pair E x' y'"
    and "inj_on (sha256 E) M" and "hex_DecodeString x @ hex_DecodeString y \<in> M" "hex_DecodeString x' @ hex_DecodeString y' \<in> M"
  shows "x = x' \<and> y = y'"
proof -
  have "hex_DecodeString x @ hex_DecodeString y = hex_DecodeString x' @ hex_DecodeString y'"
    using assms(5-8) by (auto simp: hash_pair_def utils_Hash_def dest: inj_onD)
  then show ?thesis using assms(1-4) by (auto simp: digest_def)
qed

lemma merkle_tree_inj:
  assumes "sha256_length E" and "hs \<noteq> []" and "length hs = length hs'" and "length hs \<le> 2 ^ k"
    and "\<forall>h \<in> set hs. digest h" and "\<forall>h \<in> set hs'. digest h"
    and "merkle_tree E k hs = merkle_tree E k hs'"
    and "inj_on (sha256 E) M" and "merkle_inputs E k hs \<subseteq> M" and "merkle_inputs E k hs' \<subseteq> M"
  shows "hs = hs'"
  using assms(2-)
proof (induction k arbitrary: hs hs')
  case 0
  then show ?case by (cases hs; cases hs') simp_all
next
  case (Suc k)
  let ?l = "take (2 ^ k)" and ?r = "drop (2 ^ k)"
  have ne: "?l hs \<noteq> []" "?l hs' \<noteq> []" using Suc.prems(1,2) by auto
  have dl: "\<forall>h \<in> set (?l hs). digest h" "\<forall>h \<in> set (?l hs'). digest h" "\<forall>h \<in> set (?r hs). digest h" "\<forall>h \<in> set (?r hs'). digest h"
    using Suc.prems(4,5) by (auto dest: in_set_takeD in_set_dropD)
  note d = digest_merkle_tree [OF assms(1) ne(1) dl(1), of k] digest_merkle_tree [OF assms(1) ne(2) dl(2), of k]
  note IH = Suc.IH [OF ne(1) _ _ dl(1,2) _ Suc.prems(7)]
  show ?case
  proof (cases "length hs \<le> 2 ^ k")
    case True
    then have "merkle_tree E k (?l hs) = merkle_tree E k (?l hs')"
      using hash_pair_inj [OF d(1) d(1) d(2) d(2) _ Suc.prems(7)] Suc.prems(2,6,8,9) by (simp add: Let_def)
    then have "?l hs = ?l hs'" using IH Suc.prems(2,8,9) True by (simp add: Let_def)
    then show ?thesis using True Suc.prems(2) by simp
  next
    case False
    have ner: "?r hs \<noteq> []" "?r hs' \<noteq> []" using False Suc.prems(2) by auto
    note dr = digest_merkle_tree [OF assms(1) ner(1) dl(3), of k] digest_merkle_tree [OF assms(1) ner(2) dl(4), of k]
    have "merkle_tree E k (?l hs) = merkle_tree E k (?l hs') \<and> merkle_tree E k (?r hs) = merkle_tree E k (?r hs')"
      using hash_pair_inj [OF d(1) dr(1) d(2) dr(2) _ Suc.prems(7)] Suc.prems(2,6,8,9) False by (simp add: Let_def)
    then have "?l hs = ?l hs'" "?r hs = ?r hs'"
      using IH Suc.IH [OF ner(1) _ _ dl(3,4) _ Suc.prems(7)] Suc.prems(2,3,8,9) False by (simp_all add: Let_def)
    then show ?thesis by (metis append_take_drop_id)
  qed
qed

lemma merkle_height:
  assumes "n > 0"
  shows "\<exists>k. n \<le> 2 ^ k \<and> 2 ^ k < 2 * (n :: nat)"
proof -
  let ?k = "LEAST k. n \<le> 2 ^ k"
  have le: "n \<le> 2 ^ ?k" by (rule LeastI [of _ n]) (simp add: less_imp_le)
  have "2 ^ ?k < 2 * n"
  proof (cases ?k)
    case (Suc j)
    then have "\<not> n \<le> 2 ^ j" using not_less_Least [of j "\<lambda>k. n \<le> 2 ^ k"] by simp
    then show ?thesis using Suc by simp
  qed (use assms in simp)
  then show ?thesis using le by blast
qed

text \<open>
  C11: The Merkle root binds the transactions. Let two lists of the same length have the same root, and let SHA-256 have no
  collision among the messages hashed for the two roots and for the transactions. Then the lists
  agree in every transaction, up to the witnesses, which no hash covers.
\<close>

theorem merkle_root_binds:
  assumes "sha256_length E" and "length txs = length txs'" and "txs \<noteq> []"
    and "CalculateMerkleRoot E txs = CalculateMerkleRoot E txs'"
    and "\<And>k. length txs \<le> 2 ^ k \<Longrightarrow> 2 ^ k < 2 * length txs \<Longrightarrow> inj_on (sha256 E)
      (merkle_inputs E k (map (Transaction_Hash E) txs) \<union> merkle_inputs E k (map (Transaction_Hash E) txs'))"
    and "inj_on (\<lambda>m. sha256 E (fst (marshal_Transaction E m)))
      ((\<lambda>t. EncodeTransaction (t\<lparr>Witnesses := []\<rparr>)) ` (set txs \<union> set txs'))"
  shows "map (\<lambda>t. t\<lparr>Witnesses := []\<rparr>) txs = map (\<lambda>t. t\<lparr>Witnesses := []\<rparr>) txs'"
proof -
  obtain k where k: "length txs \<le> 2 ^ k" "2 ^ k < 2 * length txs"
    using merkle_height [of "length txs"] assms(3) by auto
  have "merkle_tree E k (map (Transaction_Hash E) txs) = merkle_tree E k (map (Transaction_Hash E) txs')"
    using assms(4) CalculateMerkleRoot_tree [OF k, of E] CalculateMerkleRoot_tree [of txs' k E] k assms(2) by simp
  then have hs: "map (Transaction_Hash E) txs = map (Transaction_Hash E) txs'"
    using merkle_tree_inj [OF assms(1) _ _ _ _ _ _ assms(5) [OF k],
        of "map (Transaction_Hash E) txs" "map (Transaction_Hash E) txs'" k] assms(1-3) k by auto
  show ?thesis
  proof (rule nth_equalityI)
    fix i assume "i < length (map (\<lambda>t. t\<lparr>Witnesses := []\<rparr>) txs)"
    then have i: "i < length txs" "i < length txs'" using assms(2) by auto
    have th: "Transaction_Hash E (txs ! i) = Transaction_Hash E (txs' ! i)"
      using arg_cong [OF hs, of "\<lambda>xs. xs ! i"] i by simp
    have inj: "inj_on (\<lambda>m. sha256 E (fst (marshal_Transaction E m)))
        {EncodeTransaction ((txs ! i)\<lparr>Witnesses := []\<rparr>), EncodeTransaction ((txs' ! i)\<lparr>Witnesses := []\<rparr>)}"
      by (rule inj_on_subset [OF assms(6)]) (use i in auto)
    show "map (\<lambda>t. t\<lparr>Witnesses := []\<rparr>) txs ! i = map (\<lambda>t. t\<lparr>Witnesses := []\<rparr>) txs' ! i"
      using iffD1 [OF Transaction_Hash_eq_iff [OF inj] th] i by simp
  qed (use assms(2) in simp)
qed

theorem merkle_root_is_tree_witness:
  "CalculateMerkleRoot ref_ext [sample_tx 1, sample_tx 2, sample_tx 3] =
     Some (merkle_tree ref_ext 2 [Transaction_Hash ref_ext (sample_tx 1), Transaction_Hash ref_ext (sample_tx 2),
       Transaction_Hash ref_ext (sample_tx 3)])"
  using merkle_root_is_tree [of "[sample_tx 1, sample_tx 2, sample_tx 3]" 2 ref_ext] by simp

text \<open>Two lists that differ in a witness only, with a hash that keeps the first 32 bytes.\<close>

definition short_ext :: "(bytes \<times> bytes) list ext" where
  "short_ext = ref_ext\<lparr>sha256 := \<lambda>bs. take 32 (bs @ replicate 32 0)\<rparr>"

theorem merkle_root_binds_witness:
  "CalculateMerkleRoot short_ext [sample_tx 1, sample_tx 1] = CalculateMerkleRoot short_ext [sample_tx 1, (sample_tx 1)\<lparr>Witnesses := [[7]]\<rparr>] \<and>
   map (\<lambda>t. t\<lparr>Witnesses := []\<rparr>) [sample_tx 1, sample_tx 1] =
   map (\<lambda>t. t\<lparr>Witnesses := []\<rparr>) [sample_tx 1, (sample_tx 1)\<lparr>Witnesses := [[7]]\<rparr>]"
proof -
  let ?t = "sample_tx 1" and ?u = "(sample_tx 1)\<lparr>Witnesses := [[7]]\<rparr>"
  have root: "CalculateMerkleRoot short_ext [?t, ?t] = CalculateMerkleRoot short_ext [?t, ?u]"
    by (simp add: CalculateMerkleRoot_def)
  have inj: "inj_on (sha256 short_ext) (merkle_inputs short_ext k (map (Transaction_Hash short_ext) [?t, ?t]))"
    if k: "(2 :: nat) \<le> 2 ^ k" "(2 :: nat) ^ k < 4" for k
  proof -
    obtain j where "k = Suc j" using k(1) by (cases k) auto
    moreover have "j = 0" using k(2) calculation by (cases j) auto
    ultimately show ?thesis by (simp add: Let_def)
  qed
  show ?thesis
    using merkle_root_binds [of short_ext "[?t, ?t]" "[?t, ?u]"] inj root
    by (simp add: sha256_length_def short_ext_def min_def sample_tx_def)
qed

end
