(* ===== verification/Spec2Isabelle.thy ===== *)
theory Spec2Isabelle
  imports Thread_Instances Net_Instances Wallet_Instances Reorg_Instances Merkle_Tree
begin

text \<open>
  A verification development for the Coin node, a block chain node with a miner, a wallet and lightning channels
  (\<open>src/pkg\<close>, Go).

  \<^bold>\<open>The program.\<close> A node (\<open>node.go\<close>) owns a block chain, a wallet, a miner, a lightning node, a watch tower and the
  databases of addresses and peers. Handlers of a gRPC service (\<open>server.go\<close>) receive blocks, transactions and
  addresses; a loop receives the messages the components send on channels. The block chain
  (\<open>blockchain/\<close>) writes blocks and undo blocks to files (\<open>chainwriter/\<close>), records about them to a
  levelDB (\<open>blockinfodatabase/\<close>), and keeps the unspent coins in a cache over a second levelDB (\<open>coindatabase/\<close>).
  The miner (\<open>miner/\<close>) keeps transactions in a heap (\<open>block/transactionheap.go\<close>) and searches nonces. The wallet
  (\<open>wallet/\<close>) collects coins from blocks and makes transactions. A lightning node (\<open>lightning/\<close>)
  opens and updates payment channels with a peer.

  \<^bold>\<open>The model.\<close> One definition per function, in the order of the code, over records with the fields of the structs. 32-bit
  numbers are words and wrap; lengths of slices are natural numbers; a nil slice is the empty list. A panic and a loop that does
  not end are \<^const>\<open>None\<close>; errors are values of sum types. Maps whose order does not matter are association lists with
  distinct keys; where an iteration order, a clock reading, random bits, the answer to a remote call or on a channel
  matters, it is an argument. Handlers return the goroutines and remote calls they start as tasks.
  The arguments of log lines are part of the model where they can panic on values that come from outside or that the
  operation is given: addresses in \<open>Miner\<close>, \<open>Wallet\<close> and \<open>Network\<close>, hashes in \<open>Mine\<close>; the other log lines are left out.
  Where the code compares or shares pointers (outputs in the wallet, addresses of peers, peers of channels), the
  model has addresses and, for mutable objects, an explicit store. Third-party code (levelDB, protobuf,
  SHA-256, ECDSA, X.509) is the record \<open>ext\<close> of \<open>Coin_Proto\<close>, the first argument \<open>E\<close> of the
  definitions that use it; what is relied on are the named laws \<open>leveldb_laws\<close>, \<open>proto_laws\<close>, \<open>script_laws\<close>,
  \<open>x509_laws\<close> and \<open>sha256_length\<close>. \<open>Ext_Instance\<close> defines libraries that satisfy the laws; the
  witnesses run on them.

  \<^bold>\<open>The theories\<close>, and the code each models:
  \<^item> \<open>Coin_Prelude\<close>: types, hexadecimal strings, folds that may fail, word arithmetic. \<open>Coin_Proto\<close>: \<open>pro/\<close>, messages and
    the interface to libraries.
  \<^item> \<open>Coin_Block\<close>: \<open>block/block.go\<close>, \<open>block/transaction.go\<close>. The locale \<open>wire_format\<close> is the contract of an
    encoder and its decoder, interpreted for every message. \<open>Merkle_Tree\<close>: the loop of the Merkle root computes a
    recursive tree, and the root binds the transactions.
  \<^item> \<open>Tx_Heap\<close>: \<open>block/transactionheap.go\<close>. The locale \<open>heap_order\<close> holds the array heap algorithms.
  \<^item> \<open>Block_Info_DB\<close>, \<open>Chain_Writer\<close>: records and files. The locale \<open>append_log\<close> is the contract of both
    kinds of file.
  \<^item> \<open>Coin_Database\<close>: \<open>coindatabase/\<close>. \<open>Coin_Utxo\<close> abstracts it to a map of unspent coins, \<open>Coin_Store\<close>
    proves that validation, storing and flushing refine the abstract ledger (locale \<open>coin_store\<close>), \<open>Coin_Undo\<close> that undo
    restores it, \<open>Coin_Balance\<close> the balance, with the witnesses. \<open>Coin_Revert\<close> and \<open>Coin_Reorg\<close>: several blocks are reverted and stored
    again; undo may leave an index twice in a record, so these lemmas follow cache and records instead of the unspent coins.
  \<^item> \<open>Block_Chain\<close>: \<open>blockchain/blockchain.go\<close>. \<open>Active_Chain\<close>: the chain stands for a list of linked, stored blocks;
    appending, rejecting, side blocks and queries. \<open>Chain_Instances\<close>: witnesses. \<open>Chain_Reorg\<close>: what a reorganisation leaves as tip and
    coins, and what the next flush makes of them. \<open>Reorg_Instances\<close>: a reorganisation over two blocks.
  \<^item> \<open>Coin_Keys\<close>: \<open>utils/\<close>, \<open>id/\<close>, \<open>script/\<close>.
  \<^item> \<open>Tx_Pool\<close>, \<open>Miner\<close>: \<open>miner/\<close>. \<open>Mining\<close>: pool invariant, mined blocks, rewards. \<open>Mining_Instances\<close>: witnesses.
  \<^item> \<open>Wallet\<close>: \<open>wallet/\<close>. \<open>Wallet_Balance\<close>: the invariant of the wallet over all runs. \<open>Wallet_Spend\<close>: requests and
    funding transactions. \<open>Wallet_Instances\<close>: witnesses.
  \<^item> \<open>Peers\<close>: \<open>address/\<close>, \<open>address/addressdb/\<close>, \<open>peer/\<close> and the part of \<open>Version\<close> that node and lightning node share.
  \<^item> \<open>Lightning\<close>: \<open>lightning/\<close>. \<open>Channel_Protocol\<close>: two nodes exchange the messages of opening and updates.
    \<open>Channel_Funding\<close>: funding and refund. \<open>Channel_Instances\<close>: witnesses. \<open>Channel_Peering\<close>: several lightning nodes connect, open
    and update channels; which connections a channel needs.
  \<^item> \<open>Node\<close>: \<open>node.go\<close>, \<open>config.go\<close>, \<open>server.go\<close>, \<open>validation.go\<close>. \<open>Node_Sync\<close>: blocks on the network and
    bootstrapping. \<open>Node_Relay\<close>: transactions on the network. \<open>Node_Machine\<close>: invariants over all moves of a node (locale
    \<open>state_machine\<close>). \<open>Node_Instances\<close>: witnesses.
  \<^item> \<open>Coin_Log\<close>: the formatting of \<open>utils/logging.go\<close> and the name tags of blocks and transactions, which may panic.
    \<open>Rpc_Client\<close>: \<open>address/client.go\<close> over the record \<open>transport\<close>, which stands for gRPC. \<open>Net_Bootstrap\<close>: bootstrapping through the
    client.
  \<^item> \<open>Network\<close>: several nodes as processes with servers (the end of \<open>node.go\<close>), the messages under way between them, and the steps
    of the whole. \<open>Flooding\<close>: the contract of a message that every receiver passes on once (locale \<open>flooding\<close>), with a bound on
    the exchange and the processes it reaches. \<open>Net_Flood\<close>: \<open>ForwardBlock\<close> keeps the contract, so a block reaches all connected
    nodes. \<open>Net_Peers\<close>: two nodes become peers; a bad address stops a process. \<open>Node_Tasks\<close>: tasks carry pointers of live peers.
    \<open>Net_Instances\<close>: witnesses.
  \<^item> \<open>Node_Threads\<close>: the goroutines of one process, interleaved between the operations that may block: the mutex of the node
    (\<open>server.go\<close>) and the channels of miner, lightning node and loop (\<open>miner/\<close>, \<open>lightning/\<close>, \<open>node.go\<close>). Handlers exclude each other
    and receive their own answers, and without interruption do what the operations of \<open>Node\<close> do; an active miner and a timeout block them
    for ever. \<open>Thread_Instances\<close>: witnesses, also for \<open>Channel_Peering\<close>.

  \<^bold>\<open>Bounds.\<close> No fuel is used: loops that may not end are partial functions into \<open>option\<close>, the others are structural or
  have a termination proof. Heights stay below \<open>2 ^ 32\<close>, and below \<open>2 ^ 32 - 500\<close> where the server adds
  500 to a height. Theorems on files require that the written bytes fit into 32-bit offsets.

  \<^bold>\<open>Network.\<close> A call to a process that serves is delivered, at any later time; the caller may still see an error or give up
  after the time limit, and then prints addresses. A call to a process that is down or does not serve fails. Messages are not
  lost or duplicated otherwise. Here a handler is one step: a send on \<open>PoolUpdated\<close>, which nobody receives, ends the goroutine's work
  without effect on the state. What its waiting does to the process is the subject of \<open>Node_Threads\<close>; while no miner is active, a
  handler of a transaction has exactly the effect of its step. So \<open>ForwardTransaction\<close> as one operation stands for the code only where
  the miner is missing or not active, and the properties of the relay assume that.

  \<^bold>\<open>Invariants.\<close> The invariant \<open>coindb_ok\<close> of the coin database holds from an empty database on and every appended block keeps it; a
  reorganisation can break it, because its records may then hold an index twice. Properties that assume it speak of a node before its
  first reorganisation.

  \<^bold>\<open>Not modelled.\<close> Opening the log (\<open>init\<close> and \<open>SetDebug\<close> of \<open>utils/logging.go\<close>); the generated code of \<open>pro/\<close> apart from the
  message types; closing the databases; calls between lightning nodes that overlap (\<open>Channel_Protocol\<close> and \<open>Channel_Peering\<close> take them one
  at a time); the tests. Goroutines are interleaved between operations that may block, so data races within such a stretch, as between
  the loop and a handler that use the block chain at the same time, are outside the model; answers during \<open>Bootstrap\<close> are taken one at a
  time.
\<close>

end
